(* ===== verification/Go_Prelude.thy ===== *)
theory Go_Prelude
  imports Main "HOL-Library.AList" "HOL-Library.Char_ord" "HOL-Library.List_Lexorder"
    "HOL-Library.Sublist" "HOL-Library.Multiset" "HOL-Library.Code_Target_Nat"
begin

text \<open>
  The shared vocabulary of the development: the named collections of simplification rules, Go's
  built-in maps as association lists with the laws their clients use (the locale \<open>go_map\<close>),
  Go's 64-bit signed integers and durations written over \<open>int\<close> with their wrap-around and
  saturation, and the list lemmas the component theories share.
\<close>

named_theorems go_simps \<open>evaluation rules of the Go standard library model\<close>
named_theorems map_simps \<open>lookup, update and deletion on Go maps\<close>
named_theorems inv_intros \<open>preservation of component invariants\<close>

section \<open>Go maps\<close>

text \<open>
  A Go map is an association list in which every key occurs once (\<open>mwf\<close>). The order of the list
  stands for the unspecified iteration order of \<open>range\<close>; where the program sorts the keys
  before it uses them the model sorts too. \<open>mput\<close> is \<open>m[k] = v\<close>, \<open>mdel\<close> is
  \<open>delete(m, k)\<close>, \<open>mget\<close> is the two-valued lookup \<open>v, ok := m[k]\<close> and \<open>mlen\<close> is
  \<open>len(m)\<close>.
\<close>

type_synonym ('k, 'v) gomap = "('k \<times> 'v) list"

definition mget :: "('k, 'v) gomap \<Rightarrow> 'k \<Rightarrow> 'v option" where
  "mget m k = map_of m k"

definition mput :: "'k \<Rightarrow> 'v \<Rightarrow> ('k, 'v) gomap \<Rightarrow> ('k, 'v) gomap" where
  "mput k v m = AList.update k v m"

definition mdel :: "'k \<Rightarrow> ('k, 'v) gomap \<Rightarrow> ('k, 'v) gomap" where
  "mdel k m = AList.delete k m"

definition mlen :: "('k, 'v) gomap \<Rightarrow> nat" where
  "mlen m = length m"

definition mkeys :: "('k, 'v) gomap \<Rightarrow> 'k list" where
  "mkeys m = map fst m"

definition mwf :: "('k, 'v) gomap \<Rightarrow> bool" where
  "mwf m \<longleftrightarrow> distinct (map fst m)"

text \<open>The zero value a one-valued lookup \<open>m[k]\<close> of a string-valued map gives.\<close>

definition mstr :: "('k, string) gomap \<Rightarrow> 'k \<Rightarrow> string" where
  "mstr m k = (case mget m k of None \<Rightarrow> [] | Some v \<Rightarrow> v)"

text \<open>What a client of a map relies on.\<close>

locale go_map =
  fixes get :: "'m \<Rightarrow> 'k \<Rightarrow> 'v option"
    and put :: "'k \<Rightarrow> 'v \<Rightarrow> 'm \<Rightarrow> 'm"
    and del :: "'k \<Rightarrow> 'm \<Rightarrow> 'm"
    and len :: "'m \<Rightarrow> nat"
    and wf :: "'m \<Rightarrow> bool"
  assumes get_put: "get (put k v m) k' = (if k' = k then Some v else get m k')"
    and get_del: "get (del k m) k' = (if k' = k then None else get m k')"
    and wf_put: "wf m \<Longrightarrow> wf (put k v m)"
    and wf_del: "wf m \<Longrightarrow> wf (del k m)"
    and len_card: "wf m \<Longrightarrow> finite (dom (get m)) \<and> len m = card (dom (get m))"
begin

lemma dom_put: "dom (get (put k v m)) = insert k (dom (get m))"
  by (auto simp: dom_def get_put)

lemma dom_del: "dom (get (del k m)) = dom (get m) - {k}"
  by (auto simp: dom_def get_del)

lemma len_zero: "wf m \<Longrightarrow> len m = 0 \<longleftrightarrow> (\<forall>k. get m k = None)"
  using len_card [of m] by (auto simp: dom_def)

lemma len_put_new:
  assumes "wf m" and "get m k = None"
  shows "len (put k v m) = Suc (len m)"
proof -
  have "k \<notin> dom (get m)" and "finite (dom (get m))"
    using assms len_card by auto
  then show ?thesis
    using assms len_card [of m] len_card [OF wf_put [OF assms(1), of k v]] by (simp add: dom_put)
qed

lemma len_put_old:
  assumes "wf m" and "get m k = Some w"
  shows "len (put k v m) = len m"
proof -
  have "insert k (dom (get m)) = dom (get m)"
    using assms(2) by auto
  then show ?thesis
    using assms len_card [of m] len_card [OF wf_put [OF assms(1), of k v]] by (simp add: dom_put)
qed

lemma len_del_old:
  assumes "wf m" and "get m k = Some w"
  shows "Suc (len (del k m)) = len m"
proof -
  have "k \<in> dom (get m)" and "finite (dom (get m))"
    using assms len_card by auto
  then have "Suc (card (dom (get m) - {k})) = card (dom (get m))"
    by (metis card_Suc_Diff1)
  then show ?thesis
    using assms len_card [of m] len_card [OF wf_del [OF assms(1), of k]] by (simp add: dom_del)
qed

end

lemma mget_mput [map_simps]: "mget (mput k v m) k' = (if k' = k then Some v else mget m k')"
  by (simp add: mget_def mput_def update_conv')

lemma mget_mdel [map_simps]: "mget (mdel k m) k' = (if k' = k then None else mget m k')"
  by (simp add: mget_def mdel_def delete_conv')

lemma mget_Nil [map_simps]: "mget [] k = None"
  by (simp add: mget_def)

lemma mwf_Nil [intro!, simp]: "mwf []"
  by (simp add: mwf_def)

lemma mwf_mput [intro]: "mwf m \<Longrightarrow> mwf (mput k v m)"
  by (simp add: mwf_def mput_def distinct_update)

lemma mwf_mdel [intro]: "mwf m \<Longrightarrow> mwf (mdel k m)"
  by (simp add: mwf_def mdel_def distinct_delete)

lemma dom_mget: "dom (mget m) = set (mkeys m)"
  by (simp add: mget_def [abs_def] mkeys_def dom_map_of_conv_image_fst)

lemma mlen_card:
  assumes "mwf m"
  shows "finite (dom (mget m)) \<and> mlen m = card (dom (mget m))"
  using assms distinct_card [of "map fst m"] by (simp add: dom_mget mkeys_def mlen_def mwf_def)

interpretation gm: go_map mget mput mdel mlen mwf
  by unfold_locales (auto simp: map_simps dest: mlen_card)

lemma mget_mem: "mwf m \<Longrightarrow> mget m k = Some v \<longleftrightarrow> (k, v) \<in> set m"
  by (simp add: mwf_def mget_def)

lemma mget_in_set: "mget m k = Some v \<Longrightarrow> (k, v) \<in> set m"
  by (simp add: mget_def map_of_SomeD)

lemma set_mdel: "set (mdel k m) = {p \<in> set m. fst p \<noteq> k}"
  by (auto simp: mdel_def AList.delete_eq)

lemma mlen_0_iff [simp]: "mlen m = 0 \<longleftrightarrow> m = []"
  by (simp add: mlen_def)

lemma mlen_Nil [map_simps]: "mlen [] = 0"
  by simp

lemma mput_ne [simp]: "mput k v m \<noteq> []"
  by (cases m) (auto simp: mput_def)

lemma set_mput_subset: "set (mput k v m) \<subseteq> insert (k, v) (set m)"
  by (induction m) (auto simp: mput_def split: if_splits)

lemma mget_all_None: "(\<forall>k. mget m k = None) \<longleftrightarrow> m = []"
  by (cases m) (auto simp: mget_def split: if_splits)

text \<open>Sums over the values of a map.\<close>

definition msum :: "('v \<Rightarrow> int) \<Rightarrow> ('k, 'v) gomap \<Rightarrow> int" where
  "msum f m = sum_list (map (\<lambda>p. f (snd p)) m)"

lemma msum_Nil [simp]: "msum f [] = 0"
  by (simp add: msum_def)

lemma msum_mput:
  "mwf m \<Longrightarrow> msum f (mput k v m) = msum f m + f v - (case mget m k of None \<Rightarrow> 0 | Some w \<Rightarrow> f w)"
proof (induction m)
  case (Cons p m)
  obtain k' w where p: "p = (k', w)"
    by fastforce
  have "k' \<notin> fst ` set m" and IH: "msum f (mput k v m) = msum f m + f v - (case mget m k of None \<Rightarrow> 0 | Some w \<Rightarrow> f w)"
    using Cons p by (auto simp: mwf_def)
  then show ?case
    by (auto simp: p msum_def mput_def mget_def)
qed (simp add: msum_def mput_def mget_def)

text \<open>A map filled by a loop over entries with distinct keys.\<close>

lemma mget_foldl_mput_gen:
  "mget (foldl (\<lambda>m c. mput (f c) (g c) m) m0 cs) k =
    (case find (\<lambda>c. f c = k) (rev cs) of Some c \<Rightarrow> Some (g c) | None \<Rightarrow> mget m0 k)"
  by (induction cs rule: rev_induct) (auto simp: map_simps)

lemma mget_foldl_mput:
  assumes "distinct (map f cs)"
  shows "mget (foldl (\<lambda>m c. mput (f c) (g c) m) [] cs) k = Some v \<longleftrightarrow>
    (\<exists>c \<in> set cs. f c = k \<and> g c = v)"
proof (cases "find (\<lambda>c. f c = k) (rev cs)")
  case None
  moreover from None have "\<forall>c \<in> set cs. f c \<noteq> k"
    by (auto simp: find_None_iff)
  ultimately show ?thesis
    by (simp add: mget_foldl_mput_gen map_simps)
next
  case (Some c)
  then have c: "c \<in> set cs" "f c = k"
    by (auto simp: find_Some_iff) (metis nth_mem set_rev length_rev)
  have uniq: "c' = c" if "c' \<in> set cs" "f c' = k" for c'
    using assms c that by (auto simp: distinct_map dest: inj_onD)
  have "mget (foldl (\<lambda>m c. mput (f c) (g c) m) [] cs) k = Some (g c)"
    using Some by (simp add: mget_foldl_mput_gen)
  then show ?thesis
    using uniq c by (metis option.inject)
qed

lemma option_eqI: "(\<And>v. x = Some v \<longleftrightarrow> y = Some v) \<Longrightarrow> x = y"
  by (cases x; cases y) auto

section \<open>64-bit integers and durations\<close>

text \<open>
  Go's \<open>int\<close>, \<open>int64\<close> and \<open>time.Duration\<close> are 64-bit signed: arithmetic wraps.
  \<open>wrap64\<close> is the two's complement reading of an integer; it is the identity in range.
\<close>

definition maxInt64 :: int where "maxInt64 = 2 ^ 63 - 1"
definition minInt64 :: int where "minInt64 = - (2 ^ 63)"

definition in_int64 :: "int \<Rightarrow> bool" where
  "in_int64 n \<longleftrightarrow> minInt64 \<le> n \<and> n \<le> maxInt64"

definition wrap64 :: "int \<Rightarrow> int" where
  "wrap64 n = (n + 2 ^ 63) mod 2 ^ 64 - 2 ^ 63"

lemma wrap64_id: "in_int64 n \<Longrightarrow> wrap64 n = n"
  by (simp add: in_int64_def wrap64_def minInt64_def maxInt64_def)

lemma wrap64_range: "in_int64 (wrap64 n)"
proof -
  have "0 \<le> (n + 2 ^ 63) mod 2 ^ 64" and "(n + 2 ^ 63) mod 2 ^ 64 < 2 ^ 64"
    by simp_all
  then show ?thesis
    by (simp add: in_int64_def wrap64_def minInt64_def maxInt64_def)
qed

text \<open>
  A \<open>time.Time\<close> is an instant in nanoseconds counted from Go's zero time, so \<open>IsZero\<close> is
  equality with 0. \<open>Sub\<close> saturates at the range of a duration; \<open>Add\<close> moves the instant.
\<close>

type_synonym gotime = int
type_synonym duration = int

definition timeSub :: "gotime \<Rightarrow> gotime \<Rightarrow> duration" where
  "timeSub a b = max minInt64 (min maxInt64 (a - b))"

definition timeAdd :: "gotime \<Rightarrow> duration \<Rightarrow> gotime" where
  "timeAdd t d = t + d"

abbreviation (input) timeIsZero :: "gotime \<Rightarrow> bool" where
  "timeIsZero t \<equiv> t = 0"

definition second :: duration where "second = 1000000000"
definition minute :: duration where "minute = 60 * second"

lemma second_pos [simp]: "0 < second"
  by (simp add: second_def)

lemma timeSub_gt:
  assumes "in_int64 d" and "d < maxInt64"
  shows "timeSub a b > d \<longleftrightarrow> a - b > d"
  using assms by (auto simp: timeSub_def in_int64_def minInt64_def maxInt64_def)

section \<open>Lists\<close>

lemma nth_update_if: "xs[i := x] ! j = (if i = j \<and> i < length xs then x else xs ! j)"
  by (cases "i < length xs") (auto simp: list_update_beyond)

lemma length_filter_update:
  "l < length xs \<Longrightarrow>
    length (filter P (xs[l := y])) + (if P (xs ! l) then 1 else 0) = length (filter P xs) + (if P y then 1 else 0)"
proof (induction xs arbitrary: l)
  case (Cons x xs)
  then show ?case
    by (cases l) auto
qed simp

lemma distinct_singleton: "distinct xs \<Longrightarrow> set xs = {x} \<Longrightarrow> xs = [x]"
  by (cases xs; cases "tl xs") auto

definition appendUnique :: "'a list \<Rightarrow> 'a \<Rightarrow> 'a list" where
  "appendUnique xs x = (if x \<in> set xs then xs else xs @ [x])"

lemma set_appendUnique [simp]: "set (appendUnique xs x) = insert x (set xs)"
  by (auto simp: appendUnique_def)

lemma distinct_appendUnique [intro]: "distinct xs \<Longrightarrow> distinct (appendUnique xs x)"
  by (simp add: appendUnique_def)

lemma sort_key_cong_mset:
  assumes "mset xs = mset ys" and "inj_on f (set xs)"
  shows "sort_key f xs = sort_key f ys"
  using assms by (metis mset_sort sorted_sort_key sort_key_inj_key_eq)

end
