(* ===== verification/Go_Strings.thy ===== *)
theory Go_Strings
  imports Go_Prelude
begin

text \<open>
  The functions of Go's packages \<open>strings\<close> and \<open>strconv\<close> the program calls, over byte
  strings. Case mapping and white space are those of ASCII: \<open>strings.ToLower\<close> and
  \<open>strings.TrimSpace\<close> also know non-ASCII letters and spaces, which are left unchanged here.
  The order \<open><\<close> on strings is the bytewise lexicographic order of Go.
\<close>

section \<open>Package strings\<close>

definition is_space :: "char \<Rightarrow> bool" where
  "is_space c \<longleftrightarrow> of_char c \<in> {9, 10, 11, 12, 13, 32 :: nat}"

definition lower_char :: "char \<Rightarrow> char" where
  "lower_char c = (if 65 \<le> (of_char c :: nat) \<and> (of_char c :: nat) \<le> 90
     then char_of ((of_char c :: nat) + 32) else c)"

definition ToLower :: "string \<Rightarrow> string" where
  "ToLower s = map lower_char s"

definition TrimSpace :: "string \<Rightarrow> string" where
  "TrimSpace s = rev (dropWhile is_space (rev (dropWhile is_space s)))"

definition TrimPrefix :: "string \<Rightarrow> string \<Rightarrow> string" where
  "TrimPrefix s p = (if prefix p s then drop (length p) s else s)"

definition TrimSuffix :: "string \<Rightarrow> string \<Rightarrow> string" where
  "TrimSuffix s p = (if suffix p s then take (length s - length p) s else s)"

text \<open>\<open>strings.Contains(s, t)\<close>, \<open>HasPrefix(s, p)\<close> and \<open>HasSuffix(s, p)\<close>.\<close>

definition Contains :: "string \<Rightarrow> string \<Rightarrow> bool" where
  "Contains s t \<longleftrightarrow> sublist t s"

definition HasPrefix :: "string \<Rightarrow> string \<Rightarrow> bool" where
  "HasPrefix s p \<longleftrightarrow> prefix p s"

definition HasSuffix :: "string \<Rightarrow> string \<Rightarrow> bool" where
  "HasSuffix s p \<longleftrightarrow> suffix p s"

definition EqualFold :: "string \<Rightarrow> string \<Rightarrow> bool" where
  "EqualFold s t \<longleftrightarrow> ToLower s = ToLower t"

fun IndexByte :: "string \<Rightarrow> char \<Rightarrow> int" where
  "IndexByte [] c = - 1"
| "IndexByte (x # xs) c =
     (if x = c then 0 else if IndexByte xs c < 0 then - 1 else IndexByte xs c + 1)"

fun LastIndexByte :: "string \<Rightarrow> char \<Rightarrow> int" where
  "LastIndexByte [] c = - 1"
| "LastIndexByte (x # xs) c =
     (if LastIndexByte xs c \<ge> 0 then LastIndexByte xs c + 1 else if x = c then 0 else - 1)"

text \<open>\<open>strings.Split(s, sep)\<close> for a separator of one byte.\<close>

fun Split :: "string \<Rightarrow> char \<Rightarrow> string list" where
  "Split [] c = [[]]"
| "Split (x # xs) c = (if x = c then [] # Split xs c else (x # hd (Split xs c)) # tl (Split xs c))"

fun Join :: "string list \<Rightarrow> string \<Rightarrow> string" where
  "Join [] sep = []"
| "Join [s] sep = s"
| "Join (s # t # ss) sep = s @ sep @ Join (t # ss) sep"

lemma ToLower_Nil [simp]: "ToLower [] = []"
  by (simp add: ToLower_def)

lemma ToLower_Cons: "ToLower (c # s) = lower_char c # ToLower s"
  by (simp add: ToLower_def)

lemma ToLower_append: "ToLower (s @ t) = ToLower s @ ToLower t"
  by (simp add: ToLower_def)

lemma length_ToLower [simp]: "length (ToLower s) = length s"
  by (simp add: ToLower_def)

lemma ToLower_eq_Nil [simp]: "ToLower s = [] \<longleftrightarrow> s = []"
  by (simp add: ToLower_def)

lemma lower_char_idem [simp]: "lower_char (lower_char c) = lower_char c"
  by (auto simp: lower_char_def)

lemma ToLower_idem [simp]: "ToLower (ToLower s) = ToLower s"
  by (simp add: ToLower_def)

lemma is_space_lower_char [simp]: "is_space (lower_char c) = is_space c"
  by (auto simp: lower_char_def is_space_def)

lemma dropWhile_ToLower: "dropWhile is_space (ToLower s) = ToLower (dropWhile is_space s)"
  by (induction s) (auto simp: ToLower_def)

lemma rev_ToLower: "rev (ToLower s) = ToLower (rev s)"
  by (simp add: ToLower_def rev_map)

lemma TrimSpace_ToLower: "TrimSpace (ToLower s) = ToLower (TrimSpace s)"
  by (simp add: TrimSpace_def dropWhile_ToLower rev_ToLower)

lemma TrimSpace_Nil [simp]: "TrimSpace [] = []"
  by (simp add: TrimSpace_def)

lemma TrimSpace_ends:
  assumes "TrimSpace s \<noteq> []"
  shows "\<not> is_space (hd (TrimSpace s))" and "\<not> is_space (last (TrimSpace s))"
proof -
  let ?d = "dropWhile is_space s"
  have ne: "dropWhile is_space (rev ?d) \<noteq> []"
    using assms by (simp add: TrimSpace_def)
  then show "\<not> is_space (last (TrimSpace s))"
    by (simp add: TrimSpace_def last_rev hd_dropWhile)
  obtain us where us: "rev ?d = us @ dropWhile is_space (rev ?d)"
    by (metis takeWhile_dropWhile_id)
  then have "?d = TrimSpace s @ rev us"
    unfolding TrimSpace_def by (metis rev_append rev_rev_ident)
  then have "hd (TrimSpace s) = hd ?d" and "?d \<noteq> []"
    using assms by auto
  then show "\<not> is_space (hd (TrimSpace s))"
    by (simp add: hd_dropWhile)
qed

lemma TrimSpace_id:
  assumes "s \<noteq> []" and "\<not> is_space (hd s)" and "\<not> is_space (last s)"
  shows "TrimSpace s = s"
proof -
  have "dropWhile is_space s = s"
    using assms by (cases s) auto
  moreover have "dropWhile is_space (rev s) = rev s"
    using assms by (cases "rev s") (auto simp: last_rev simp flip: hd_rev)
  ultimately show ?thesis
    by (simp add: TrimSpace_def)
qed

lemma TrimSpace_idem [simp]: "TrimSpace (TrimSpace s) = TrimSpace s"
  by (cases "TrimSpace s = []") (simp_all add: TrimSpace_id TrimSpace_ends)

lemma IndexByte_range: "- 1 \<le> IndexByte s c \<and> IndexByte s c < int (length s)"
  by (induction s) auto

lemma IndexByte_neg: "IndexByte s c < 0 \<longleftrightarrow> c \<notin> set s"
  by (induction s) auto

lemma take_IndexByte:
  "IndexByte s c \<ge> 0 \<Longrightarrow> take (nat (IndexByte s c)) s = takeWhile (\<lambda>x. x \<noteq> c) s"
proof (induction s)
  case (Cons x xs)
  then show ?case
    by (auto simp: nat_add_distrib split: if_splits)
qed simp

lemma drop_IndexByte:
  "IndexByte s c \<ge> 0 \<Longrightarrow> drop (nat (IndexByte s c + 1)) s = tl (dropWhile (\<lambda>x. x \<noteq> c) s)"
proof (induction s)
  case (Cons x xs)
  then show ?case
    by (auto simp: nat_add_distrib split: if_splits)
qed simp

lemma Split_ne [simp]: "Split s c \<noteq> []"
  by (induction s) auto

lemma Join_Split: "Join (Split s c) [c] = s"
proof (induction s)
  case (Cons x xs)
  obtain y ys where "Split xs c = y # ys"
    by (cases "Split xs c") auto
  with Cons show ?case
    by (cases ys) auto
qed simp

lemma Split_no_sep: "t \<in> set (Split s c) \<Longrightarrow> c \<notin> set t"
proof (induction s arbitrary: t)
  case (Cons x xs)
  obtain y ys where "Split xs c = y # ys"
    by (cases "Split xs c") auto
  with Cons show ?case
    by (auto split: if_splits)
qed simp

lemma Split_single: "c \<notin> set s \<Longrightarrow> Split s c = [s]"
  by (induction s) auto

lemma Split_append_sep: "c \<notin> set s \<Longrightarrow> Split (s @ c # t) c = s # Split t c"
  by (induction s) auto

section \<open>Package strconv\<close>

definition is_digit :: "char \<Rightarrow> bool" where
  "is_digit c \<longleftrightarrow> 48 \<le> (of_char c :: nat) \<and> (of_char c :: nat) \<le> 57"

definition digit_val :: "char \<Rightarrow> nat" where
  "digit_val c = of_char c - 48"

definition digit_char :: "nat \<Rightarrow> char" where
  "digit_char d = char_of (48 + d)"

datatype num_error = ErrSyntax | ErrRange

text \<open>\<open>strconv.ParseUint(s, 10, 64)\<close> after its check for the empty string.\<close>

fun parseUint :: "nat \<Rightarrow> string \<Rightarrow> num_error + nat" where
  "parseUint n [] = Inr n"
| "parseUint n (c # cs) =
     (if \<not> is_digit c then Inl ErrSyntax
      else if n * 10 + digit_val c \<ge> 2 ^ 64 then Inl ErrRange
      else parseUint (n * 10 + digit_val c) cs)"

text \<open>
  \<open>strconv.Atoi\<close>: the value and whether the error is nil. On a range error the value is the
  nearest 64-bit integer, on a syntax error it is 0.
\<close>

definition Atoi :: "string \<Rightarrow> int \<times> bool" where
  "Atoi s =
    (let neg = (s \<noteq> [] \<and> hd s = CHR ''-'');
         body = (if s \<noteq> [] \<and> (hd s = CHR ''-'' \<or> hd s = CHR ''+'') then tl s else s)
     in if body = [] then (0, False)
        else case parseUint 0 body of
          Inl ErrSyntax \<Rightarrow> (0, False)
        | Inl ErrRange \<Rightarrow> (if neg then minInt64 else maxInt64, False)
        | Inr n \<Rightarrow>
            if \<not> neg \<and> int n > maxInt64 then (maxInt64, False)
            else if neg \<and> int n > 2 ^ 63 then (minInt64, False)
            else (if neg then - int n else int n, True))"

text \<open>\<open>strconv.Itoa\<close>, and \<open>fmt\<close>'s \<open>%d\<close>, of a natural number and of an integer.\<close>

fun showNat :: "nat \<Rightarrow> string" where
  "showNat n = (if n < 10 then [digit_char n] else showNat (n div 10) @ [digit_char (n mod 10)])"

declare showNat.simps [simp del]

definition Itoa :: "int \<Rightarrow> string" where
  "Itoa n = (if n < 0 then CHR ''-'' # showNat (nat (- n)) else showNat (nat n))"

lemma digit_char_inv [simp]:
  assumes "d < 10"
  shows "is_digit (digit_char d)" and "digit_val (digit_char d) = d"
  using assms by (auto simp: is_digit_def digit_val_def digit_char_def)

lemma parseUint_snoc:
  "parseUint n (s @ [c]) =
    (case parseUint n s of Inl e \<Rightarrow> Inl e | Inr m \<Rightarrow> parseUint m [c])"
  by (induction n s rule: parseUint.induct) auto

lemma parseUint_showNat: "n < 2 ^ 64 \<Longrightarrow> parseUint 0 (showNat n) = Inr n"
proof (induction n rule: showNat.induct)
  case (1 n)
  show ?case
  proof (cases "n < 10")
    case True
    then show ?thesis
      by (subst showNat.simps) simp
  next
    case False
    with 1 have "parseUint 0 (showNat (n div 10)) = Inr (n div 10)"
      by simp
    moreover have "n div 10 * 10 + n mod 10 = n"
      by simp
    ultimately show ?thesis
      using False 1(2) by (subst showNat.simps) (simp add: parseUint_snoc)
  qed
qed

lemma digit_char_inj: "d < 10 \<Longrightarrow> e < 10 \<Longrightarrow> digit_char d = digit_char e \<longleftrightarrow> d = e"
  by (metis digit_char_inv(2))

lemma showNat_ne [simp]: "showNat n \<noteq> []"
  by (subst showNat.simps) simp

lemma showNat_inj: "showNat m = showNat n \<longleftrightarrow> m = n"
proof
  show "showNat m = showNat n \<Longrightarrow> m = n"
  proof (induction m arbitrary: n rule: showNat.induct)
    case (1 m)
    have "n < 10 \<longleftrightarrow> m < 10"
      using 1(2) by (metis append_self_conv2 append1_eq_conv showNat.simps showNat_ne)
    then show ?case
      using 1 showNat.simps [of m] showNat.simps [of n]
      by (cases "m < 10") (auto simp: digit_char_inj, metis div_mult_mod_eq)
  qed
qed simp

lemma showNat_digits: "c \<in> set (showNat n) \<Longrightarrow> is_digit c"
proof (induction n rule: showNat.induct)
  case (1 n)
  then show ?case
    using showNat.simps [of n] by (cases "n < 10") auto
qed

lemma Atoi_digits:
  assumes "s \<noteq> []" and "\<forall>c \<in> set s. is_digit c"
  shows "0 \<le> fst (Atoi s) \<and> fst (Atoi s) \<le> maxInt64"
proof -
  have "hd s \<noteq> CHR ''-''"
    using assms by (cases s) (auto simp: is_digit_def)
  then show ?thesis
    by (auto simp: Atoi_def maxInt64_def Let_def split: sum.splits num_error.splits)
qed

text \<open>The decimal print of a non-negative 64-bit integer parses back to it.\<close>

lemma Atoi_Itoa:
  assumes "0 \<le> n" and "n \<le> maxInt64"
  shows "Atoi (Itoa n) = (n, True)"
proof -
  have "hd (showNat (nat n)) \<noteq> CHR ''-''" and "hd (showNat (nat n)) \<noteq> CHR ''+''"
    using showNat_digits [OF hd_in_set [OF showNat_ne [of "nat n"]]] by (auto simp: is_digit_def)
  moreover have "parseUint 0 (showNat (nat n)) = Inr (nat n)"
    using assms by (intro parseUint_showNat) (simp add: maxInt64_def)
  ultimately show ?thesis
    using assms by (simp add: Atoi_def Itoa_def maxInt64_def)
qed

end
