(* ===== verification/Semver.thy ===== *)
theory Semver
  imports Go_Strings "HOL-Library.Product_Lexorder"
begin

text \<open>
  Semantic version comparison, \<open>internal/version/version.go\<close>. \<open>Compare\<close> is translated with
  its 64-bit subtractions; the reference it is proved equal to is the lexicographic order of a key,
  which makes it a total preorder on the strings that parse.
\<close>

section \<open>The program\<close>

record semver =
  sv_major :: int
  sv_minor :: int
  sv_patch :: int
  sv_pre :: "string list"

definition sgn_go :: "int \<Rightarrow> int" where
  "sgn_go n = (if n < 0 then - 1 else if n > 0 then 1 else 0)"

definition parseNumber :: "string \<Rightarrow> int \<times> bool" where
  "parseNumber s =
    (if s = [] then (0, False)
     else if \<exists>c \<in> set s. \<not> is_digit c then (0, False)
     else Atoi s)"

definition numericIdentifier :: "string \<Rightarrow> int \<times> bool" where
  "numericIdentifier s = parseNumber s"

definition parse_core :: "string \<Rightarrow> string \<Rightarrow> semver option" where
  "parse_core core pre =
    (case Split core (CHR ''.'') of
       [p0, p1, p2] \<Rightarrow>
         (case parseNumber p0 of (_, False) \<Rightarrow> None | (major, True) \<Rightarrow>
         (case parseNumber p1 of (_, False) \<Rightarrow> None | (minor, True) \<Rightarrow>
         (case parseNumber p2 of (_, False) \<Rightarrow> None | (patch, True) \<Rightarrow>
           (let preParts = (if pre \<noteq> [] then Split pre (CHR ''.'') else [])
            in if [] \<in> set preParts then None
               else Some \<lparr>sv_major = major, sv_minor = minor, sv_patch = patch, sv_pre = preParts\<rparr>))))
     | _ \<Rightarrow> None)"

definition parse :: "string \<Rightarrow> semver option" where
  "parse str =
    (let s = TrimSpace str
     in if s = [] then None
        else
          let s = TrimPrefix s ''v'';
              plus = IndexByte s (CHR ''+'');
              s = (if plus \<ge> 0 then take (nat plus) s else s);
              dash = IndexByte s (CHR ''-'');
              pre = (if dash \<ge> 0 then drop (nat (dash + 1)) s else []);
              s = (if dash \<ge> 0 then take (nat dash) s else s)
          in parse_core s pre)"

text \<open>The loop of \<open>comparePrerelease\<close>: \<open>None\<close> when it runs to its limit.\<close>

fun prereleaseLoop :: "string list \<Rightarrow> string list \<Rightarrow> int option" where
  "prereleaseLoop (x # xs) (y # ys) =
    (let (ai, aNum) = numericIdentifier x; (bi, bNum) = numericIdentifier y
     in if aNum \<and> bNum \<and> ai \<noteq> bi then Some (sgn_go (wrap64 (ai - bi)))
        else if aNum \<and> \<not> bNum then Some (- 1)
        else if \<not> aNum \<and> bNum then Some 1
        else if \<not> aNum \<and> \<not> bNum \<and> x \<noteq> y then (if x < y then Some (- 1) else Some 1)
        else prereleaseLoop xs ys)"
| "prereleaseLoop _ _ = None"

definition comparePrerelease :: "string list \<Rightarrow> string list \<Rightarrow> int" where
  "comparePrerelease a b =
    (if a = [] \<and> b = [] then 0
     else if a = [] then 1
     else if b = [] then - 1
     else case prereleaseLoop a b of
       Some r \<Rightarrow> r
     | None \<Rightarrow> sgn_go (int (length a) - int (length b)))"

definition Compare :: "string \<Rightarrow> string \<Rightarrow> int \<times> bool" where
  "Compare a b =
    (case parse a of None \<Rightarrow> (0, False) | Some av \<Rightarrow>
     (case parse b of None \<Rightarrow> (0, False) | Some bv \<Rightarrow>
       if sv_major av \<noteq> sv_major bv then (sgn_go (wrap64 (sv_major av - sv_major bv)), True)
       else if sv_minor av \<noteq> sv_minor bv then (sgn_go (wrap64 (sv_minor av - sv_minor bv)), True)
       else if sv_patch av \<noteq> sv_patch bv then (sgn_go (wrap64 (sv_patch av - sv_patch bv)), True)
       else (comparePrerelease (sv_pre av) (sv_pre bv), True)))"

section \<open>The reference order\<close>

text \<open>
  A pre-release identifier is ranked by its number, and above every number by its bytes when it
  is not one. A version is ranked by its three numbers; among equal ones a version without
  pre-release is above those with one, which are in the lexicographic order of their identifiers.
\<close>

definition ident_key :: "string \<Rightarrow> nat \<times> int \<times> string" where
  "ident_key s = (case parseNumber s of (n, True) \<Rightarrow> (0, n, []) | (_, False) \<Rightarrow> (1, 0, s))"

definition version_key :: "semver \<Rightarrow> int \<times> int \<times> int \<times> nat \<times> (nat \<times> int \<times> string) list" where
  "version_key v =
    (sv_major v, sv_minor v, sv_patch v, if sv_pre v = [] then 1 else 0, map ident_key (sv_pre v))"

definition three_way :: "'a::linorder \<Rightarrow> 'a \<Rightarrow> int" where
  "three_way x y = (if x < y then - 1 else if x = y then 0 else 1)"

section \<open>Lemmas\<close>

lemma parseNumber_nonneg: "parseNumber s = (n, ok) \<Longrightarrow> 0 \<le> n \<and> n \<le> maxInt64"
  using Atoi_digits [of s] by (auto simp: parseNumber_def maxInt64_def split: if_splits)

lemma sgn_wrap_sub:
  assumes "0 \<le> m \<and> m \<le> maxInt64" and "0 \<le> n \<and> n \<le> maxInt64"
  shows "sgn_go (wrap64 (m - n)) = three_way m n"
  using assms by (subst wrap64_id) (auto simp: in_int64_def minInt64_def maxInt64_def sgn_go_def three_way_def)

lemma three_way_pair:
  "three_way (a, b) (c, d) = (if a \<noteq> c then three_way a c else three_way b d)"
  by (auto simp: three_way_def)

lemma three_way_Cons:
  "three_way (x # xs) (y # ys) = (if x \<noteq> y then three_way x y else three_way xs ys)"
  by (auto simp: three_way_def)

lemma three_way_nat [simp]:
  "three_way (0 :: nat) 1 = - 1" "three_way (1 :: nat) 0 = 1"
  "three_way (0 :: nat) (Suc 0) = - 1" "three_way (Suc 0) 0 = 1"
  by (simp_all add: three_way_def)

lemma three_way_eq_0 [simp]: "three_way x y = 0 \<longleftrightarrow> x = y"
  by (simp add: three_way_def)

lemma three_way_swap: "three_way y x = - three_way x y"
  by (auto simp: three_way_def)

lemma three_way_le: "three_way x y \<le> 0 \<longleftrightarrow> x \<le> y"
  by (auto simp: three_way_def)

lemma prereleaseLoop_key:
  "(case prereleaseLoop a b of Some r \<Rightarrow> r | None \<Rightarrow> sgn_go (int (length a) - int (length b)))
     = three_way (map ident_key a) (map ident_key b)"
proof (induction a arbitrary: b)
  case Nil
  show ?case
    by (cases b) (simp_all add: three_way_def sgn_go_def)
next
  case (Cons x xs)
  show ?case
  proof (cases b)
    case Nil
    then show ?thesis
      by (simp add: three_way_def sgn_go_def)
  next
    case b: (Cons y ys)
    obtain ai an where x: "parseNumber x = (ai, an)" by fastforce
    obtain bi bn where y: "parseNumber y = (bi, bn)" by fastforce
    have s: "sgn_go (wrap64 (ai - bi)) = three_way ai bi"
      using parseNumber_nonneg [OF x] parseNumber_nonneg [OF y] by (rule sgn_wrap_sub)
    have kx: "ident_key x = (if an then (0, ai, []) else (1, 0, x))"
      and ky: "ident_key y = (if bn then (0, bi, []) else (1, 0, y))"
      by (simp_all add: ident_key_def x y)
    have "x = y \<Longrightarrow> ai = bi \<and> an = bn"
      using x y by simp
    then show ?thesis
      using Cons.IH [of ys] s unfolding b
      by (cases an; cases bn; cases "x = y"; cases "ai = bi")
        (simp_all add: numericIdentifier_def x y kx ky three_way_Cons three_way_pair
           three_way_def [of x y] cong: option.case_cong)
  qed
qed

lemma parse_core_range:
  assumes "parse_core c p = Some v"
  shows "0 \<le> sv_major v \<and> sv_major v \<le> maxInt64 \<and> 0 \<le> sv_minor v \<and> sv_minor v \<le> maxInt64
    \<and> 0 \<le> sv_patch v \<and> sv_patch v \<le> maxInt64"
  using assms parseNumber_nonneg
  by (fastforce simp: parse_core_def Let_def split: list.splits prod.splits bool.splits if_splits)

lemma parse_range:
  assumes "parse s = Some v"
  shows "0 \<le> sv_major v \<and> sv_major v \<le> maxInt64 \<and> 0 \<le> sv_minor v \<and> sv_minor v \<le> maxInt64
    \<and> 0 \<le> sv_patch v \<and> sv_patch v \<le> maxInt64"
  using assms parse_core_range by (fastforce simp: parse_def Let_def split: if_splits)

lemma comparePrerelease_key:
  "comparePrerelease a b =
     three_way (if a = [] then 1 else 0 :: nat, map ident_key a)
               (if b = [] then 1 else 0, map ident_key b)"
  using prereleaseLoop_key [of a b]
  by (cases "a = []"; cases "b = []") (simp_all add: comparePrerelease_def three_way_pair three_way_nat)

lemma Compare_key:
  "Compare a b =
    (case (parse a, parse b) of
       (Some av, Some bv) \<Rightarrow> (three_way (version_key av) (version_key bv), True)
     | _ \<Rightarrow> (0, False))"
proof (cases "parse a"; cases "parse b")
  fix av bv
  assume p: "parse a = Some av" "parse b = Some bv"
  note r = parse_range [OF p(1)] parse_range [OF p(2)]
  show ?thesis
    using r by (simp add: Compare_def p sgn_wrap_sub version_key_def three_way_pair comparePrerelease_key)
qed (auto simp: Compare_def)

section \<open>Properties\<close>

text \<open>A release version as the collectors report it, \<open>major.minor.patch\<close>, with an optional \<open>v\<close>.\<close>

definition release_string :: "bool \<Rightarrow> nat \<Rightarrow> nat \<Rightarrow> nat \<Rightarrow> string" where
  "release_string v a b c =
    (if v then ''v'' else []) @ showNat a @ CHR ''.'' # showNat b @ CHR ''.'' # showNat c"

lemma showNat_notin: "\<not> is_digit c \<Longrightarrow> c \<notin> set (showNat n)"
  using showNat_digits by blast

lemma non_digits [simp]:
  "\<not> is_digit (CHR ''.'')" "\<not> is_digit (CHR ''v'')" "\<not> is_digit (CHR ''+'')" "\<not> is_digit (CHR ''-'')"
  by (simp_all add: is_digit_def)

lemma digit_not_space: "is_digit c \<Longrightarrow> \<not> is_space c"
  by (auto simp: is_digit_def is_space_def)

lemma parseNumber_showNat: "int n \<le> maxInt64 \<Longrightarrow> parseNumber (showNat n) = (int n, True)"
  using Atoi_Itoa [of "int n"] showNat_digits [of _ n] by (auto simp: parseNumber_def Itoa_def)

lemma parse_release:
  assumes "int a \<le> maxInt64" and "int b \<le> maxInt64" and "int c \<le> maxInt64"
  shows "parse (release_string v a b c) =
    Some \<lparr>sv_major = int a, sv_minor = int b, sv_patch = int c, sv_pre = []\<rparr>"
proof -
  let ?core = "showNat a @ CHR ''.'' # showNat b @ CHR ''.'' # showNat c"
  have ha: "is_digit (hd (showNat a))" and lc: "is_digit (last (showNat c))"
    using showNat_digits [OF hd_in_set] showNat_digits [OF last_in_set] by simp_all
  then have "\<not> is_space (hd (release_string v a b c))" and "\<not> is_space (last (release_string v a b c))"
    using digit_not_space [OF ha] digit_not_space [OF lc]
    by (simp_all add: release_string_def is_space_def [of "CHR ''v''"])
  then have trim: "TrimSpace (release_string v a b c) = release_string v a b c"
    by (intro TrimSpace_id) (simp_all add: release_string_def)
  have pre: "TrimPrefix (release_string v a b c) ''v'' = ?core"
    using ha by (cases "showNat a") (auto simp: TrimPrefix_def release_string_def)
  have no: "IndexByte ?core (CHR ''+'') < 0" "IndexByte ?core (CHR ''-'') < 0"
    by (simp_all add: IndexByte_neg showNat_notin)
  have split: "Split ?core (CHR ''.'') = [showNat a, showNat b, showNat c]"
    by (simp add: Split_append_sep Split_single showNat_notin)
  have ne: "release_string v a b c \<noteq> []"
    by (simp add: release_string_def)
  show ?thesis
    using assms no by (simp add: parse_def parse_core_def trim ne pre split parseNumber_showNat)
qed

text \<open>
  C14: \<open>Compare\<close> is a total preorder on the version strings it accepts: it is reflexive, swapping the
  arguments negates the result, and at-most is transitive, also through its 64-bit subtractions.
\<close>

theorem Compare_preorder:
  assumes "snd (Compare a b)" and "snd (Compare b c)"
  shows "Compare a a = (0, True) \<and> Compare b a = (- fst (Compare a b), True) \<and> snd (Compare a c)
    \<and> (fst (Compare a b) \<le> 0 \<and> fst (Compare b c) \<le> 0 \<longrightarrow> fst (Compare a c) \<le> 0)
    \<and> (fst (Compare a b) = 0 \<longrightarrow> Compare a c = Compare b c)"
  using assms three_way_swap
  by (auto simp: Compare_key three_way_le split: option.splits intro: order.trans)

theorem Compare_preorder_witness:
  "Compare ''1.2.3-rc.1'' ''1.2.3-rc.1'' = (0, True) \<and> fst (Compare ''1.2.3-rc.1'' ''v1.10.0'') \<le> 0"
proof -
  have "snd (Compare ''1.2.3-rc.1'' ''1.2.3'')" and "snd (Compare ''1.2.3'' ''v1.10.0'')"
    and "fst (Compare ''1.2.3-rc.1'' ''1.2.3'') \<le> 0" and "fst (Compare ''1.2.3'' ''v1.10.0'') \<le> 0"
    by code_simp+
  then show ?thesis
    using Compare_preorder [of "''1.2.3-rc.1''" "''1.2.3''" "''v1.10.0''"] by blast
qed

text \<open>
  Release versions are compared numerically, component by component, with or without the leading
  \<open>v\<close>: \<open>1.10.0\<close> is above \<open>1.9.0\<close>.
\<close>

theorem Compare_release:
  assumes "int a \<le> maxInt64" "int b \<le> maxInt64" "int c \<le> maxInt64"
    and "int a' \<le> maxInt64" "int b' \<le> maxInt64" "int c' \<le> maxInt64"
  shows "Compare (release_string v a b c) (release_string v' a' b' c') =
    (three_way (a, b, c) (a', b', c'), True)"
  using assms by (simp add: Compare_key parse_release version_key_def three_way_pair)
    (auto simp: three_way_def)

theorem Compare_release_witness:
  "Compare (release_string True 1 10 0) (release_string False 1 9 0) = (1, True)"
  using Compare_release [of 1 10 0 1 9 0 True False] by (simp add: maxInt64_def three_way_def)

end
