(* ===== verification/Api_Response.thy ===== *)
theory Api_Response
  imports Go_Strings
begin

text \<open>
  What the HTTP handlers answer: a status code with either a payload or the JSON error map the
  helpers of \<open>internal/api\<close> write (\<open>router.go\<close>, \<open>audit_response.go\<close>, \<open>feature_gate.go\<close>).
\<close>

datatype 'a response = Reply nat 'a | Problem nat "(string \<times> string) list"

fun status_code :: "'a response \<Rightarrow> nat" where
  "status_code (Reply n _) = n"
| "status_code (Problem n _) = n"

definition respondError :: "nat \<Rightarrow> string \<Rightarrow> 'a response" where
  "respondError status msg = Problem status [(''error'', msg)]"

datatype sideEffectStatus = sideEffectApplied | sideEffectNone | sideEffectUnknown

fun sideEffectString :: "sideEffectStatus \<Rightarrow> string" where
  "sideEffectString sideEffectApplied = ''applied''"
| "sideEffectString sideEffectNone = ''none''"
| "sideEffectString sideEffectUnknown = ''unknown''"

definition respondAuditUnavailable :: "sideEffectStatus \<Rightarrow> 'a response" where
  "respondAuditUnavailable st =
    Problem 503 [(''error'', ''audit unavailable''), (''side_effect_status'', sideEffectString st)]"

text \<open>
  \<open>emitAudit\<close>: the audit sink is outside the repository, so its verdict is an argument;
  \<open>None\<close> lets the caller produce its normal response.
\<close>

definition emitAudit :: "bool \<Rightarrow> sideEffectStatus \<Rightarrow> 'a response option" where
  "emitAudit sink_ok st = (if sink_ok then None else Some (respondAuditUnavailable st))"

definition respondFeatureDisabled :: "string \<Rightarrow> 'a response" where
  "respondFeatureDisabled feature =
    Problem 403 [(''error'', ''feature disabled''), (''code'', ''feature_disabled''), (''feature'', feature)]"

lemma status_code_simps [simp]:
  "status_code (respondError n m) = n"
  "status_code (respondAuditUnavailable s) = 503"
  "status_code (respondFeatureDisabled f) = 403"
  by (simp_all add: respondError_def respondAuditUnavailable_def respondFeatureDisabled_def)

lemma problem_not_reply [simp]:
  "respondError n m \<noteq> Reply k x" "respondAuditUnavailable s \<noteq> Reply k x"
  "respondFeatureDisabled f \<noteq> Reply k x"
  by (simp_all add: respondError_def respondAuditUnavailable_def respondFeatureDisabled_def)

end
