(* ===== verification/Access_Control.thy ===== *)
theory Access_Control
  imports Api_Response
begin

text \<open>
  Who may do what: the permission matrix (\<open>internal/perm\<close>), the capability registry of the edition
  (\<open>pkg/capabilities/registry.go\<close>), token validation and the authentication middleware
  (\<open>internal/auth/auth.go\<close>), the two guards of the API (\<open>internal/api/middleware.go\<close>,
  \<open>feature_gate.go\<close>) and the table of protected routes of \<open>NewRouter\<close>. JWT parsing is a
  third-party library, so it is an argument of the functions that call it.
\<close>

section \<open>Permissions\<close>

record UserInfo =
  ui_UserID :: string
  ui_Email :: string
  ui_Groups :: "string list"

type_synonym Permission = string

definition PushConfig :: Permission where "PushConfig = ''workload:push_config''"
definition ReadConfigContent :: Permission where "ReadConfigContent = ''config:read_content''"
definition ValidateConfig :: Permission where "ValidateConfig = ''workload:validate_config''"
definition CreateConfigTpl :: Permission where "CreateConfigTpl = ''config:create''"
definition ResolveAlert :: Permission where "ResolveAlert = ''alert:resolve''"
definition ExportReports :: Permission where "ExportReports = ''reports:export''"
definition ArchiveWorkload :: Permission where "ArchiveWorkload = ''workload:archive''"
definition DeleteWorkload :: Permission where "DeleteWorkload = ''workload:delete''"
definition ViewAudit :: Permission where "ViewAudit = ''audit:view''"
definition ManageUsers :: Permission where "ManageUsers = ''users:manage''"
definition ManageSettings :: Permission where "ManageSettings = ''settings:manage''"

lemmas permission_defs = PushConfig_def ReadConfigContent_def ValidateConfig_def CreateConfigTpl_def
  ResolveAlert_def ExportReports_def ArchiveWorkload_def DeleteWorkload_def ViewAudit_def
  ManageUsers_def ManageSettings_def

definition matrix :: "(string, (Permission, bool) gomap) gomap" where
  "matrix =
    [(''viewer'', []),
     (''editor'',
       [(ReadConfigContent, True), (PushConfig, True), (ValidateConfig, True), (CreateConfigTpl, True),
        (ResolveAlert, True), (ExportReports, True), (ArchiveWorkload, True)]),
     (''administrator'',
       [(ReadConfigContent, True), (PushConfig, True), (ValidateConfig, True), (CreateConfigTpl, True),
        (ResolveAlert, True), (ExportReports, True), (ArchiveWorkload, True), (DeleteWorkload, True),
        (ViewAudit, True), (ManageUsers, True), (ManageSettings, True)])]"

text \<open>\<open>matrix[g][p]\<close>: a missing group is a nil map, a missing permission is false.\<close>

definition grants :: "string \<Rightarrow> Permission \<Rightarrow> bool" where
  "grants g p = (case mget matrix g of None \<Rightarrow> False | Some m \<Rightarrow> mget m p = Some True)"

fun hasAny :: "string list \<Rightarrow> Permission \<Rightarrow> bool" where
  "hasAny [] p = False"
| "hasAny (g # gs) p = (if grants g p then True else hasAny gs p)"

definition Has :: "UserInfo \<Rightarrow> Permission \<Rightarrow> bool" where
  "Has u p = hasAny (ui_Groups u) p"

section \<open>Capabilities\<close>

record Capability =
  cap_ID :: string
  cap_State :: string
  cap_ReasonCode :: string

record Registry =
  reg_entries :: "Capability list"
  reg_states :: "(string, string) gomap"

datatype capability_error =
    DuplicateCapability string
  | EnabledWithReason string
  | ReasonRequired string string
  | UnknownState string string
  | UnknownReason string string

definition capability_validate :: "Capability \<Rightarrow> capability_error option" where
  "capability_validate c =
    (if cap_State c = ''enabled'' then
       (if cap_ReasonCode c \<noteq> [] then Some (EnabledWithReason (cap_ID c)) else None)
     else if cap_State c = ''disabled'' \<or> cap_State c = ''read_only'' then
       (if cap_ReasonCode c = [] then Some (ReasonRequired (cap_ID c) (cap_State c))
        else if cap_ReasonCode c \<in> {''not_enabled'', ''prerequisite_unavailable'', ''read_only_mode''} then None
        else Some (UnknownReason (cap_ReasonCode c) (cap_ID c)))
     else Some (UnknownState (cap_State c) (cap_ID c)))"

definition registry_build :: "Capability list \<Rightarrow> Registry" where
  "registry_build entries =
    \<lparr>reg_entries = entries,
     reg_states = foldl (\<lambda>m c. mput (cap_ID c) (cap_State c) m) [] entries\<rparr>"

fun checkEntries :: "string list \<Rightarrow> Capability list \<Rightarrow> capability_error option" where
  "checkEntries seen [] = None"
| "checkEntries seen (c # cs) =
    (if cap_ID c \<in> set seen then Some (DuplicateCapability (cap_ID c))
     else case capability_validate c of
       Some e \<Rightarrow> Some e
     | None \<Rightarrow> checkEntries (cap_ID c # seen) cs)"

definition registry_New :: "Capability list \<Rightarrow> capability_error + Registry" where
  "registry_New entries =
    (case checkEntries [] entries of
       Some e \<Rightarrow> Inl e
     | None \<Rightarrow> Inr (registry_build (sort_key cap_ID entries)))"

definition FromFeatures :: "(string, bool) gomap \<Rightarrow> Registry" where
  "FromFeatures features =
    registry_build (sort_key cap_ID
      (map (\<lambda>(ident, enabled).
         if enabled then \<lparr>cap_ID = ident, cap_State = ''enabled'', cap_ReasonCode = []\<rparr>
         else \<lparr>cap_ID = ident, cap_State = ''disabled'', cap_ReasonCode = ''not_enabled''\<rparr>) features))"

definition registry_Enabled :: "Registry \<Rightarrow> string \<Rightarrow> bool" where
  "registry_Enabled r ident \<longleftrightarrow> mstr (reg_states r) ident = ''enabled''"

definition LegacyFeatures :: "Registry \<Rightarrow> (string, bool) gomap" where
  "LegacyFeatures r =
    foldl (\<lambda>m c. mput (cap_ID c) (cap_State c = ''enabled'') m) [] (reg_entries r)"

section \<open>Tokens and the authentication middleware\<close>

record claims =
  cl_UserID :: string
  cl_Email :: string
  cl_Groups :: "string list"
  cl_Role :: string

text \<open>
  The JWT parser gets the key function: given whether the signing method is an HMAC, it gives the
  secret or refuses. Its result is the claims and the \<open>Valid\<close> flag, or an error.
\<close>

type_synonym jwt_parser = "(bool \<Rightarrow> string option) \<Rightarrow> string \<Rightarrow> (claims \<times> bool) option"

definition legacyRoleToGroupName :: "string \<Rightarrow> string" where
  "legacyRoleToGroupName role = (if role = ''admin'' then ''administrator'' else role)"

definition ValidateToken :: "jwt_parser \<Rightarrow> string \<Rightarrow> string \<Rightarrow> UserInfo option" where
  "ValidateToken jwt secret tok =
    (case jwt (\<lambda>isHMAC. if isHMAC then Some secret else None) tok of
       None \<Rightarrow> None
     | Some (c, valid) \<Rightarrow>
         if \<not> valid then None
         else
           let groups = (if cl_Groups c = [] \<and> cl_Role c \<noteq> []
                         then [legacyRoleToGroupName (cl_Role c)] else cl_Groups c)
           in Some \<lparr>ui_UserID = cl_UserID c, ui_Email = cl_Email c, ui_Groups = groups\<rparr>)"

text \<open>A request: its \<open>Authorization\<close> header and its session cookie, when it has one.\<close>

record request =
  rq_Authorization :: string
  rq_Cookie :: "string option"

definition RequestToken :: "request \<Rightarrow> string option" where
  "RequestToken r =
    (let header = rq_Authorization r;
         tok = TrimSpace (TrimPrefix header ''Bearer '')
     in if HasPrefix header ''Bearer '' \<and> tok \<noteq> [] then Some tok
        else case rq_Cookie r of
          Some v \<Rightarrow> if TrimSpace v \<noteq> [] then Some v else None
        | None \<Rightarrow> None)"

text \<open>A handler is given the user of its context.\<close>

type_synonym 'a handler = "UserInfo option \<Rightarrow> 'a response"

definition auth_Middleware :: "jwt_parser \<Rightarrow> string \<Rightarrow> request \<Rightarrow> 'a handler \<Rightarrow> 'a response" where
  "auth_Middleware jwt secret r next =
    (case RequestToken r of
       None \<Rightarrow> respondError 401 ''Unauthorized''
     | Some tok \<Rightarrow>
         (case ValidateToken jwt secret tok of
            None \<Rightarrow> respondError 401 ''Unauthorized''
          | Some info \<Rightarrow> next (Some info)))"

section \<open>The guards of the API\<close>

record api =
  api_capabilities :: Registry
  api_licenseChecker :: "(string \<Rightarrow> bool) option"

definition featureEnabled :: "api option \<Rightarrow> string \<Rightarrow> bool" where
  "featureEnabled a feature =
    (case a of
       None \<Rightarrow> False
     | Some a \<Rightarrow>
         if feature = [] then False
         else if registry_Enabled (api_capabilities a) feature then True
         else (case api_licenseChecker a of None \<Rightarrow> False | Some lc \<Rightarrow> lc feature))"

definition RequireFeature :: "api option \<Rightarrow> string \<Rightarrow> 'a handler \<Rightarrow> 'a handler" where
  "RequireFeature a feature next =
    (\<lambda>info. if \<not> featureEnabled a feature then respondFeatureDisabled feature else next info)"

definition RequirePerm :: "Permission \<Rightarrow> 'a handler \<Rightarrow> 'a handler" where
  "RequirePerm p next =
    (\<lambda>info. case info of
       None \<Rightarrow> respondError 401 ''unauthorized''
     | Some u \<Rightarrow> if \<not> Has u p then respondError 403 ''forbidden'' else next info)"

section \<open>The protected routes\<close>

definition FeatureConfigSafetyApprovals :: string where
  "FeatureConfigSafetyApprovals = ''config_safety.approvals''"
definition FeatureConfigSafetyGuidedRollback :: string where
  "FeatureConfigSafetyGuidedRollback = ''config_safety.guided_rollback''"
definition FeatureConfigSafetyCanaryRollout :: string where
  "FeatureConfigSafetyCanaryRollout = ''config_safety.canary_rollout''"
definition FeatureConfigSafetyScopedPush :: string where
  "FeatureConfigSafetyScopedPush = ''config_safety.scoped_push''"
definition FeatureConfigSafetyDriftDashboard :: string where
  "FeatureConfigSafetyDriftDashboard = ''config_safety.drift_dashboard''"
definition FeatureConfigSafetyVersionIntelligence :: string where
  "FeatureConfigSafetyVersionIntelligence = ''config_safety.version_intelligence''"
definition FeatureConfigSafetyGitOpsExport :: string where
  "FeatureConfigSafetyGitOpsExport = ''config_safety.gitops_export''"
definition FeatureConfigSafetyPolicyPreview :: string where
  "FeatureConfigSafetyPolicyPreview = ''config_safety.policy_preview''"
definition FeatureReportsEvidencePack :: string where
  "FeatureReportsEvidencePack = ''reports.evidence_pack''"
definition FeatureAuditViewer :: string where
  "FeatureAuditViewer = ''audit.viewer''"

datatype http_method = GET | POST | PUT | DELETE

datatype route = route (rt_method: http_method) (rt_pattern: string) (rt_feature: "string option")
  (rt_perm: "Permission option") (rt_handler: string)

definition protected_routes :: "route list" where
  "protected_routes =
  [route GET ''/api/system/database'' None (Some ManageSettings) ''handleDatabaseStats'',
   route POST ''/api/v1/opamp/tokens'' None (Some ManageSettings) ''handleCreateOpAMPToken'',
   route GET ''/api/v1/opamp/tokens'' None (Some ManageSettings) ''handleListOpAMPTokens'',
   route POST ''/api/v1/opamp/tokens/{id}/revoke'' None (Some ManageSettings) ''handleRevokeOpAMPToken'',
   route GET ''/api/config-safety/drift'' (Some FeatureConfigSafetyDriftDashboard) None ''handleListConfigDrift'',
   route POST ''/api/reports/evidence-pack'' (Some FeatureReportsEvidencePack) (Some ExportReports) ''handlePreviewEvidencePack'',
   route POST ''/api/reports/evidence-pack/export'' (Some FeatureReportsEvidencePack) (Some ExportReports) ''handleExportEvidencePack'',
   route GET ''/api/reports/config-safety'' (Some FeatureReportsEvidencePack) (Some ExportReports) ''handleConfigSafetyReport'',
   route GET ''/api/workloads'' None None ''handleListWorkloads'',
   route GET ''/api/workloads/version-intelligence'' (Some FeatureConfigSafetyVersionIntelligence) None ''handleFleetVersionIntelligence'',
   route GET ''/api/workloads/{id}'' None None ''handleGetWorkload'',
   route GET ''/api/workloads/{id}/instances'' None None ''handleListWorkloadInstances'',
   route GET ''/api/workloads/{id}/topology'' None None ''handleGetWorkloadTopology'',
   route GET ''/api/workloads/{id}/events'' None None ''handleListWorkloadEvents'',
   route GET ''/api/workloads/{id}/events/stats'' None None ''handleWorkloadEventsStats'',
   route POST ''/api/workloads/{id}/config'' None (Some PushConfig) ''handlePushWorkloadConfig'',
   route GET ''/api/workloads/{id}/config/approvals'' (Some FeatureConfigSafetyApprovals) (Some PushConfig) ''handleListConfigApprovals'',
   route POST ''/api/workloads/{id}/config/approvals'' (Some FeatureConfigSafetyApprovals) (Some PushConfig) ''handleCreateOrUpdateConfigApproval'',
   route POST ''/api/workloads/{id}/config/approvals/{approval_id}/approve'' (Some FeatureConfigSafetyApprovals) (Some PushConfig) ''handleApproveConfigApproval'',
   route POST ''/api/workloads/{id}/config/approvals/{approval_id}/push'' (Some FeatureConfigSafetyApprovals) (Some PushConfig) ''handlePushConfigApproval'',
   route POST ''/api/workloads/{id}/config/plan'' (Some FeatureConfigSafetyPolicyPreview) (Some ValidateConfig) ''handlePlanWorkloadConfig'',
   route POST ''/api/workloads/{id}/config/plan/export'' (Some FeatureConfigSafetyPolicyPreview) (Some ValidateConfig) ''handleExportWorkloadConfigPlan'',
   route POST ''/api/workloads/{id}/config/validate'' None (Some ValidateConfig) ''handleValidateWorkloadConfig'',
   route POST ''/api/workloads/{id}/config/canary/validate'' (Some FeatureConfigSafetyCanaryRollout) (Some ValidateConfig) ''handleValidateCanary'',
   route POST ''/api/workloads/{id}/config/canary'' (Some FeatureConfigSafetyCanaryRollout) (Some PushConfig) ''handleStartCanary'',
   route GET ''/api/workloads/{id}/config/canary/{canary_id}'' (Some FeatureConfigSafetyCanaryRollout) None ''handleGetCanary'',
   route POST ''/api/workloads/{id}/config/canary/{canary_id}/promote'' (Some FeatureConfigSafetyCanaryRollout) (Some PushConfig) ''handlePromoteCanary'',
   route POST ''/api/workloads/{id}/config/canary/{canary_id}/abort'' (Some FeatureConfigSafetyCanaryRollout) (Some PushConfig) ''handleAbortCanary'',
   route POST ''/api/workloads/{id}/config/canary/{canary_id}/rollback'' (Some FeatureConfigSafetyCanaryRollout) (Some PushConfig) ''handleRollbackCanary'',
   route POST ''/api/workloads/{id}/rollback'' (Some FeatureConfigSafetyGuidedRollback) (Some PushConfig) ''handleRollbackWorkloadDefault'',
   route GET ''/api/workloads/{id}/configs'' None None ''handleGetWorkloadConfigHistory'',
   route GET ''/api/workloads/{id}/rollback/prepare'' (Some FeatureConfigSafetyGuidedRollback) (Some ReadConfigContent) ''handlePrepareRollback'',
   route GET ''/api/workloads/{id}/rollback/status'' (Some FeatureConfigSafetyGuidedRollback) None ''handleRollbackStatus'',
   route GET ''/api/workloads/{id}/configs/{hash}'' None (Some ReadConfigContent) ''handleGetWorkloadConfigByHash'',
   route GET ''/api/workloads/{id}/known-good'' (Some FeatureConfigSafetyGuidedRollback) None ''handleGetWorkloadKnownGood'',
   route POST ''/api/workloads/{id}/configs/{hash}/label'' None (Some PushConfig) ''handleSetWorkloadConfigLabel'',
   route POST ''/api/workloads/{id}/configs/{hash}/known-good'' (Some FeatureConfigSafetyGuidedRollback) (Some PushConfig) ''handleMarkWorkloadConfigKnownGood'',
   route DELETE ''/api/workloads/{id}/known-good'' (Some FeatureConfigSafetyGuidedRollback) (Some PushConfig) ''handleClearWorkloadKnownGood'',
   route POST ''/api/workloads/{id}/rollback'' (Some FeatureConfigSafetyGuidedRollback) (Some PushConfig) ''handleRollbackWorkloadDefault'',
   route POST ''/api/workloads/{id}/configs/{hash}/rollback'' (Some FeatureConfigSafetyGuidedRollback) (Some PushConfig) ''handleRollbackWorkloadConfig'',
   route POST ''/api/workloads/{id}/archive'' None (Some ArchiveWorkload) ''handleArchiveWorkload'',
   route DELETE ''/api/workloads/{id}'' None (Some DeleteWorkload) ''handleDeleteWorkload'',
   route GET ''/api/agents'' None None ''redirectAgentsToWorkloads'',
   route GET ''/api/agents/{id}'' None None ''redirectAgentsToWorkloads'',
   route GET ''/api/agents/{id}/configs'' None None ''redirectAgentsToWorkloads'',
   route POST ''/api/agents/{id}/config'' None None ''redirectAgentsToWorkloads'',
   route POST ''/api/agents/{id}/config/validate'' None None ''redirectAgentsToWorkloads'',
   route GET ''/api/configs'' None None ''handleListConfigs'',
   route POST ''/api/configs'' None (Some CreateConfigTpl) ''handleCreateConfig'',
   route POST ''/api/configs/diff'' None None ''handleDiffConfigs'',
   route POST ''/api/configs/migration-assistant/preview'' None (Some ValidateConfig) ''handlePreviewConfigMigration'',
   route POST ''/api/configs/import/git'' (Some FeatureConfigSafetyGitOpsExport) (Some CreateConfigTpl) ''handleImportConfigFromGit'',
   route POST ''/api/configs/{id}/export/git'' (Some FeatureConfigSafetyGitOpsExport) (Some PushConfig) ''handleExportConfigToGit'',
   route POST ''/api/configs/policy/preview'' (Some FeatureConfigSafetyPolicyPreview) (Some ValidateConfig) ''handlePreviewConfigPolicy'',
   route GET ''/api/configs/{id}'' None (Some ReadConfigContent) ''handleGetConfig'',
   route GET ''/api/alerts'' None None ''handleListAlerts'',
   route POST ''/api/alerts/{id}/resolve'' None (Some ResolveAlert) ''handleResolveAlert'',
   route GET ''/api/audit/events'' (Some FeatureAuditViewer) (Some ViewAudit) ''handleListAuditEvents'',
   route GET ''/api/audit/events.csv'' (Some FeatureAuditViewer) (Some ViewAudit) ''handleExportAuditEventsCSV'',
   route GET ''/api/pushes/activity'' None None ''handleListPushActivity'',
   route GET ''/api/push-groups'' None None ''handleListPushGroups'',
   route POST ''/api/pushes/preview'' (Some FeatureConfigSafetyScopedPush) (Some PushConfig) ''handlePreviewPush'',
   route GET ''/api/me'' None None ''handleGetMe'',
   route PUT ''/api/me/password'' None None ''handlePutPassword'',
   route PUT ''/api/me/preferences'' None None ''handlePutPreferences'']"

text \<open>
  What a request to a protected route goes through: the authentication middleware of the group, then
  the guards of \<open>r.With\<close> from left to right, then the handler.
\<close>

definition guarded :: "api option \<Rightarrow> route \<Rightarrow> 'a handler \<Rightarrow> 'a handler" where
  "guarded a rt h =
    (let h = (case rt_perm rt of None \<Rightarrow> h | Some p \<Rightarrow> RequirePerm p h)
     in case rt_feature rt of None \<Rightarrow> h | Some f \<Rightarrow> RequireFeature a f h)"

definition serve :: "jwt_parser \<Rightarrow> string \<Rightarrow> api option \<Rightarrow> request \<Rightarrow> route \<Rightarrow> 'a handler \<Rightarrow> 'a response" where
  "serve jwt secret a rq rt h = auth_Middleware jwt secret rq (guarded a rt h)"

section \<open>Lemmas\<close>

lemma hasAny_iff: "hasAny gs p \<longleftrightarrow> (\<exists>g \<in> set gs. grants g p)"
  by (induction gs) auto

lemma grants_role: "grants g p \<Longrightarrow> g = ''editor'' \<or> g = ''administrator''"
  by (auto simp: grants_def matrix_def mget_def split: if_splits)

lemma Has_role: "Has u p \<Longrightarrow> ''editor'' \<in> set (ui_Groups u) \<or> ''administrator'' \<in> set (ui_Groups u)"
  using grants_role by (auto simp: Has_def hasAny_iff)

lemma checkEntries_None:
  "checkEntries seen cs = None \<longleftrightarrow>
    distinct (map cap_ID cs) \<and> cap_ID ` set cs \<inter> set seen = {}
    \<and> (\<forall>c \<in> set cs. capability_validate c = None)"
  by (induction cs arbitrary: seen) (auto split: option.splits)

lemma registry_Enabled_build:
  assumes "distinct (map cap_ID cs)"
  shows "registry_Enabled (registry_build cs) k \<longleftrightarrow> (\<exists>c \<in> set cs. cap_ID c = k \<and> cap_State c = ''enabled'')"
proof -
  have "registry_Enabled (registry_build cs) k \<longleftrightarrow>
      mget (foldl (\<lambda>m c. mput (cap_ID c) (cap_State c) m) [] cs) k = Some ''enabled''"
    by (auto simp: registry_Enabled_def registry_build_def mstr_def split: option.splits)
  then show ?thesis
    by (simp add: mget_foldl_mput [OF assms])
qed

lemma distinct_map_sort_key: "distinct (map f (sort_key g xs)) \<longleftrightarrow> distinct (map f xs)"
  by (metis mset_map mset_sort mset_eq_imp_distinct_iff)

lemma LegacyFeatures_build:
  assumes "distinct (map cap_ID cs)"
  shows "mget (LegacyFeatures (registry_build cs)) k = Some b \<longleftrightarrow>
    (\<exists>c \<in> set cs. cap_ID c = k \<and> (cap_State c = ''enabled'') = b)"
  using mget_foldl_mput [OF assms, of "\<lambda>c. cap_State c = ''enabled''" k b]
  by (simp add: LegacyFeatures_def registry_build_def)

lemma guarded_Reply:
  "guarded a rt (\<lambda>_. Reply 200 x) (Some u) = Reply 200 x \<longleftrightarrow>
    (case rt_feature rt of None \<Rightarrow> True | Some f \<Rightarrow> featureEnabled a f) \<and>
    (case rt_perm rt of None \<Rightarrow> True | Some p \<Rightarrow> Has u p)"
  by (auto simp: guarded_def RequireFeature_def RequirePerm_def Let_def split: option.splits)

text \<open>
  The routes that write: all but those of a user's own account, the stateless comparison of two
  configurations and the redirects of the legacy paths name a permission.
\<close>

definition open_handlers :: "string list" where
  "open_handlers = [''handleDiffConfigs'', ''handlePutPassword'', ''handlePutPreferences'', ''redirectAgentsToWorkloads'']"

lemma writes_need_permission:
  "list_all (\<lambda>rt. rt_method rt = GET \<or> rt_handler rt \<in> set open_handlers \<or> rt_perm rt \<noteq> None) protected_routes"
  by (simp add: protected_routes_def open_handlers_def)

section \<open>Properties\<close>

text \<open>
  C1: a request reaches the handler of a protected route exactly when it carries a token that
  validates, the feature the route names is enabled by the edition or the licence, and one of the
  groups of the user grants the permission the route names.
\<close>

theorem serve_reaches_handler:
  "serve jwt secret a rq rt (\<lambda>_. Reply 200 x) = Reply 200 x \<longleftrightarrow>
    (\<exists>tok u. RequestToken rq = Some tok \<and> ValidateToken jwt secret tok = Some u
      \<and> (case rt_feature rt of None \<Rightarrow> True | Some f \<Rightarrow> featureEnabled a f)
      \<and> (case rt_perm rt of None \<Rightarrow> True | Some p \<Rightarrow> \<exists>g \<in> set (ui_Groups u). grants g p))"
  by (auto simp: serve_def auth_Middleware_def guarded_Reply Has_def hasAny_iff
      split: option.splits)

text \<open>
  C13: a user in neither the editor nor the administrator group is answered 403 by every protected
  route that writes, whatever the features and the handler, except for the user's own account,
  the comparison of two configurations and the redirects of legacy paths.
\<close>

theorem viewer_cannot_write:
  assumes "RequestToken rq = Some tok" and "ValidateToken jwt secret tok = Some u"
    and "''editor'' \<notin> set (ui_Groups u)" and "''administrator'' \<notin> set (ui_Groups u)"
    and "rt \<in> set protected_routes" and "rt_method rt \<noteq> GET" and "rt_handler rt \<notin> set open_handlers"
  shows "status_code (serve jwt secret a rq rt h) = 403"
proof -
  obtain p where "rt_perm rt = Some p"
    using writes_need_permission assms by (fastforce simp: list_all_iff)
  moreover have "\<not> Has u p"
    using Has_role assms by blast
  ultimately show ?thesis
    using assms by (cases "rt_feature rt")
      (simp_all add: serve_def auth_Middleware_def guarded_def RequirePerm_def RequireFeature_def Let_def)
qed

definition viewer_jwt :: jwt_parser where
  "viewer_jwt kf tok =
    (if kf True = Some ''s'' then Some (\<lparr>cl_UserID = ''u1'', cl_Email = ''v@x'', cl_Groups = [], cl_Role = ''viewer''\<rparr>, True)
     else None)"

theorem viewer_cannot_write_witness:
  "status_code (serve viewer_jwt ''s'' None \<lparr>rq_Authorization = ''Bearer t'', rq_Cookie = None\<rparr>
     (route DELETE ''/api/workloads/{id}'' None (Some DeleteWorkload) ''handleDeleteWorkload'')
     (\<lambda>_. Reply 200 ())) = 403"
proof (rule viewer_cannot_write)
  let ?rq = "\<lparr>rq_Authorization = ''Bearer t'', rq_Cookie = None\<rparr>"
  show "RequestToken ?rq = Some ''t''"
    by code_simp
  show "ValidateToken viewer_jwt ''s'' ''t'' = Some \<lparr>ui_UserID = ''u1'', ui_Email = ''v@x'', ui_Groups = [''viewer'']\<rparr>"
    by (simp add: ValidateToken_def viewer_jwt_def legacyRoleToGroupName_def)
qed (simp_all add: protected_routes_def open_handlers_def)

text \<open>
  The three roles are strictly ordered: an editor may do everything a viewer may and more, an
  administrator everything an editor may and more; and a group the matrix does not name grants nothing.
\<close>

theorem role_hierarchy:
  "{p. grants ''viewer'' p} \<subset> {p. grants ''editor'' p} \<and>
   {p. grants ''editor'' p} \<subset> {p. grants ''administrator'' p} \<and>
   (\<Union>g \<in> - {''viewer'', ''editor'', ''administrator''}. {p. grants g p}) = {}"
proof -
  have "grants ''editor'' PushConfig" and "\<not> grants ''viewer'' PushConfig"
    and "grants ''administrator'' DeleteWorkload" and "\<not> grants ''editor'' DeleteWorkload"
    by code_simp+
  moreover have "\<not> grants ''viewer'' p" for p
    using grants_role by blast
  moreover have "grants ''editor'' p \<Longrightarrow> grants ''administrator'' p" for p
    by (auto simp: grants_def matrix_def mget_def split: if_splits)
  ultimately show ?thesis
    using grants_role by blast
qed

text \<open>
  A registry built from a list of capabilities is refused when an identifier repeats or an entry is
  malformed; otherwise its document lists exactly the entries, sorted by identifier, and a
  capability is enabled exactly when its entry says so, as in the legacy feature map.
\<close>

theorem registry_New_correct:
  "(\<exists>e. registry_New cs = Inl e) \<and> \<not> (distinct (map cap_ID cs) \<and> list_all (\<lambda>c. capability_validate c = None) cs)
   \<or> (\<exists>r. registry_New cs = Inr r \<and> distinct (map cap_ID cs) \<and> list_all (\<lambda>c. capability_validate c = None) cs
        \<and> mset (reg_entries r) = mset cs \<and> sorted (map cap_ID (reg_entries r))
        \<and> (\<forall>k. registry_Enabled r k \<longleftrightarrow> (\<exists>c \<in> set cs. cap_ID c = k \<and> cap_State c = ''enabled''))
        \<and> (\<forall>k. registry_Enabled r k \<longleftrightarrow> mget (LegacyFeatures r) k = Some True))"
proof (cases "checkEntries [] cs")
  case None
  let ?r = "registry_build (sort_key cap_ID cs)"
  have d: "distinct (map cap_ID cs)" and v: "list_all (\<lambda>c. capability_validate c = None) cs"
    using None by (simp_all add: checkEntries_None list_all_iff)
  have d': "distinct (map cap_ID (sort_key cap_ID cs))"
    using d by (simp add: distinct_map_sort_key)
  have "registry_New cs = Inr ?r"
    using None by (simp add: registry_New_def)
  moreover have "reg_entries ?r = sort_key cap_ID cs"
    by (simp add: registry_build_def)
  moreover have "registry_Enabled ?r k \<longleftrightarrow> (\<exists>c \<in> set cs. cap_ID c = k \<and> cap_State c = ''enabled'')" for k
    using registry_Enabled_build [OF d'] by simp
  moreover have "mget (LegacyFeatures ?r) k = Some True \<longleftrightarrow> (\<exists>c \<in> set cs. cap_ID c = k \<and> cap_State c = ''enabled'')" for k
    using LegacyFeatures_build [OF d'] by simp
  ultimately show ?thesis
    using d v by simp
next
  case (Some e)
  then have "\<not> (distinct (map cap_ID cs) \<and> list_all (\<lambda>c. capability_validate c = None) cs)"
    using checkEntries_None [of "[]" cs] by (auto simp: list_all_iff)
  with Some show ?thesis
    by (simp add: registry_New_def)
qed

end
