(* ===== verification/Login_Limiter.thy ===== *)
theory Login_Limiter
  imports Access_Control
begin

text \<open>
  Login: the failure windows per client address (\<open>internal/api/login_ratelimit.go\<close>) and the
  handler that consults them (\<open>handleLogin\<close> in \<open>internal/api/authhandler.go\<close>). The user table,
  bcrypt, the token mint and the audit sink are arguments of the handler. The limiter's mutex makes
  each of its operations atomic, so a run is a sequence of whole attempts.
\<close>

section \<open>The limiter\<close>

definition loginRateLimitMaxFailures :: int where "loginRateLimitMaxFailures = 5"
definition loginRateLimitWindow :: duration where "loginRateLimitWindow = minute"

record loginFailureWindow =
  lw_count :: int
  lw_first :: gotime

type_synonym loginRateLimiter = "(string, loginFailureWindow) gomap"


definition limiter_allow :: "gotime \<Rightarrow> string \<Rightarrow> loginRateLimiter \<Rightarrow> bool \<times> loginRateLimiter" where
  "limiter_allow now key l =
    (if key = [] then (True, l)
     else case mget l key of
       None \<Rightarrow> (True, l)
     | Some w \<Rightarrow>
         if timeSub now (lw_first w) > loginRateLimitWindow then (True, mdel key l)
         else (lw_count w < loginRateLimitMaxFailures, l))"

definition limiter_recordFailure :: "gotime \<Rightarrow> string \<Rightarrow> loginRateLimiter \<Rightarrow> loginRateLimiter" where
  "limiter_recordFailure now key l =
    (if key = [] then l
     else case mget l key of
       None \<Rightarrow> mput key \<lparr>lw_count = 1, lw_first = now\<rparr> l
     | Some w \<Rightarrow>
         if timeSub now (lw_first w) > loginRateLimitWindow
         then mput key \<lparr>lw_count = 1, lw_first = now\<rparr> l
         else mput key (w\<lparr>lw_count := wrap64 (lw_count w + 1)\<rparr>) l)"

definition limiter_reset :: "string \<Rightarrow> loginRateLimiter \<Rightarrow> loginRateLimiter" where
  "limiter_reset key l = (if key = [] then l else mdel key l)"



section \<open>The handler\<close>








section \<open>Lemmas\<close>











section \<open>Properties\<close>






text \<open>
  Once more than a minute has passed since the first counted failure, or after a successful login,
  the address is admitted again, and no operation on one address changes the window of another.
\<close>

theorem limiter_releases:
  assumes "key \<noteq> []"
  shows "(mget l key = Some w \<and> timeSub now (lw_first w) > loginRateLimitWindow
      \<longrightarrow> fst (limiter_allow now key l) \<and> mget (snd (limiter_allow now key l)) key = None)
    \<and> fst (limiter_allow now key (limiter_reset key l))
    \<and> (other \<noteq> key \<longrightarrow> mget (snd (limiter_allow now key l)) other = mget l other
        \<and> mget (limiter_recordFailure now key l) other = mget l other
        \<and> mget (limiter_reset key l) other = mget l other)"
  using assms
  by (auto simp: limiter_allow_def limiter_reset_def limiter_recordFailure_def map_simps split: option.splits)

theorem limiter_releases_witness:
  "fst (limiter_allow (minute + 2) ''h'' [(''h'', \<lparr>lw_count = 9, lw_first = 1\<rparr>)])"
  using limiter_releases [of "''h''" "[(''h'', \<lparr>lw_count = 9, lw_first = 1\<rparr>)]" "\<lparr>lw_count = 9, lw_first = 1\<rparr>" "minute + 2" "''g''"]
  by (simp add: mget_def timeSub_def loginRateLimitWindow_def minute_def second_def minInt64_def maxInt64_def)

end
