(* ===== verification/Go_Time.thy ===== *)
theory Go_Time
  imports Go_Strings
begin

text \<open>
  The layouts of Go's \<open>time.Format\<close> the program uses, for instants in UTC. The calendar is the
  proleptic Gregorian one; the day number 0 is 1 January of year 1, Go's zero time.
\<close>

text \<open>Year, month and day of a day number, counted in eras of 400 years that start in March.\<close>

definition civil_of_days :: "int \<Rightarrow> int \<times> int \<times> int" where
  "civil_of_days d =
    (let z = d + 306;
         era = z div 146097;
         doe = z mod 146097;
         yoe = (doe - doe div 1460 + doe div 36524 - doe div 146096) div 365;
         doy = doe - (365 * yoe + yoe div 4 - yoe div 100);
         mp = (5 * doy + 2) div 153;
         day = doy - (153 * mp + 2) div 5 + 1;
         month = (if mp < 10 then mp + 3 else mp - 9);
         year = yoe + era * 400 + (if month \<le> 2 then 1 else 0)
     in (year, month, day))"

definition zeroPad :: "nat \<Rightarrow> string \<Rightarrow> string" where
  "zeroPad w s = replicate (w - length s) (CHR ''0'') @ s"

definition padNat :: "nat \<Rightarrow> int \<Rightarrow> string" where
  "padNat w n = zeroPad w (showNat (nat n))"

definition padInt :: "nat \<Rightarrow> int \<Rightarrow> string" where
  "padInt w n = (if n < 0 then CHR ''-'' # padNat w (- n) else padNat w n)"

definition formatDate :: "gotime \<Rightarrow> string" where
  "formatDate t =
    (case civil_of_days (t div (86400 * second)) of
       (y, m, d) \<Rightarrow> padInt 4 y @ ''-'' @ padNat 2 m @ ''-'' @ padNat 2 d)"

text \<open>The fraction of \<open>.999999999\<close>: nine digits without trailing zeros, or nothing.\<close>

definition formatFraction :: "int \<Rightarrow> string" where
  "formatFraction ns =
    (let ds = rev (dropWhile (\<lambda>c. c = CHR ''0'') (rev (padNat 9 ns)))
     in if ds = [] then [] else CHR ''.'' # ds)"

definition formatRFC3339Nano :: "gotime \<Rightarrow> string" where
  "formatRFC3339Nano t =
    (let s = t div second mod 86400
     in formatDate t @ ''T'' @ padNat 2 (s div 3600) @ '':'' @ padNat 2 (s div 60 mod 60) @ '':'' @
        padNat 2 (s mod 60) @ formatFraction (t mod second) @ ''Z'')"

lemma formatRFC3339Nano_test:
  "formatRFC3339Nano 0 = ''0001-01-01T00:00:00Z''"
  "formatRFC3339Nano (63844790399 * second + 1500) = ''2024-02-29T07:59:59.0000015Z''"
  by code_simp+

text \<open>
  \<open>Duration.String\<close>, as the verb \<open>%s\<close> prints it. The micro sign is the two bytes of its UTF-8
  encoding.
\<close>

definition fmtFrac :: "nat \<Rightarrow> int \<Rightarrow> string" where
  "fmtFrac w v =
    (let ds = rev (dropWhile (\<lambda>c. c = CHR ''0'') (rev (padNat w v)))
     in if ds = [] then [] else CHR ''.'' # ds)"

definition durationUnsigned :: "int \<Rightarrow> string" where
  "durationUnsigned u =
    (if u = 0 then ''0s''
     else if u < 1000 then padNat 0 u @ ''ns''
     else if u < 1000000 then padNat 0 (u div 1000) @ fmtFrac 3 (u mod 1000) @ [CHR 0xC2, CHR 0xB5, CHR ''s'']
     else if u < second then padNat 0 (u div 1000000) @ fmtFrac 6 (u mod 1000000) @ ''ms''
     else
       let secs = u div second; mins = secs div 60; hours = mins div 60
       in (if hours = 0 then [] else padNat 0 hours @ ''h'') @
          (if mins = 0 then [] else padNat 0 (mins mod 60) @ ''m'') @
          padNat 0 (secs mod 60) @ fmtFrac 9 (u mod second) @ ''s'')"

definition durationString :: "duration \<Rightarrow> string" where
  "durationString d = (if d < 0 then CHR ''-'' # durationUnsigned (- d) else durationUnsigned d)"

lemma durationString_test:
  "durationString (5 * minute) = ''5m0s''"
  "durationString (3661 * second + 500000000) = ''1h1m1.5s''"
  "durationString (- 1500000) = ''-1.5ms''"
  by code_simp+

end
