(* ===== verification/Push_Status.thy ===== *)
theory Push_Status
  imports Go_Time "HOL-Library.Product_Lexorder"
begin

text \<open>
  The derived state of a configuration push, \<open>pkg/models/push_status.go\<close>: normalisation of the
  stored status, per-instance counters, the 30 second timeout overlay, the timeline, the grouping
  of errors and the redaction of agent-provided messages.
\<close>

section \<open>Data\<close>

record WorkloadConfigTimelineEntry =
  te_State :: string
  te_At :: gotime
  te_Message :: string
  te_Terminal :: bool
  te_TimedOut :: bool

record WorkloadConfigInstanceStatus =
  is_InstanceUID :: string
  is_PodName :: string
  is_Node :: string
  is_Required :: bool
  is_Status :: string
  is_ConfigHash :: string
  is_UpdatedAt :: gotime
  is_ErrorCause :: string
  is_ErrorMessage :: string
  is_TimedOut :: bool

record WorkloadConfigErrorGroup =
  eg_Cause :: string
  eg_Title :: string
  eg_Severity :: string
  eg_Count :: int
  eg_AffectedInstances :: "string list"
  eg_FirstSeenAt :: gotime
  eg_LastSeenAt :: gotime
  eg_SampleMessage :: string
  eg_SamplePath :: string
  eg_ConfigHash :: string
  eg_Retryable :: bool

record WorkloadConfig =
  wc_WorkloadID :: string
  wc_ConfigID :: string
  wc_ConfigHash :: string
  wc_AppliedAt :: gotime
  wc_Status :: string
  wc_ErrorMessage :: string
  wc_PushedBy :: string
  wc_Content :: string
  wc_Label :: "string option"
  wc_PushID :: string
  wc_SubmittedAt :: gotime
  wc_SentAt :: "gotime option"
  wc_UpdatedAt :: gotime
  wc_OpAMPStatusTimeoutAt :: "gotime option"
  wc_TimedOutWaiting :: bool
  wc_TimeoutMessage :: string
  wc_RollbackOfPushID :: string
  wc_Timeline :: "WorkloadConfigTimelineEntry list"
  wc_InstanceStatuses :: "WorkloadConfigInstanceStatus list"
  wc_TargetCount :: int
  wc_AppliedCount :: int
  wc_FailedCount :: int
  wc_PendingCount :: int
  wc_TimedOutCount :: int
  wc_NoStatusCount :: int
  wc_ErrorGroups :: "WorkloadConfigErrorGroup list"
  wc_IsCurrent :: bool
  wc_IsPrevious :: bool
  wc_IsLastKnownGood :: bool
  wc_IsFailedCandidate :: bool
  wc_ContentAvailable :: bool

definition PushStatusSubmitted :: string where "PushStatusSubmitted = ''submitted''"
definition PushStatusSent :: string where "PushStatusSent = ''sent''"
definition PushStatusApplying :: string where "PushStatusApplying = ''applying''"
definition PushStatusApplied :: string where "PushStatusApplied = ''applied''"
definition PushStatusFailed :: string where "PushStatusFailed = ''failed''"
definition PushStatusRollbackStarted :: string where "PushStatusRollbackStarted = ''rollback_started''"
definition PushStatusRollbackApplied :: string where "PushStatusRollbackApplied = ''rollback_applied''"
definition PushStatusRollbackFailed :: string where "PushStatusRollbackFailed = ''rollback_failed''"
definition InstanceStatusNoStatus :: string where "InstanceStatusNoStatus = ''no_status''"
definition OpAMPStatusTimeoutMessage :: string where "OpAMPStatusTimeoutMessage = ''No OpAMP status after 30s''"

lemmas push_status_defs = PushStatusSubmitted_def PushStatusSent_def PushStatusApplying_def
  PushStatusApplied_def PushStatusFailed_def PushStatusRollbackStarted_def PushStatusRollbackApplied_def
  PushStatusRollbackFailed_def InstanceStatusNoStatus_def

section \<open>Status names\<close>

definition canonicalPushStatus :: "string \<Rightarrow> string" where
  "canonicalPushStatus status =
    (if ToLower (TrimSpace status) = [] \<or> ToLower (TrimSpace status) = ''pending'' then PushStatusSubmitted
     else ToLower status)"

definition canonicalInstanceStatus :: "string \<Rightarrow> string" where
  "canonicalInstanceStatus status =
    (let c = canonicalPushStatus status in
     if c = PushStatusSubmitted \<or> c = PushStatusSent then PushStatusSent
     else if c = PushStatusApplying \<or> c = PushStatusApplied \<or> c = PushStatusFailed then c
     else InstanceStatusNoStatus)"

definition isTerminalPushStatus :: "string \<Rightarrow> bool" where
  "isTerminalPushStatus status =
    (status = PushStatusApplied \<or> status = PushStatusFailed \<or> status = PushStatusRollbackApplied
     \<or> status = PushStatusRollbackFailed)"

section \<open>Error messages\<close>

definition normalizeRemoteConfigErrorCause :: "string \<Rightarrow> string \<Rightarrow> string" where
  "normalizeRemoteConfigErrorCause cause0 msg =
    (let cause = TrimSpace (ToLower cause0); m = ToLower msg in
     if cause \<noteq> [] then cause
     else if Contains m ''unknown receiver'' \<or> Contains m ''unknown exporter'' \<or> Contains m ''unknown processor''
       \<or> Contains m ''invalid pipeline'' \<or> Contains m ''invalid component'' then ''collector_validation''
     else if Contains m ''not connected'' \<or> Contains m ''connection lost'' \<or> Contains m ''send'' then ''opamp_send_failed''
     else if Contains m ''timeout'' \<or> Contains m ''timed out'' then ''apply_timeout''
     else if Contains m ''capability'' then ''capability_mismatch''
     else if Contains m ''permission'' \<or> Contains m ''policy'' \<or> Contains m ''refus'' then ''permission_or_policy''
     else if Contains m ''rollback'' \<and> Contains m ''unavailable'' then ''rollback_unavailable''
     else ''unknown'')"

definition remoteConfigErrorTitle :: "string \<Rightarrow> string" where
  "remoteConfigErrorTitle cause =
    (if cause = ''collector_validation'' then ''Collector rejected the config''
     else if cause = ''opamp_send_failed'' then ''OpAMP send failed''
     else if cause = ''apply_timeout'' then ''Config apply timed out''
     else if cause = ''capability_mismatch'' then ''Remote config capability mismatch''
     else if cause = ''permission_or_policy'' then ''Agent policy rejected the config''
     else if cause = ''rollback_unavailable'' then ''Rollback unavailable''
     else ''Remote config error'')"

definition remoteConfigErrorSeverity :: "string \<Rightarrow> string" where
  "remoteConfigErrorSeverity cause =
    (if cause = ''rollback_unavailable'' \<or> cause = ''unknown'' then ''medium'' else ''high'')"

definition remoteConfigErrorRetryable :: "string \<Rightarrow> bool" where
  "remoteConfigErrorRetryable cause =
    (cause \<noteq> ''permission_or_policy'' \<and> cause \<noteq> ''capability_mismatch'' \<and> cause \<noteq> ''rollback_unavailable'')"

definition severityRank :: "string \<Rightarrow> nat" where
  "severityRank sev = (if sev = ''high'' then 0 else 1)"

definition error_causes :: "string list" where
  "error_causes = [''collector_validation'', ''opamp_send_failed'', ''apply_timeout'', ''capability_mismatch'',
     ''permission_or_policy'', ''rollback_unavailable'', ''unknown'']"

definition SanitizeRemoteConfigErrorMessage :: "string \<Rightarrow> string" where
  "SanitizeRemoteConfigErrorMessage raw =
    (let msg = TrimSpace raw in
     if msg = [] then []
     else if msg = ''Remote config error details redacted'' then msg
     else if msg = OpAMPStatusTimeoutMessage then msg
     else if list_ex (\<lambda>cause. msg = remoteConfigErrorTitle cause) error_causes then msg
     else
       let cause = normalizeRemoteConfigErrorCause [] msg;
           summary = (if cause = ''unknown'' then ''Remote config error details redacted''
                      else remoteConfigErrorTitle cause)
       in if length summary > 96 then take 96 summary else summary)"

definition SanitizeRemoteConfigErrors :: "WorkloadConfig \<Rightarrow> WorkloadConfig" where
  "SanitizeRemoteConfigErrors wc =
    wc\<lparr>wc_ErrorMessage := SanitizeRemoteConfigErrorMessage (wc_ErrorMessage wc),
       wc_InstanceStatuses := map (\<lambda>i. i\<lparr>is_ErrorMessage := SanitizeRemoteConfigErrorMessage (is_ErrorMessage i)\<rparr>) (wc_InstanceStatuses wc),
       wc_ErrorGroups := map (\<lambda>g. g\<lparr>eg_SampleMessage := SanitizeRemoteConfigErrorMessage (eg_SampleMessage g)\<rparr>) (wc_ErrorGroups wc),
       wc_Timeline := map (\<lambda>t. t\<lparr>te_Message := SanitizeRemoteConfigErrorMessage (te_Message t)\<rparr>) (wc_Timeline wc)\<rparr>"

section \<open>Error groups\<close>

definition newErrorGroup :: "string \<Rightarrow> string \<Rightarrow> WorkloadConfigErrorGroup" where
  "newErrorGroup configID cause =
    \<lparr>eg_Cause = cause, eg_Title = remoteConfigErrorTitle cause, eg_Severity = remoteConfigErrorSeverity cause,
     eg_Count = 0, eg_AffectedInstances = [], eg_FirstSeenAt = 0, eg_LastSeenAt = 0, eg_SampleMessage = [],
     eg_SamplePath = [], eg_ConfigHash = configID, eg_Retryable = remoteConfigErrorRetryable cause\<rparr>"

definition errorGroup_update :: "string \<Rightarrow> string \<Rightarrow> gotime \<Rightarrow> WorkloadConfigErrorGroup \<Rightarrow> WorkloadConfigErrorGroup" where
  "errorGroup_update inst msg at g =
    g\<lparr>eg_Count := eg_Count g + 1,
      eg_AffectedInstances := (if inst \<noteq> [] then eg_AffectedInstances g @ [inst] else eg_AffectedInstances g),
      eg_SampleMessage := (if eg_SampleMessage g = [] then SanitizeRemoteConfigErrorMessage msg else eg_SampleMessage g),
      eg_FirstSeenAt := (if \<not> timeIsZero at \<and> (timeIsZero (eg_FirstSeenAt g) \<or> at < eg_FirstSeenAt g) then at else eg_FirstSeenAt g),
      eg_LastSeenAt := (if \<not> timeIsZero at \<and> (timeIsZero (eg_LastSeenAt g) \<or> at > eg_LastSeenAt g) then at else eg_LastSeenAt g)\<rparr>"

type_synonym error_groups = "(string, WorkloadConfigErrorGroup) gomap"

definition errorGroups_add :: "string \<Rightarrow> string \<Rightarrow> string \<Rightarrow> string \<Rightarrow> gotime \<Rightarrow> error_groups \<Rightarrow> error_groups" where
  "errorGroups_add configID cause0 inst msg at groups =
    (let cause = normalizeRemoteConfigErrorCause cause0 msg;
         g = (case mget groups cause of Some g \<Rightarrow> g | None \<Rightarrow> newErrorGroup configID cause)
     in mput cause (errorGroup_update inst msg at g) groups)"

definition reportsError :: "WorkloadConfigInstanceStatus \<Rightarrow> bool" where
  "reportsError i \<longleftrightarrow> is_Status i = PushStatusFailed \<or> is_ErrorCause i \<noteq> [] \<or> is_ErrorMessage i \<noteq> []"

definition collectErrorGroups :: "WorkloadConfig \<Rightarrow> error_groups" where
  "collectErrorGroups wc =
    (let groups = foldl (\<lambda>gs i. if reportsError i
                       then errorGroups_add (wc_ConfigID wc) (is_ErrorCause i) (is_InstanceUID i) (is_ErrorMessage i) (is_UpdatedAt i) gs
                       else gs) [] (wc_InstanceStatuses wc)
     in if wc_ErrorMessage wc \<noteq> [] \<and> mlen groups = 0
        then errorGroups_add (wc_ConfigID wc) [] [] (wc_ErrorMessage wc) (wc_AppliedAt wc) groups
        else groups)"

definition errorGroup_key :: "WorkloadConfigErrorGroup \<Rightarrow> nat \<times> int \<times> string" where
  "errorGroup_key g = (severityRank (eg_Severity g), - eg_Count g, eg_Cause g)"

text \<open>The loop over the map and the stable sort that follows it.\<close>

definition sortErrorGroups :: "error_groups \<Rightarrow> WorkloadConfigErrorGroup list" where
  "sortErrorGroups groups =
    sort_key errorGroup_key
      (map (\<lambda>(_, g). g\<lparr>eg_AffectedInstances := sort (eg_AffectedInstances g)\<rparr>) groups)"

definition buildWorkloadConfigErrorGroups :: "WorkloadConfig \<Rightarrow> WorkloadConfigErrorGroup list" where
  "buildWorkloadConfigErrorGroups wc = sortErrorGroups (collectErrorGroups wc)"

section \<open>Timeline\<close>

definition timelineEntry :: "string \<Rightarrow> gotime \<Rightarrow> string \<Rightarrow> bool \<Rightarrow> WorkloadConfigTimelineEntry list" where
  "timelineEntry state at msg timedOut =
    (if timeIsZero at then []
     else [\<lparr>te_State = state, te_At = at, te_Message = msg, te_Terminal = isTerminalPushStatus state, te_TimedOut = timedOut\<rparr>])"

definition buildTimeline :: "WorkloadConfig \<Rightarrow> WorkloadConfigTimelineEntry list" where
  "buildTimeline wc =
    sort_key te_At
      (timelineEntry PushStatusSubmitted (wc_SubmittedAt wc) [] False
       @ (case wc_SentAt wc of None \<Rightarrow> [] | Some t \<Rightarrow> timelineEntry PushStatusSent t [] False)
       @ (case wc_OpAMPStatusTimeoutAt wc of
            Some t \<Rightarrow>
              if wc_TimedOutWaiting wc
              then timelineEntry (if wc_TimedOutCount wc > 0 then InstanceStatusNoStatus else wc_Status wc) t OpAMPStatusTimeoutMessage True
              else []
          | None \<Rightarrow> [])
       @ concat (map (\<lambda>i. if timeIsZero (is_UpdatedAt i) \<or> is_Status i = PushStatusSent \<or> is_Status i = InstanceStatusNoStatus then []
                      else timelineEntry (is_Status i) (is_UpdatedAt i) (is_ErrorMessage i) False) (wc_InstanceStatuses wc)))"

section \<open>Hydration\<close>

text \<open>One iteration of the loop of \<open>HydratePushStatus\<close>: the rewritten instance \<dots>\<close>

definition hydrateInstance :: "string \<Rightarrow> gotime option \<Rightarrow> gotime \<Rightarrow> WorkloadConfigInstanceStatus \<Rightarrow> WorkloadConfigInstanceStatus" where
  "hydrateInstance configID timeoutAt now i =
    (let st = canonicalInstanceStatus (is_Status i);
         i = i\<lparr>is_Status := st, is_TimedOut := False\<rparr>;
         i = (if is_ConfigHash i = [] then i\<lparr>is_ConfigHash := configID\<rparr> else i);
         i = (if is_ErrorMessage i \<noteq> [] then
                (let i = (if is_ErrorCause i = []
                          then i\<lparr>is_ErrorCause := normalizeRemoteConfigErrorCause [] (is_ErrorMessage i)\<rparr> else i)
                 in i\<lparr>is_ErrorMessage := SanitizeRemoteConfigErrorMessage (is_ErrorMessage i)\<rparr>)
              else i)
     in if (case timeoutAt of None \<Rightarrow> False | Some t \<Rightarrow> \<not> now < t) \<and> is_Required i
           \<and> (st = PushStatusSent \<or> st = InstanceStatusNoStatus)
        then i\<lparr>is_Status := InstanceStatusNoStatus, is_TimedOut := True, is_ErrorCause := ''apply_timeout'',
               is_ErrorMessage := OpAMPStatusTimeoutMessage\<rparr>
        else i)"

record push_counts =
  pc_applied :: int
  pc_failed :: int
  pc_pending :: int
  pc_timedOut :: int
  pc_noStatus :: int
  pc_hasRemoteStatus :: bool
  pc_hasApplyingOrApplied :: bool
  pc_allApplied :: bool

text \<open>\<open>\<dots>\<close> and its effect on the counters and flags.\<close>

definition countInstance :: "push_counts \<Rightarrow> WorkloadConfigInstanceStatus \<Rightarrow> push_counts" where
  "countInstance c i =
    (let c = (if is_TimedOut i then c\<lparr>pc_timedOut := pc_timedOut c + 1\<rparr> else c); st = is_Status i in
     if st = PushStatusApplied then
       c\<lparr>pc_applied := pc_applied c + 1, pc_hasRemoteStatus := True, pc_hasApplyingOrApplied := True\<rparr>
     else if st = PushStatusApplying then
       c\<lparr>pc_pending := pc_pending c + 1, pc_allApplied := False, pc_hasRemoteStatus := True, pc_hasApplyingOrApplied := True\<rparr>
     else if st = PushStatusFailed then
       c\<lparr>pc_failed := pc_failed c + 1, pc_allApplied := False, pc_hasRemoteStatus := True\<rparr>
     else
       c\<lparr>pc_noStatus := (if st = InstanceStatusNoStatus then pc_noStatus c + 1 else pc_noStatus c),
         pc_pending := pc_pending c + 1, pc_allApplied := False\<rparr>)"

definition countInstances :: "WorkloadConfigInstanceStatus list \<Rightarrow> push_counts" where
  "countInstances is =
    foldl countInstance
      \<lparr>pc_applied = 0, pc_failed = 0, pc_pending = 0, pc_timedOut = 0, pc_noStatus = 0,
       pc_hasRemoteStatus = False, pc_hasApplyingOrApplied = False, pc_allApplied = is \<noteq> []\<rparr> is"

definition derivedStatus :: "push_counts \<Rightarrow> int \<Rightarrow> gotime option \<Rightarrow> string \<Rightarrow> string" where
  "derivedStatus c target sentAt status =
    (if target > 0 then
       (if pc_failed c > 0 then PushStatusFailed
        else if pc_allApplied c then PushStatusApplied
        else if pc_hasApplyingOrApplied c then PushStatusApplying
        else if sentAt \<noteq> None then PushStatusSent
        else status)
     else status)"

text \<open>The first part: identifiers, the canonical status and the timeout.\<close>

definition hydrateHeader :: "WorkloadConfig \<Rightarrow> WorkloadConfig" where
  "hydrateHeader wc =
    (let submittedAt = (if timeIsZero (wc_SubmittedAt wc) then wc_AppliedAt wc else wc_SubmittedAt wc)
     in wc\<lparr>wc_ConfigHash := (if wc_ConfigHash wc = [] then wc_ConfigID wc else wc_ConfigHash wc),
           wc_Status := canonicalPushStatus (wc_Status wc),
           wc_SubmittedAt := submittedAt,
           wc_PushID :=
             (if wc_PushID wc = [] \<and> \<not> timeIsZero submittedAt
              then wc_WorkloadID wc @ '':'' @ wc_ConfigID wc @ '':'' @ formatRFC3339Nano submittedAt
              else wc_PushID wc),
           wc_OpAMPStatusTimeoutAt :=
             (if wc_OpAMPStatusTimeoutAt wc = None \<and> \<not> timeIsZero submittedAt
              then Some (timeAdd submittedAt (30 * second))
              else wc_OpAMPStatusTimeoutAt wc)\<rparr>)"

text \<open>The second part: instances, counters, the derived status and the timeout overlay.\<close>

definition hydrateCounts :: "gotime \<Rightarrow> WorkloadConfig \<Rightarrow> WorkloadConfig" where
  "hydrateCounts now wc =
    (let is = map (hydrateInstance (wc_ConfigID wc) (wc_OpAMPStatusTimeoutAt wc) now) (wc_InstanceStatuses wc);
         c = countInstances is;
         wc = wc\<lparr>wc_TargetCount := int (length (wc_InstanceStatuses wc)),
                 wc_ErrorMessage := SanitizeRemoteConfigErrorMessage (wc_ErrorMessage wc),
                 wc_InstanceStatuses := is,
                 wc_AppliedCount := pc_applied c, wc_FailedCount := pc_failed c, wc_PendingCount := pc_pending c,
                 wc_TimedOutCount := pc_timedOut c, wc_NoStatusCount := pc_noStatus c\<rparr>;
         wc = wc\<lparr>wc_Status := derivedStatus c (wc_TargetCount wc) (wc_SentAt wc) (wc_Status wc)\<rparr>;
         late = (wc_TimedOutCount wc > 0 \<or>
                 ((case wc_OpAMPStatusTimeoutAt wc of None \<Rightarrow> False | Some t \<Rightarrow> \<not> now < t)
                  \<and> \<not> pc_hasRemoteStatus c \<and> \<not> isTerminalPushStatus (wc_Status wc)))
     in wc\<lparr>wc_TimedOutWaiting := late, wc_TimeoutMessage := (if late then OpAMPStatusTimeoutMessage else [])\<rparr>)"

text \<open>\<open>clock\<close> is what \<open>time.Now()\<close> gives when the caller passes the zero time.\<close>

definition HydratePushStatus :: "gotime \<Rightarrow> gotime \<Rightarrow> WorkloadConfig \<Rightarrow> WorkloadConfig" where
  "HydratePushStatus clock now0 wc =
    (let now = (if timeIsZero now0 then clock else now0);
         wc = hydrateCounts now (hydrateHeader wc);
         wc = wc\<lparr>wc_Timeline := buildTimeline wc\<rparr>
     in wc\<lparr>wc_ErrorGroups := buildWorkloadConfigErrorGroups wc\<rparr>)"

section \<open>Lemmas\<close>

subsection \<open>Messages\<close>

text \<open>The only texts that leave the redaction.\<close>

definition safe_messages :: "string list" where
  "safe_messages = [] # ''Remote config error details redacted'' # OpAMPStatusTimeoutMessage
     # map remoteConfigErrorTitle error_causes"

lemma safe_members [simp]: "[] \<in> set safe_messages" "OpAMPStatusTimeoutMessage \<in> set safe_messages"
  by (simp_all add: safe_messages_def)

lemma normalize_known: "normalizeRemoteConfigErrorCause [] msg \<in> set error_causes"
  by (simp add: normalizeRemoteConfigErrorCause_def error_causes_def Let_def)

lemma title_short: "length (remoteConfigErrorTitle c) \<le> 96"
  by (simp add: remoteConfigErrorTitle_def)

lemma Sanitize_safe: "SanitizeRemoteConfigErrorMessage m \<in> set safe_messages"
proof -
  have "remoteConfigErrorTitle (normalizeRemoteConfigErrorCause [] (TrimSpace m)) \<in> set (map remoteConfigErrorTitle error_causes)"
    using normalize_known by auto
  then show ?thesis
    using title_short [THEN leD]
    by (auto simp: SanitizeRemoteConfigErrorMessage_def safe_messages_def Let_def list_ex_iff)
qed

lemma safe_trimmed: "m \<in> set safe_messages \<Longrightarrow> TrimSpace m = m"
proof -
  have "list_all (\<lambda>m. TrimSpace m = m) safe_messages"
    by code_simp
  then show "m \<in> set safe_messages \<Longrightarrow> TrimSpace m = m"
    by (auto simp: list_all_iff)
qed

lemma Sanitize_fix: "m \<in> set safe_messages \<Longrightarrow> SanitizeRemoteConfigErrorMessage m = m"
  using safe_trimmed [of m]
  by (auto simp: SanitizeRemoteConfigErrorMessage_def safe_messages_def list_ex_iff)

lemma Sanitize_idem [simp]:
  "SanitizeRemoteConfigErrorMessage (SanitizeRemoteConfigErrorMessage m) = SanitizeRemoteConfigErrorMessage m"
  by (rule Sanitize_fix [OF Sanitize_safe])

lemma Sanitize_Nil [simp]: "SanitizeRemoteConfigErrorMessage [] = []"
  by (simp add: SanitizeRemoteConfigErrorMessage_def)

lemma Sanitize_timeout [simp]: "SanitizeRemoteConfigErrorMessage OpAMPStatusTimeoutMessage = OpAMPStatusTimeoutMessage"
  by (rule Sanitize_fix) (simp add: safe_messages_def)

subsection \<open>Statuses and counters\<close>

lemma canonicalPushStatus_idem [simp]: "canonicalPushStatus (canonicalPushStatus s) = canonicalPushStatus s"
proof -
  have "canonicalPushStatus ''submitted'' = ''submitted''"
    by code_simp
  then show ?thesis
    by (cases "ToLower (TrimSpace s) = [] \<or> ToLower (TrimSpace s) = ''pending''")
      (auto simp: canonicalPushStatus_def [of s] PushStatusSubmitted_def TrimSpace_ToLower
         canonicalPushStatus_def [of "ToLower s"])
qed

lemma canonicalPushStatus_names:
  "canonicalPushStatus PushStatusSent = PushStatusSent" "canonicalPushStatus PushStatusApplying = PushStatusApplying"
  "canonicalPushStatus PushStatusApplied = PushStatusApplied" "canonicalPushStatus PushStatusFailed = PushStatusFailed"
  "canonicalPushStatus InstanceStatusNoStatus = InstanceStatusNoStatus"
  by code_simp+

lemma canonicalInstanceStatus_range:
  "canonicalInstanceStatus s \<in> {PushStatusSent, PushStatusApplying, PushStatusApplied, PushStatusFailed, InstanceStatusNoStatus}"
  by (simp add: canonicalInstanceStatus_def Let_def)

lemma canonicalInstanceStatus_fix:
  "canonicalInstanceStatus PushStatusSent = PushStatusSent" "canonicalInstanceStatus PushStatusApplying = PushStatusApplying"
  "canonicalInstanceStatus PushStatusApplied = PushStatusApplied" "canonicalInstanceStatus PushStatusFailed = PushStatusFailed"
  "canonicalInstanceStatus InstanceStatusNoStatus = InstanceStatusNoStatus"
  by code_simp+

lemma canonicalInstanceStatus_idem [simp]:
  "canonicalInstanceStatus (canonicalInstanceStatus s) = canonicalInstanceStatus s"
  using canonicalInstanceStatus_range [of s] by (auto simp: canonicalInstanceStatus_fix)

lemma foldl_countInstance:
  fixes c :: push_counts
  defines "r is \<equiv> foldl countInstance c is"
  shows "pc_applied (r is) = pc_applied c + int (length (filter (\<lambda>i. is_Status i = PushStatusApplied) is))"
    and "pc_failed (r is) = pc_failed c + int (length (filter (\<lambda>i. is_Status i = PushStatusFailed) is))"
    and "pc_pending (r is) = pc_pending c
      + int (length (filter (\<lambda>i. is_Status i \<noteq> PushStatusApplied \<and> is_Status i \<noteq> PushStatusFailed) is))"
    and "pc_timedOut (r is) = pc_timedOut c + int (length (filter is_TimedOut is))"
    and "pc_noStatus (r is) = pc_noStatus c + int (length (filter (\<lambda>i. is_Status i = InstanceStatusNoStatus) is))"
    and "pc_hasApplyingOrApplied (r is) \<longleftrightarrow> pc_hasApplyingOrApplied c
      \<or> (\<exists>i \<in> set is. is_Status i = PushStatusApplying \<or> is_Status i = PushStatusApplied)"
    and "pc_allApplied (r is) \<longleftrightarrow> pc_allApplied c \<and> (\<forall>i \<in> set is. is_Status i = PushStatusApplied)"
  unfolding r_def
  by (induction "is" rule: rev_induct) (auto simp: countInstance_def Let_def push_status_defs)

lemma countInstances_simps:
  "pc_applied (countInstances is) = int (length (filter (\<lambda>i. is_Status i = PushStatusApplied) is))"
  "pc_failed (countInstances is) = int (length (filter (\<lambda>i. is_Status i = PushStatusFailed) is))"
  "pc_pending (countInstances is) =
     int (length (filter (\<lambda>i. is_Status i \<noteq> PushStatusApplied \<and> is_Status i \<noteq> PushStatusFailed) is))"
  "pc_timedOut (countInstances is) = int (length (filter is_TimedOut is))"
  "pc_noStatus (countInstances is) = int (length (filter (\<lambda>i. is_Status i = InstanceStatusNoStatus) is))"
  "pc_hasApplyingOrApplied (countInstances is) \<longleftrightarrow>
     (\<exists>i \<in> set is. is_Status i = PushStatusApplying \<or> is_Status i = PushStatusApplied)"
  "pc_allApplied (countInstances is) \<longleftrightarrow> is \<noteq> [] \<and> (\<forall>i \<in> set is. is_Status i = PushStatusApplied)"
  by (simp_all add: countInstances_def foldl_countInstance)

lemma count_partition:
  "length (filter (\<lambda>i. is_Status i = PushStatusApplied) is) + length (filter (\<lambda>i. is_Status i = PushStatusFailed) is)
   + length (filter (\<lambda>i. is_Status i \<noteq> PushStatusApplied \<and> is_Status i \<noteq> PushStatusFailed) is) = length is"
  by (induction "is") (auto simp: push_status_defs)

lemma filter_length_le: "(\<And>x. x \<in> set xs \<Longrightarrow> P x \<Longrightarrow> Q x) \<Longrightarrow> length (filter P xs) \<le> length (filter Q xs)"
  by (induction xs) (auto simp: le_Suc_eq)

lemma hydrateInstance_status:
  "is_Status (hydrateInstance cid t now i)
    \<in> {PushStatusSent, PushStatusApplying, PushStatusApplied, PushStatusFailed, InstanceStatusNoStatus}"
  using canonicalInstanceStatus_range [of "is_Status i"] by (simp add: hydrateInstance_def Let_def)

lemma hydrateInstance_timedOut:
  "is_TimedOut (hydrateInstance cid t now i) \<Longrightarrow> is_Status (hydrateInstance cid t now i) = InstanceStatusNoStatus"
  by (auto simp: hydrateInstance_def Let_def split: if_splits)

text \<open>The iteration as one update: whether the instance is late decides the overlay.\<close>

definition isLate :: "gotime option \<Rightarrow> gotime \<Rightarrow> WorkloadConfigInstanceStatus \<Rightarrow> bool" where
  "isLate t now i \<longleftrightarrow> (case t of None \<Rightarrow> False | Some t \<Rightarrow> \<not> now < t) \<and> is_Required i
     \<and> (canonicalInstanceStatus (is_Status i) = PushStatusSent \<or> canonicalInstanceStatus (is_Status i) = InstanceStatusNoStatus)"

lemma hydrateInstance_late:
  assumes "isLate t now i"
  shows "hydrateInstance cid t now i =
    i\<lparr>is_Status := InstanceStatusNoStatus, is_TimedOut := True, is_ErrorCause := ''apply_timeout'',
      is_ErrorMessage := OpAMPStatusTimeoutMessage,
      is_ConfigHash := (if is_ConfigHash i = [] then cid else is_ConfigHash i)\<rparr>"
  using assms by (cases i) (simp add: hydrateInstance_def isLate_def Let_def)

lemma hydrateInstance_ok:
  assumes "\<not> isLate t now i"
  shows "hydrateInstance cid t now i =
    i\<lparr>is_Status := canonicalInstanceStatus (is_Status i), is_TimedOut := False,
      is_ErrorCause := (if is_ErrorMessage i \<noteq> [] \<and> is_ErrorCause i = []
        then normalizeRemoteConfigErrorCause [] (is_ErrorMessage i) else is_ErrorCause i),
      is_ErrorMessage := SanitizeRemoteConfigErrorMessage (is_ErrorMessage i),
      is_ConfigHash := (if is_ConfigHash i = [] then cid else is_ConfigHash i)\<rparr>"
  using assms by (cases i) (simp add: hydrateInstance_def isLate_def Let_def)

lemma normalize_ne: "normalizeRemoteConfigErrorCause [] m \<noteq> []"
  using normalize_known [of m] by (auto simp: error_causes_def)

lemma hydrateInstance_idem [simp]:
  "hydrateInstance cid t now (hydrateInstance cid t now i) = hydrateInstance cid t now i"
proof (cases "isLate t now i")
  case True
  then have "isLate t now (hydrateInstance cid t now i)"
    by (simp add: hydrateInstance_late) (simp add: isLate_def canonicalInstanceStatus_fix)
  with True show ?thesis
    by (simp add: hydrateInstance_late)
next
  case False
  then have "\<not> isLate t now (hydrateInstance cid t now i)"
    by (simp add: hydrateInstance_ok) (simp add: isLate_def)
  with False show ?thesis
    by (simp add: hydrateInstance_ok normalize_ne)
qed

lemma hydrateHeader_idem:
  "hydrateHeader (hydrateHeader wc) = hydrateHeader wc"
  by (simp add: hydrateHeader_def Let_def)

lemma derivedStatus_idem [simp]:
  "derivedStatus c n t (derivedStatus c n t s) = derivedStatus c n t s"
  by (simp add: derivedStatus_def)

lemma canonical_derived:
  "canonicalPushStatus (derivedStatus c n t (canonicalPushStatus s)) = derivedStatus c n t (canonicalPushStatus s)"
  by (simp add: derivedStatus_def canonicalPushStatus_names)

lemma map_hydrate_idem [simp]:
  "map (hydrateInstance cid t now) (map (hydrateInstance cid t now) is) = map (hydrateInstance cid t now) is"
  by simp

text \<open>Both parts keep the timeline and the groups, and the header part is stable under the second.\<close>

lemma hydrate_stable:
  fixes wc :: WorkloadConfig and now :: gotime
    and ts :: "WorkloadConfigTimelineEntry list" and eg :: "WorkloadConfigErrorGroup list"
  defines "w \<equiv> (hydrateCounts now (hydrateHeader wc))\<lparr>wc_Timeline := ts, wc_ErrorGroups := eg\<rparr>"
  shows "hydrateHeader w = w" and "hydrateCounts now w = w"
  unfolding w_def
  by (simp_all add: hydrateHeader_def hydrateCounts_def Let_def canonical_derived comp_def cong: if_cong)

subsection \<open>Error groups\<close>

definition groups_ok :: "error_groups \<Rightarrow> bool" where
  "groups_ok gs \<longleftrightarrow> mwf gs \<and> (\<forall>(k, g) \<in> set gs. eg_Cause g = k \<and> eg_SampleMessage g \<in> set safe_messages)"

lemma groups_ok_add:
  assumes "groups_ok gs"
  shows "groups_ok (errorGroups_add cid cause inst msg at gs)"
    and "msum eg_Count (errorGroups_add cid cause inst msg at gs) = msum eg_Count gs + 1"
    and "errorGroups_add cid cause inst msg at gs \<noteq> []"
proof -
  let ?c = "normalizeRemoteConfigErrorCause cause msg"
  let ?g = "case mget gs ?c of Some g \<Rightarrow> g | None \<Rightarrow> newErrorGroup cid ?c"
  have g: "eg_Cause ?g = ?c" "eg_SampleMessage ?g \<in> set safe_messages"
    using assms mget_in_set [of gs ?c]
    by (auto simp: groups_ok_def newErrorGroup_def safe_messages_def split: option.splits)
  have "eg_Count ?g = (case mget gs ?c of None \<Rightarrow> 0 | Some g \<Rightarrow> eg_Count g)"
    by (simp add: newErrorGroup_def split: option.splits)
  then show "msum eg_Count (errorGroups_add cid cause inst msg at gs) = msum eg_Count gs + 1"
    using assms by (simp add: errorGroups_add_def Let_def msum_mput groups_ok_def errorGroup_update_def)
  show "groups_ok (errorGroups_add cid cause inst msg at gs)"
    using assms g set_mput_subset Sanitize_safe
    by (fastforce simp: groups_ok_def errorGroups_add_def Let_def errorGroup_update_def)
  show "errorGroups_add cid cause inst msg at gs \<noteq> []"
    by (simp add: errorGroups_add_def Let_def)
qed

lemma collect_ok:
  "groups_ok (collectErrorGroups wc) \<and>
   msum eg_Count (collectErrorGroups wc) =
     (let n = length (filter reportsError (wc_InstanceStatuses wc))
      in if n = 0 \<and> wc_ErrorMessage wc \<noteq> [] then 1 else int n)"
proof -
  let ?f = "\<lambda>gs i. if reportsError i
     then errorGroups_add (wc_ConfigID wc) (is_ErrorCause i) (is_InstanceUID i) (is_ErrorMessage i) (is_UpdatedAt i) gs else gs"
  have "groups_ok (foldl ?f [] is) \<and> msum eg_Count (foldl ?f [] is) = int (length (filter reportsError is))
      \<and> (foldl ?f [] is = [] \<longleftrightarrow> filter reportsError is = [])" for "is"
    by (induction "is" rule: rev_induct) (auto simp: groups_ok_add, simp add: groups_ok_def)
  note this [of "wc_InstanceStatuses wc"]
  then show ?thesis
    by (auto simp: collectErrorGroups_def Let_def groups_ok_add)
qed

lemma sortErrorGroups_order:
  assumes "groups_ok gs" and "mset gs' = mset gs"
  shows "sortErrorGroups gs' = sortErrorGroups gs"
proof -
  let ?h = "\<lambda>(_, g). g\<lparr>eg_AffectedInstances := sort (eg_AffectedInstances g)\<rparr>"
  have inj: "inj_on errorGroup_key (set (map ?h gs))"
  proof (rule inj_onI)
    fix x y assume "x \<in> set (map ?h gs)" "y \<in> set (map ?h gs)" and k: "errorGroup_key x = errorGroup_key y"
    then obtain p q where p: "p \<in> set gs" "x = ?h p" and q: "q \<in> set gs" "y = ?h q"
      unfolding set_map by blast
    have "eg_Cause (snd p) = fst p" and "eg_Cause (snd q) = fst q"
      using assms(1) p(1) q(1) by (auto simp: groups_ok_def)
    moreover have "eg_Cause (snd p) = eg_Cause (snd q)"
      using k by (simp add: p q errorGroup_key_def case_prod_beta)
    moreover have "inj_on fst (set gs)"
      using assms(1) by (simp add: groups_ok_def mwf_def distinct_map)
    ultimately have "p = q"
      using p(1) q(1) by (simp add: inj_onD)
    then show "x = y"
      by (simp add: p q)
  qed
  have "mset (map ?h gs) = mset (map ?h gs')"
    using assms by simp
  from sort_key_cong_mset [OF this inj] show ?thesis
    by (simp add: sortErrorGroups_def)
qed

lemma sum_sortErrorGroups: "(\<Sum>g \<leftarrow> sortErrorGroups gs. eg_Count g) = msum eg_Count gs"
proof -
  have "mset (map eg_Count (sortErrorGroups gs)) = mset (map (\<lambda>p. eg_Count (snd p)) gs)"
    by (simp add: sortErrorGroups_def image_mset.compositionality comp_def case_prod_beta)
  then show ?thesis
    by (simp add: msum_def sum_mset_sum_list [symmetric])
qed

section \<open>Properties\<close>

text \<open>
  C16: no text a collector sent survives hydration: every message of a hydrated push, on the push, on
  an instance, in an error group or in the timeline, is one of ten fixed summaries.
\<close>

theorem hydrate_messages_safe:
  "let w = HydratePushStatus clock now wc in
   {wc_ErrorMessage w} \<union> is_ErrorMessage ` set (wc_InstanceStatuses w) \<union> eg_SampleMessage ` set (wc_ErrorGroups w)
     \<union> te_Message ` set (wc_Timeline w) \<subseteq> set safe_messages"
proof -
  define w where "w = HydratePushStatus clock now wc"
  define h where "h = hydrateCounts (if timeIsZero now then clock else now) (hydrateHeader wc)"
  define h' where "h' = h\<lparr>wc_Timeline := buildTimeline h\<rparr>"
  have w: "w = h'\<lparr>wc_ErrorGroups := buildWorkloadConfigErrorGroups h'\<rparr>"
    by (simp add: w_def h_def h'_def HydratePushStatus_def Let_def)
  have inst: "is_ErrorMessage i \<in> set safe_messages" if i: "i \<in> set (wc_InstanceStatuses h)" for i
  proof -
    obtain cid t n j where "i = hydrateInstance cid t n j"
      using i by (auto simp: h_def hydrateCounts_def Let_def)
    then show ?thesis
      by (cases "isLate t n j") (auto simp: hydrateInstance_late hydrateInstance_ok Sanitize_safe)
  qed
  have top: "wc_ErrorMessage h \<in> set safe_messages"
    by (simp add: h_def hydrateCounts_def Let_def Sanitize_safe)
  have groups: "eg_SampleMessage g \<in> set safe_messages" if "g \<in> set (buildWorkloadConfigErrorGroups h')" for g
    using that collect_ok [of h'] by (fastforce simp: buildWorkloadConfigErrorGroups_def sortErrorGroups_def groups_ok_def)
  have timeline: "te_Message e \<in> set safe_messages" if "e \<in> set (buildTimeline h)" for e
    using that inst
    by (auto simp: buildTimeline_def timelineEntry_def split: option.splits if_splits)
  show ?thesis
    using inst top groups timeline unfolding w_def [symmetric] Let_def by (auto simp: w h'_def)
qed

text \<open>
  C17: the counters of a hydrated push are those of its instances: applied, failed and pending
  partition the targets, and the timed out ones are among those without a status, which are pending.
\<close>

theorem hydrate_counts:
  "let w = HydratePushStatus clock now wc; is = wc_InstanceStatuses w in
   wc_TargetCount w = int (length (wc_InstanceStatuses wc))
   \<and> wc_AppliedCount w = int (length (filter (\<lambda>i. is_Status i = PushStatusApplied) is))
   \<and> wc_FailedCount w = int (length (filter (\<lambda>i. is_Status i = PushStatusFailed) is))
   \<and> wc_AppliedCount w + wc_FailedCount w + wc_PendingCount w = wc_TargetCount w
   \<and> 0 \<le> wc_TimedOutCount w \<and> wc_TimedOutCount w \<le> wc_NoStatusCount w \<and> wc_NoStatusCount w \<le> wc_PendingCount w"
proof -
  let ?w = "HydratePushStatus clock now wc"
  let ?is = "wc_InstanceStatuses ?w"
  have c: "wc_TargetCount ?w = int (length ?is)" "length ?is = length (wc_InstanceStatuses wc)"
    "wc_AppliedCount ?w = pc_applied (countInstances ?is)" "wc_FailedCount ?w = pc_failed (countInstances ?is)"
    "wc_PendingCount ?w = pc_pending (countInstances ?is)" "wc_TimedOutCount ?w = pc_timedOut (countInstances ?is)"
    "wc_NoStatusCount ?w = pc_noStatus (countInstances ?is)"
    by (simp_all add: HydratePushStatus_def hydrateCounts_def hydrateHeader_def Let_def)
  have "is_Status i = InstanceStatusNoStatus" if "i \<in> set ?is" "is_TimedOut i" for i
    using that hydrateInstance_timedOut by (auto simp: HydratePushStatus_def hydrateCounts_def Let_def)
  then have "length (filter is_TimedOut ?is) \<le> length (filter (\<lambda>i. is_Status i = InstanceStatusNoStatus) ?is)"
    by (rule filter_length_le)
  moreover have "length (filter (\<lambda>i. is_Status i = InstanceStatusNoStatus) ?is)
      \<le> length (filter (\<lambda>i. is_Status i \<noteq> PushStatusApplied \<and> is_Status i \<noteq> PushStatusFailed) ?is)"
    by (rule filter_length_le) (simp add: push_status_defs)
  ultimately show ?thesis
    using count_partition [of ?is] unfolding Let_def by (simp add: c countInstances_simps)
qed

lemma hydrated_status:
  assumes "wc_InstanceStatuses wc \<noteq> []"
  shows "let w = HydratePushStatus clock now wc; is = wc_InstanceStatuses w in
   wc_Status w =
     (if \<exists>i \<in> set is. is_Status i = PushStatusFailed then PushStatusFailed
      else if \<forall>i \<in> set is. is_Status i = PushStatusApplied then PushStatusApplied
      else if \<exists>i \<in> set is. is_Status i = PushStatusApplying \<or> is_Status i = PushStatusApplied then PushStatusApplying
      else if wc_SentAt wc \<noteq> None then PushStatusSent
      else canonicalPushStatus (wc_Status wc))"
proof -
  let ?w = "HydratePushStatus clock now wc"
  let ?is = "wc_InstanceStatuses ?w"
  have "wc_Status ?w = derivedStatus (countInstances ?is) (int (length ?is)) (wc_SentAt wc) (canonicalPushStatus (wc_Status wc))"
    by (simp add: HydratePushStatus_def hydrateCounts_def hydrateHeader_def Let_def)
  moreover have ne: "?is \<noteq> []"
    using assms by (simp add: HydratePushStatus_def hydrateCounts_def hydrateHeader_def Let_def)
  ultimately show ?thesis
    unfolding Let_def
    by (auto simp: derivedStatus_def countInstances_simps countInstances_def [symmetric] filter_empty_conv)
qed

text \<open>
  C18: the status of a push that was sent to at least one instance is decided by the instances alone,
  whatever was stored: failed as soon as one failed, applied once all applied, applying while some
  did, and sent otherwise.
\<close>

theorem hydrate_status:
  assumes "wc_InstanceStatuses wc \<noteq> []" and "wc_SentAt wc \<noteq> None"
  shows "let w = HydratePushStatus clock now wc; is = wc_InstanceStatuses w in
   wc_Status w =
     (if \<exists>i \<in> set is. is_Status i = PushStatusFailed then PushStatusFailed
      else if \<forall>i \<in> set is. is_Status i = PushStatusApplied then PushStatusApplied
      else if \<exists>i \<in> set is. is_Status i = PushStatusApplying \<or> is_Status i = PushStatusApplied then PushStatusApplying
      else PushStatusSent)"
  using hydrated_status [OF assms(1), of clock now] assms(2) by (simp add: Let_def)

definition demo_instance :: "string \<Rightarrow> string \<Rightarrow> WorkloadConfigInstanceStatus" where
  "demo_instance uid st = \<lparr>is_InstanceUID = uid, is_PodName = [], is_Node = [], is_Required = True, is_Status = st,
     is_ConfigHash = [], is_UpdatedAt = 0, is_ErrorCause = [], is_ErrorMessage = [], is_TimedOut = False\<rparr>"

definition demo_push :: WorkloadConfig where
  "demo_push = \<lparr>wc_WorkloadID = ''w'', wc_ConfigID = ''c'', wc_ConfigHash = [], wc_AppliedAt = 5, wc_Status = ''applied'',
     wc_ErrorMessage = [], wc_PushedBy = [], wc_Content = [], wc_Label = None, wc_PushID = ''p'', wc_SubmittedAt = 5,
     wc_SentAt = Some 6, wc_UpdatedAt = 0, wc_OpAMPStatusTimeoutAt = Some 9, wc_TimedOutWaiting = False,
     wc_TimeoutMessage = [], wc_RollbackOfPushID = [], wc_Timeline = [],
     wc_InstanceStatuses = [demo_instance ''a'' ''Applied'', demo_instance ''b'' ''FAILED''], wc_TargetCount = 0,
     wc_AppliedCount = 0, wc_FailedCount = 0, wc_PendingCount = 0, wc_TimedOutCount = 0, wc_NoStatusCount = 0,
     wc_ErrorGroups = [], wc_IsCurrent = False, wc_IsPrevious = False, wc_IsLastKnownGood = False,
     wc_IsFailedCandidate = False, wc_ContentAvailable = False\<rparr>"

theorem hydrate_status_witness: "wc_Status (HydratePushStatus 0 7 demo_push) = ''failed''"
proof -
  have "list_ex (\<lambda>i. is_Status i = PushStatusFailed) (wc_InstanceStatuses (HydratePushStatus 0 7 demo_push))"
    by code_simp
  then show ?thesis
    using hydrate_status [of demo_push 0 7]
    by (simp add: demo_push_def [THEN arg_cong [of _ _ wc_InstanceStatuses]] demo_push_def [THEN arg_cong [of _ _ wc_SentAt]]
        list_ex_iff PushStatusFailed_def)
qed

text \<open>Hydrating a push a second time at the same moment changes nothing.\<close>

theorem hydrate_idempotent:
  "HydratePushStatus clock now (HydratePushStatus clock now wc) = HydratePushStatus clock now wc"
proof -
  define n where "n = (if timeIsZero now then clock else now)"
  define h where "h = hydrateCounts n (hydrateHeader wc)"
  have tl: "buildTimeline (h\<lparr>wc_Timeline := a, wc_ErrorGroups := b\<rparr>) = buildTimeline h" for a b
    by (simp add: buildTimeline_def cong: option.case_cong if_cong)
  have eg: "buildWorkloadConfigErrorGroups (w\<lparr>wc_Timeline := a\<rparr>) = buildWorkloadConfigErrorGroups w"
    "buildWorkloadConfigErrorGroups (w\<lparr>wc_ErrorGroups := b\<rparr>) = buildWorkloadConfigErrorGroups w" for w :: WorkloadConfig and a b
    by (simp_all add: buildWorkloadConfigErrorGroups_def collectErrorGroups_def cong: if_cong)
  have H: "HydratePushStatus clock now wc = h\<lparr>wc_Timeline := buildTimeline h, wc_ErrorGroups := buildWorkloadConfigErrorGroups h\<rparr>"
    by (simp add: HydratePushStatus_def Let_def h_def [symmetric] n_def [symmetric] eg)
  show ?thesis
    unfolding H
    by (simp add: HydratePushStatus_def Let_def n_def [symmetric] hydrate_stable [where now = n and wc = wc, folded h_def] tl eg)
qed

text \<open>
  C19: the error groups partition the instances that report an error: the counts add up to their number,
  or to one for an error of the push alone; and the sorted list does not depend on the order in
  which the map of groups is traversed.
\<close>

theorem error_groups_partition:
  "(\<Sum>g \<leftarrow> buildWorkloadConfigErrorGroups wc. eg_Count g) =
     (let n = length (filter reportsError (wc_InstanceStatuses wc))
      in if n = 0 \<and> wc_ErrorMessage wc \<noteq> [] then 1 else int n)
   \<and> sortErrorGroups ` {gs. mset gs = mset (collectErrorGroups wc)} = {buildWorkloadConfigErrorGroups wc}"
proof -
  have "sortErrorGroups gs = buildWorkloadConfigErrorGroups wc" if "mset gs = mset (collectErrorGroups wc)" for gs
    using that collect_ok [of wc] sortErrorGroups_order by (simp add: buildWorkloadConfigErrorGroups_def)
  then have "sortErrorGroups ` {gs. mset gs = mset (collectErrorGroups wc)} = {buildWorkloadConfigErrorGroups wc}"
    by (auto intro!: rev_image_eqI [of "collectErrorGroups wc"])
  then show ?thesis
    using collect_ok [of wc] by (simp add: buildWorkloadConfigErrorGroups_def sum_sortErrorGroups)
qed

end
