(* ===== verification/Instance_Registry.thy ===== *)
theory Instance_Registry
  imports Push_Status
begin

text \<open>
  Which collector instance is connected to which workload, \<open>internal/opamp/registry.go\<close>. The
  registry keeps two maps, workload to instances and instance to workload; it is proved to implement
  one finite map from instances to their workload and state. Each method holds the mutex, so it is
  one atomic step.
\<close>

section \<open>The program\<close>

record RemoteConfigStatus =
  rs_Status :: string
  rs_ConfigHash :: string
  rs_ErrorMessage :: string
  rs_UpdatedAt :: gotime
  rs_PushStatus :: "WorkloadConfig option"

record Instance =
  in_InstanceUID :: string
  in_PodName :: string
  in_Version :: string
  in_ConnectedAt :: gotime
  in_LastMessageAt :: gotime
  in_EffectiveConfigHash :: string
  in_Healthy :: bool
  in_AcceptsRemoteConfig :: bool
  in_RemoteConfigCapabilityKnown :: bool
  in_RemoteConfigStatus :: "RemoteConfigStatus option"

type_synonym bucket = "(string, Instance) gomap"

record InstanceRegistry =
  ir_byWorkload :: "(string, bucket) gomap"
  ir_uidToWL :: "(string, string) gomap"

definition NewInstanceRegistry :: InstanceRegistry where
  "NewInstanceRegistry = \<lparr>ir_byWorkload = [], ir_uidToWL = []\<rparr>"

text \<open>\<open>r.byWorkload[wl]\<close>, a nil map when the workload has none.\<close>

definition bucketOf :: "InstanceRegistry \<Rightarrow> string \<Rightarrow> bucket" where
  "bucketOf r wl = (case mget (ir_byWorkload r) wl of None \<Rightarrow> [] | Some b \<Rightarrow> b)"

text \<open>\<open>delete(r.byWorkload[wl], uid)\<close> and the removal of an empty bucket.\<close>

definition removeFromBucket :: "string \<Rightarrow> string \<Rightarrow> (string, bucket) gomap \<Rightarrow> (string, bucket) gomap" where
  "removeFromBucket wl uid m =
    (case mget m wl of
       None \<Rightarrow> m
     | Some b \<Rightarrow> let b' = mdel uid b in if mlen b' = 0 then mdel wl m else mput wl b' m)"

definition stampInstance :: "gotime \<Rightarrow> string \<Rightarrow> Instance \<Rightarrow> Instance" where
  "stampInstance now uid ins =
    ins\<lparr>in_InstanceUID := uid,
        in_ConnectedAt := (if timeIsZero (in_ConnectedAt ins) then now else in_ConnectedAt ins),
        in_LastMessageAt := now\<rparr>"

definition BindInstance :: "gotime \<Rightarrow> string \<Rightarrow> string \<Rightarrow> Instance \<Rightarrow> InstanceRegistry \<Rightarrow> bool \<times> InstanceRegistry" where
  "BindInstance now uid workloadID ins r =
    (let prev = mget (ir_uidToWL r) uid;
         by = (case prev of
                 Some p \<Rightarrow> if p \<noteq> workloadID then removeFromBucket p uid (ir_byWorkload r) else ir_byWorkload r
               | None \<Rightarrow> ir_byWorkload r);
         bucket = (case mget by workloadID of Some b \<Rightarrow> b | None \<Rightarrow> [])
     in (prev = None,
         \<lparr>ir_byWorkload = mput workloadID (mput uid (stampInstance now uid ins) bucket) by,
          ir_uidToWL = mput uid workloadID (ir_uidToWL r)\<rparr>))"

definition UpdateInstance :: "gotime \<Rightarrow> string \<Rightarrow> (Instance \<Rightarrow> Instance) \<Rightarrow> InstanceRegistry \<Rightarrow> bool \<times> InstanceRegistry" where
  "UpdateInstance now uid mutate r =
    (case mget (ir_uidToWL r) uid of
       None \<Rightarrow> (False, r)
     | Some wl \<Rightarrow>
         (case mget (bucketOf r wl) uid of
            None \<Rightarrow> (False, r)
          | Some ins \<Rightarrow>
              (True, r\<lparr>ir_byWorkload := mput wl (mput uid ((mutate ins)\<lparr>in_LastMessageAt := now\<rparr>) (bucketOf r wl)) (ir_byWorkload r)\<rparr>)))"

definition UnbindInstance :: "string \<Rightarrow> InstanceRegistry \<Rightarrow> string \<times> InstanceRegistry" where
  "UnbindInstance uid r =
    (let wl = mstr (ir_uidToWL r) uid in
     if wl = [] then ([], r)
     else (wl, \<lparr>ir_byWorkload = removeFromBucket wl uid (ir_byWorkload r), ir_uidToWL = mdel uid (ir_uidToWL r)\<rparr>))"

definition LookupWorkload :: "InstanceRegistry \<Rightarrow> string \<Rightarrow> string option" where
  "LookupWorkload r uid = mget (ir_uidToWL r) uid"

definition registry_Count :: "InstanceRegistry \<Rightarrow> string \<Rightarrow> nat" where
  "registry_Count r wl = mlen (bucketOf r wl)"

definition registry_Instances :: "InstanceRegistry \<Rightarrow> string \<Rightarrow> Instance list" where
  "registry_Instances r wl = map snd (bucketOf r wl)"

definition AggregatedStatus :: "InstanceRegistry \<Rightarrow> string \<Rightarrow> string" where
  "AggregatedStatus r wl =
    (let bucket = bucketOf r wl in
     if mlen bucket = 0 then ''disconnected''
     else if list_ex (\<lambda>p. \<not> in_Healthy (snd p)) bucket then ''degraded''
     else ''connected'')"

definition PreviousVersion :: "InstanceRegistry \<Rightarrow> string \<Rightarrow> string option" where
  "PreviousVersion r uid =
    (let wl = mstr (ir_uidToWL r) uid in
     if wl = [] then None else map_option in_Version (mget (bucketOf r wl) uid))"

section \<open>The contract\<close>

text \<open>
  What the server relies on: a finite map from instance identifiers to the workload and the state
  of the instance. The workload identifier is the fingerprint hash, which is never empty.
\<close>

definition status_of :: "Instance set \<Rightarrow> string" where
  "status_of is = (if is = {} then ''disconnected'' else if \<exists>i \<in> is. \<not> in_Healthy i then ''degraded'' else ''connected'')"

locale live_instances =
  fixes bind :: "gotime \<Rightarrow> string \<Rightarrow> string \<Rightarrow> Instance \<Rightarrow> 'r \<Rightarrow> bool \<times> 'r"
    and update :: "gotime \<Rightarrow> string \<Rightarrow> (Instance \<Rightarrow> Instance) \<Rightarrow> 'r \<Rightarrow> bool \<times> 'r"
    and unbind :: "string \<Rightarrow> 'r \<Rightarrow> string \<times> 'r"
    and count :: "'r \<Rightarrow> string \<Rightarrow> nat"
    and agg :: "'r \<Rightarrow> string \<Rightarrow> string"
    and inv :: "'r \<Rightarrow> bool"
    and view :: "'r \<Rightarrow> string \<Rightarrow> (string \<times> Instance) option"
  assumes inv_bind: "inv r \<Longrightarrow> wl \<noteq> [] \<Longrightarrow> inv (snd (bind now uid wl ins r))"
    and inv_update: "inv r \<Longrightarrow> inv (snd (update now uid mut r))"
    and inv_unbind: "inv r \<Longrightarrow> inv (snd (unbind uid r))"
    and bind_view: "inv r \<Longrightarrow> wl \<noteq> [] \<Longrightarrow>
      fst (bind now uid wl ins r) = (view r uid = None)
      \<and> view (snd (bind now uid wl ins r)) = (view r)(uid \<mapsto> (wl, stampInstance now uid ins))"
    and update_view: "inv r \<Longrightarrow>
      fst (update now uid mut r) = (view r uid \<noteq> None)
      \<and> view (snd (update now uid mut r)) =
        (case view r uid of None \<Rightarrow> view r | Some (wl, ins) \<Rightarrow> (view r)(uid \<mapsto> (wl, (mut ins)\<lparr>in_LastMessageAt := now\<rparr>)))"
    and unbind_view: "inv r \<Longrightarrow>
      fst (unbind uid r) = (case view r uid of None \<Rightarrow> [] | Some (wl, _) \<Rightarrow> wl)
      \<and> view (snd (unbind uid r)) = (view r)(uid := None)"
    and count_view: "inv r \<Longrightarrow> finite {uid. \<exists>i. view r uid = Some (wl, i)} \<and> count r wl = card {uid. \<exists>i. view r uid = Some (wl, i)}"
    and agg_view: "inv r \<Longrightarrow> agg r wl = status_of {i. \<exists>uid. view r uid = Some (wl, i)}"
begin

lemma count_bind_fresh:
  assumes "inv r" and "wl \<noteq> []" and "view r uid = None"
  shows "count (snd (bind now uid wl ins r)) wl = Suc (count r wl)"
proof -
  have "{u. \<exists>i. view (snd (bind now uid wl ins r)) u = Some (wl, i)} = insert uid {u. \<exists>i. view r u = Some (wl, i)}"
    using bind_view [OF assms(1,2), of now uid ins] by auto
  then show ?thesis
    using assms count_view [OF assms(1), of wl] count_view [OF inv_bind [OF assms(1,2), of now uid ins], of wl] by auto
qed

lemma last_unbind_disconnects:
  assumes "inv r" and "view r uid = Some (wl, i)" and "count r wl = 1"
  shows "agg (snd (unbind uid r)) wl = ''disconnected''" and "count (snd (unbind uid r)) wl = 0"
proof -
  let ?S = "{u. \<exists>i. view r u = Some (wl, i)}"
  have "card ?S = 1"
    using assms(3) count_view [OF assms(1), of wl] by simp
  then obtain x where x: "?S = {x}"
    by (rule card_1_singletonE)
  have in_S: "u = x" if "view r u = Some (wl, j)" for u j
  proof -
    have "u \<in> ?S"
      using that by simp
    then show ?thesis
      by (simp only: x singleton_iff)
  qed
  have "u = uid" if "view r u = Some (wl, j)" for u j
    using in_S [OF that] in_S [OF assms(2)] by simp
  then have none: "view (snd (unbind uid r)) u \<noteq> Some (wl, j)" for u j
    using unbind_view [OF assms(1), of uid] by (cases "u = uid") auto
  then show "agg (snd (unbind uid r)) wl = ''disconnected''"
    using agg_view [OF inv_unbind [OF assms(1)], of uid wl] by (simp add: status_of_def)
  show "count (snd (unbind uid r)) wl = 0"
    using count_view [OF inv_unbind [OF assms(1)], of uid wl] none by simp
qed

lemma unbind_other:
  assumes "inv r" and "view r uid = Some (wl, i)" and "wl' \<noteq> wl"
  shows "agg (snd (unbind uid r)) wl' = agg r wl'" and "count (snd (unbind uid r)) wl' = count r wl'"
proof -
  have "view (snd (unbind uid r)) u = Some (wl', j) \<longleftrightarrow> view r u = Some (wl', j)" for u j
    using unbind_view [OF assms(1), of uid] assms(2,3) by auto
  then show "agg (snd (unbind uid r)) wl' = agg r wl'" and "count (snd (unbind uid r)) wl' = count r wl'"
    using agg_view count_view inv_unbind assms(1) by simp_all
qed

lemma unhealthy_degrades:
  assumes "inv r" and "wl \<noteq> []" and "\<not> in_Healthy ins"
  shows "agg (snd (bind now uid wl ins r)) wl = ''degraded''"
proof -
  have "view (snd (bind now uid wl ins r)) uid = Some (wl, stampInstance now uid ins)"
    using bind_view [OF assms(1,2)] by simp
  moreover have "\<not> in_Healthy (stampInstance now uid ins)"
    using assms(3) by (simp add: stampInstance_def)
  ultimately show ?thesis
    using agg_view [OF inv_bind [OF assms(1,2)]] by (auto simp: status_of_def)
qed

end

section \<open>The registry implements it\<close>

definition bucketIn :: "(string, bucket) gomap \<Rightarrow> string \<Rightarrow> bucket" where
  "bucketIn m wl = (case mget m wl of None \<Rightarrow> [] | Some b \<Rightarrow> b)"

definition buckets_ok :: "(string, bucket) gomap \<Rightarrow> bool" where
  "buckets_ok m \<longleftrightarrow> mwf m \<and> (\<forall>wl b. mget m wl = Some b \<longrightarrow> wl \<noteq> [] \<and> mwf b \<and> b \<noteq> [])"

definition registry_inv :: "InstanceRegistry \<Rightarrow> bool" where
  "registry_inv r \<longleftrightarrow>
    mwf (ir_uidToWL r) \<and> buckets_ok (ir_byWorkload r)
    \<and> (\<forall>uid wl. mget (ir_uidToWL r) uid = Some wl \<longleftrightarrow> (\<exists>i. mget (bucketIn (ir_byWorkload r) wl) uid = Some i))"

definition registry_view :: "InstanceRegistry \<Rightarrow> string \<Rightarrow> (string \<times> Instance) option" where
  "registry_view r uid =
    (case mget (ir_uidToWL r) uid of
       None \<Rightarrow> None
     | Some wl \<Rightarrow> map_option (Pair wl) (mget (bucketIn (ir_byWorkload r) wl) uid))"

lemma bucketOf_In: "bucketOf r wl = bucketIn (ir_byWorkload r) wl"
  by (simp add: bucketOf_def bucketIn_def)

lemma registry_inv_New: "registry_inv NewInstanceRegistry"
  by (simp add: registry_inv_def buckets_ok_def NewInstanceRegistry_def bucketIn_def map_simps)

lemma mwf_bucketIn: "buckets_ok m \<Longrightarrow> mwf (bucketIn m wl)"
  by (auto simp: buckets_ok_def bucketIn_def split: option.splits)

lemma bucketIn_remove:
  "mget (bucketIn (removeFromBucket wl uid m) wl') u = (if wl' = wl \<and> u = uid then None else mget (bucketIn m wl') u)"
proof (cases "mget m wl")
  case (Some b)
  have "mget b u = None" if "mdel uid b = []" "u \<noteq> uid"
    using mget_mdel [of uid b u] that by (simp add: mget_Nil)
  then show ?thesis
    using Some by (auto simp: removeFromBucket_def bucketIn_def Let_def map_simps split: option.splits if_splits)
qed (auto simp: removeFromBucket_def bucketIn_def map_simps split: option.splits)

lemma bucketIn_put:
  "bucketIn (mput wl b m) wl' = (if wl' = wl then b else bucketIn m wl')"
  by (simp add: bucketIn_def map_simps)

lemma buckets_ok_remove: "buckets_ok m \<Longrightarrow> buckets_ok (removeFromBucket wl uid m)"
  by (auto simp: buckets_ok_def removeFromBucket_def Let_def map_simps split: option.splits if_splits)

lemma buckets_ok_put: "buckets_ok m \<Longrightarrow> wl \<noteq> [] \<Longrightarrow> mwf b \<Longrightarrow> b \<noteq> [] \<Longrightarrow> buckets_ok (mput wl b m)"
  by (auto simp: buckets_ok_def map_simps)

lemma bucket_uid:
  "registry_inv r \<Longrightarrow> mget (bucketIn (ir_byWorkload r) wl) uid = Some i \<Longrightarrow> mget (ir_uidToWL r) uid = Some wl"
  unfolding registry_inv_def by blast

lemma uid_bucket:
  "registry_inv r \<Longrightarrow> mget (ir_uidToWL r) uid = Some wl \<Longrightarrow> \<exists>i. mget (bucketIn (ir_byWorkload r) wl) uid = Some i"
  unfolding registry_inv_def by blast

lemma registry_view_Some:
  "registry_inv r \<Longrightarrow> registry_view r uid = Some (wl, i) \<longleftrightarrow> mget (bucketIn (ir_byWorkload r) wl) uid = Some i"
  by (auto simp: registry_view_def bucket_uid split: option.splits)

lemma registry_view_None: "registry_inv r \<Longrightarrow> registry_view r uid = None \<longleftrightarrow> mget (ir_uidToWL r) uid = None"
  by (auto simp: registry_view_def dest: uid_bucket split: option.splits)

lemma uid_of_view: "registry_inv r \<Longrightarrow> mget (ir_uidToWL r) uid = map_option fst (registry_view r uid)"
  by (auto simp: registry_view_def dest: uid_bucket split: option.splits)

text \<open>Two registries with the same view agree; so an operation is described by its effect on the buckets.\<close>

lemma view_eqI:
  assumes "registry_inv r'"
    and "\<And>u wl i. mget (bucketIn (ir_byWorkload r') wl) u = Some i \<longleftrightarrow> f u = Some (wl, i)"
  shows "registry_view r' = f"
proof
  fix u
  have "registry_view r' u = Some p \<longleftrightarrow> f u = Some p" for p
    by (cases p) (simp add: registry_view_Some [OF assms(1)] assms(2))
  then show "registry_view r' u = f u"
    by (rule option_eqI)
qed

text \<open>The effect of a bind on the buckets, whether or not the instance moves.\<close>

lemma bucketIn_bind:
  assumes "registry_inv r" and "r' = snd (BindInstance now uid wl ins r)"
  shows "mget (bucketIn (ir_byWorkload r') wl') u =
    (if u = uid then (if wl' = wl then Some (stampInstance now uid ins) else None) else mget (bucketIn (ir_byWorkload r) wl') u)"
proof -
  have "mget (bucketIn (ir_byWorkload r) wl') uid = None" if "mget (ir_uidToWL r) uid \<noteq> Some wl'" for wl'
    using that assms(1) by (cases "mget (bucketIn (ir_byWorkload r) wl') uid") (auto simp: registry_inv_def)
  then show ?thesis
    unfolding assms(2)
    by (auto simp: BindInstance_def Let_def bucketIn_put map_simps bucketIn_remove bucketIn_def [symmetric]
        split: option.splits)
qed

lemma registry_inv_bind:
  assumes "registry_inv r" and "wl \<noteq> []"
  shows "registry_inv (snd (BindInstance now uid wl ins r))"
proof -
  let ?r = "snd (BindInstance now uid wl ins r)"
  have "mwf (ir_uidToWL ?r)"
    using assms by (auto simp: BindInstance_def Let_def registry_inv_def)
  moreover have "buckets_ok (ir_byWorkload ?r)"
    using assms mwf_bucketIn
    by (auto simp: BindInstance_def Let_def registry_inv_def bucketIn_def [symmetric]
        intro!: buckets_ok_put buckets_ok_remove split: option.splits)
  moreover have "mget (ir_uidToWL ?r) u = (if u = uid then Some wl else mget (ir_uidToWL r) u)" for u
    by (simp add: BindInstance_def Let_def map_simps)
  ultimately show ?thesis
    using assms(1) by (auto simp: registry_inv_def bucketIn_bind [OF assms(1) refl])
qed

lemma bucketIn_unbind:
  assumes "registry_inv r" and "r' = snd (UnbindInstance uid r)"
  shows "mget (bucketIn (ir_byWorkload r') wl') u = (if u = uid then None else mget (bucketIn (ir_byWorkload r) wl') u)"
    and "mget (ir_uidToWL r') u = (if u = uid then None else mget (ir_uidToWL r) u)"
proof -
  have other: "mget (bucketIn (ir_byWorkload r) wl') uid = None" if "mget (ir_uidToWL r) uid \<noteq> Some wl'" for wl'
    using that bucket_uid [OF assms(1)] by (cases "mget (bucketIn (ir_byWorkload r) wl') uid") auto
  have ne: "wl \<noteq> []" if wl: "mget (ir_uidToWL r) uid = Some wl" for wl
    using uid_bucket [OF assms(1) wl] assms(1)
    by (auto simp: registry_inv_def buckets_ok_def bucketIn_def mget_Nil split: option.splits)
  then show "mget (ir_uidToWL r') u = (if u = uid then None else mget (ir_uidToWL r) u)"
    unfolding assms(2) by (auto simp: UnbindInstance_def Let_def mstr_def map_simps split: option.splits)
  show "mget (bucketIn (ir_byWorkload r') wl') u = (if u = uid then None else mget (bucketIn (ir_byWorkload r) wl') u)"
    unfolding assms(2) using ne other
    by (auto simp: UnbindInstance_def Let_def mstr_def bucketIn_remove split: option.splits)
qed

lemma registry_inv_unbind:
  assumes "registry_inv r"
  shows "registry_inv (snd (UnbindInstance uid r))"
proof -
  let ?r = "snd (UnbindInstance uid r)"
  have "mwf (ir_uidToWL ?r)" and "buckets_ok (ir_byWorkload ?r)"
    using assms by (auto simp: UnbindInstance_def Let_def registry_inv_def intro: buckets_ok_remove)
  then show ?thesis
    using assms by (auto simp: registry_inv_def bucketIn_unbind [OF assms refl])
qed

lemma bucketIn_update:
  assumes "registry_view r uid = Some (wl, ins)" and "r' = snd (UpdateInstance now uid mut r)"
  shows "mget (bucketIn (ir_byWorkload r') wl') u =
      (if u = uid \<and> wl' = wl then Some ((mut ins)\<lparr>in_LastMessageAt := now\<rparr>) else mget (bucketIn (ir_byWorkload r) wl') u)"
    and "ir_uidToWL r' = ir_uidToWL r"
  using assms(1) unfolding assms(2)
  by (auto simp: UpdateInstance_def registry_view_def bucketOf_In bucketIn_put map_simps split: option.splits)

lemma UpdateInstance_unknown:
  "registry_view r uid = None \<Longrightarrow> UpdateInstance now uid mut r = (False, r)"
  by (auto simp: UpdateInstance_def registry_view_def bucketOf_In split: option.splits)

lemma registry_inv_update:
  assumes "registry_inv r"
  shows "registry_inv (snd (UpdateInstance now uid mut r))"
proof (cases "registry_view r uid")
  case None
  then show ?thesis
    using assms by (simp add: UpdateInstance_unknown)
next
  case (Some p)
  obtain wl ins where p: "registry_view r uid = Some (wl, ins)"
    using Some by (cases p) simp
  let ?r = "snd (UpdateInstance now uid mut r)"
  have "wl \<noteq> []"
    using p assms unfolding registry_view_Some [OF assms]
    by (auto simp: registry_inv_def buckets_ok_def bucketIn_def mget_Nil split: option.splits)
  moreover have "buckets_ok (ir_byWorkload r)"
    using assms by (simp add: registry_inv_def)
  moreover have "mget (ir_uidToWL r) uid = Some wl" and "mget (bucketIn (ir_byWorkload r) wl) uid = Some ins"
    using uid_of_view [OF assms, of uid] registry_view_Some [OF assms, of uid wl ins] p by simp_all
  ultimately have "buckets_ok (ir_byWorkload ?r)"
    by (simp add: UpdateInstance_def bucketOf_In buckets_ok_put mwf_bucketIn mwf_mput)
  then show ?thesis
    using assms p registry_view_Some [OF assms, of uid wl ins]
    by (auto simp: registry_inv_def bucketIn_update [OF p refl])
qed

lemma registry_count_view:
  assumes "registry_inv r"
  shows "finite {uid. \<exists>i. registry_view r uid = Some (wl, i)}
    \<and> registry_Count r wl = card {uid. \<exists>i. registry_view r uid = Some (wl, i)}"
proof -
  have "{uid. \<exists>i. registry_view r uid = Some (wl, i)} = dom (mget (bucketIn (ir_byWorkload r) wl))"
    by (auto simp: registry_view_Some [OF assms])
  moreover have "mwf (bucketIn (ir_byWorkload r) wl)"
    using assms mwf_bucketIn by (simp add: registry_inv_def)
  ultimately show ?thesis
    using mlen_card by (simp add: registry_Count_def bucketOf_In)
qed

lemma registry_agg_view:
  assumes "registry_inv r"
  shows "AggregatedStatus r wl = status_of {i. \<exists>uid. registry_view r uid = Some (wl, i)}"
proof -
  let ?b = "bucketIn (ir_byWorkload r) wl"
  have "mwf ?b"
    using assms mwf_bucketIn by (simp add: registry_inv_def)
  then have S: "{i. \<exists>uid. registry_view r uid = Some (wl, i)} = snd ` set ?b"
    by (force simp: registry_view_Some [OF assms] mget_mem)
  show ?thesis
    unfolding S by (auto simp: AggregatedStatus_def status_of_def bucketOf_In Let_def list_ex_iff)
qed

interpretation reg: live_instances BindInstance UpdateInstance UnbindInstance registry_Count AggregatedStatus registry_inv registry_view
proof (unfold_locales, goal_cases)
  case (4 r wl now uid ins)
  then have "registry_view (snd (BindInstance now uid wl ins r)) = (registry_view r)(uid \<mapsto> (wl, stampInstance now uid ins))"
    by (intro view_eqI registry_inv_bind) (auto simp: bucketIn_bind [OF 4(1) refl] registry_view_Some [OF 4(1)])
  then show ?case
    using registry_view_None [OF 4(1)] by (simp add: BindInstance_def Let_def)
next
  case (5 r now uid mut)
  show ?case
  proof (cases "registry_view r uid")
    case None
    then show ?thesis
      by (simp add: UpdateInstance_unknown)
  next
    case (Some p)
    obtain wl ins where p: "registry_view r uid = Some (wl, ins)"
      using Some by (cases p) simp
    have "registry_view (snd (UpdateInstance now uid mut r)) = (registry_view r)(uid \<mapsto> (wl, (mut ins)\<lparr>in_LastMessageAt := now\<rparr>))"
      using p by (intro view_eqI registry_inv_update 5) (auto simp: bucketIn_update [OF p refl] registry_view_Some [OF 5, symmetric])
    then show ?thesis
      using p by (auto simp: UpdateInstance_def registry_view_def bucketOf_In split: option.splits)
  qed
next
  case (6 r uid)
  have "registry_view (snd (UnbindInstance uid r)) = (registry_view r)(uid := None)"
    by (intro view_eqI registry_inv_unbind 6) (auto simp: bucketIn_unbind [OF 6 refl] registry_view_Some [OF 6])
  then show ?case
    using uid_of_view [OF 6, of uid] by (auto simp: UnbindInstance_def Let_def mstr_def split: option.splits)
qed (auto intro: registry_inv_bind registry_inv_update registry_inv_unbind registry_count_view registry_agg_view
    dest: registry_count_view)

section \<open>Histories\<close>

datatype registry_op =
    OpBind gotime string string Instance
  | OpUpdate gotime string "Instance \<Rightarrow> Instance"
  | OpUnbind string

fun op_ok :: "registry_op \<Rightarrow> bool" where
  "op_ok (OpBind _ _ wl _) = (wl \<noteq> [])"
| "op_ok _ = True"

fun registry_step :: "registry_op \<Rightarrow> InstanceRegistry \<Rightarrow> InstanceRegistry" where
  "registry_step (OpBind now uid wl ins) r = snd (BindInstance now uid wl ins r)"
| "registry_step (OpUpdate now uid mut) r = snd (UpdateInstance now uid mut r)"
| "registry_step (OpUnbind uid) r = snd (UnbindInstance uid r)"

text \<open>The specification of a step: one finite map, updated at one key.\<close>

fun spec_step :: "registry_op \<Rightarrow> (string \<rightharpoonup> string \<times> Instance) \<Rightarrow> (string \<rightharpoonup> string \<times> Instance)" where
  "spec_step (OpBind now uid wl ins) v = v(uid \<mapsto> (wl, stampInstance now uid ins))"
| "spec_step (OpUpdate now uid mut) v =
    (case v uid of None \<Rightarrow> v | Some (wl, ins) \<Rightarrow> v(uid \<mapsto> (wl, (mut ins)\<lparr>in_LastMessageAt := now\<rparr>)))"
| "spec_step (OpUnbind uid) v = v(uid := None)"

lemma registry_step_refines:
  assumes "registry_inv r" and "op_ok op"
  shows "registry_inv (registry_step op r)" and "registry_view (registry_step op r) = spec_step op (registry_view r)"
  using assms by (cases op; simp add: reg.inv_bind reg.inv_update reg.inv_unbind reg.bind_view reg.update_view reg.unbind_view)+

lemma registry_run_refines:
  assumes "registry_inv r" and "list_all op_ok ops"
  shows "registry_inv (fold registry_step ops r) \<and> registry_view (fold registry_step ops r) = fold spec_step ops (registry_view r)"
  using assms by (induction ops arbitrary: r) (auto simp: registry_step_refines)

lemma registry_view_New: "registry_view NewInstanceRegistry = Map.empty"
  by (auto simp: registry_view_def NewInstanceRegistry_def map_simps)

section \<open>Properties\<close>

text \<open>
  C20: after any sequence of binds, updates and unbinds the registry's two maps agree with each other and
  with one finite map from instances to workloads: an instance belongs to at most one workload, the
  count of a workload is the number of its instances, and its status is disconnected, degraded or
  connected according to them.
\<close>

theorem registry_refines:
  assumes "list_all op_ok ops"
  shows "let r = fold registry_step ops NewInstanceRegistry; v = fold spec_step ops Map.empty in
    registry_inv r \<and> registry_view r = v
    \<and> registry_Count r wl = card {uid. \<exists>i. v uid = Some (wl, i)}
    \<and> AggregatedStatus r wl = status_of {i. \<exists>uid. v uid = Some (wl, i)}
    \<and> LookupWorkload r uid = map_option fst (v uid)"
proof -
  let ?r = "fold registry_step ops NewInstanceRegistry"
  have r: "registry_inv ?r" and v: "registry_view ?r = fold spec_step ops Map.empty"
    using registry_run_refines [OF registry_inv_New assms] by (simp_all add: registry_view_New)
  show ?thesis
    using r reg.count_view [OF r, of wl] reg.agg_view [OF r, of wl] uid_of_view [OF r, of uid]
    by (simp add: v LookupWorkload_def)
qed

definition demo_ins :: "bool \<Rightarrow> Instance" where
  "demo_ins ok = \<lparr>in_InstanceUID = [], in_PodName = [], in_Version = ''0.100.0'', in_ConnectedAt = 0, in_LastMessageAt = 0,
     in_EffectiveConfigHash = [], in_Healthy = ok, in_AcceptsRemoteConfig = True,
     in_RemoteConfigCapabilityKnown = True, in_RemoteConfigStatus = None\<rparr>"

theorem registry_refines_witness:
  "LookupWorkload (fold registry_step [OpBind 1 ''a'' ''w1'' (demo_ins True), OpBind 2 ''a'' ''w2'' (demo_ins False)] NewInstanceRegistry) ''a''
     = Some ''w2''
   \<and> registry_inv (fold registry_step [OpBind 1 ''a'' ''w1'' (demo_ins True), OpBind 2 ''a'' ''w2'' (demo_ins False)] NewInstanceRegistry)"
  using registry_refines [of "[OpBind 1 ''a'' ''w1'' (demo_ins True), OpBind 2 ''a'' ''w2'' (demo_ins False)]" "''w2''" "''a''"]
  by (simp add: Let_def)

text \<open>
  C21: when the only instance of a workload leaves, the workload becomes disconnected with no instance
  left, and no other workload changes its count or status.
\<close>

theorem last_instance_leaves:
  assumes "registry_inv r" and "registry_view r uid = Some (wl, i)" and "registry_Count r wl = 1"
  shows "fst (UnbindInstance uid r) = wl
    \<and> AggregatedStatus (snd (UnbindInstance uid r)) wl = ''disconnected''
    \<and> registry_Count (snd (UnbindInstance uid r)) wl = 0
    \<and> (wl' \<noteq> wl \<longrightarrow> AggregatedStatus (snd (UnbindInstance uid r)) wl' = AggregatedStatus r wl'
        \<and> registry_Count (snd (UnbindInstance uid r)) wl' = registry_Count r wl')"
  using reg.last_unbind_disconnects [OF assms] reg.unbind_other [OF assms(1,2)] reg.unbind_view [OF assms(1), of uid] assms(2)
  by simp

theorem last_instance_leaves_witness:
  "AggregatedStatus (snd (UnbindInstance ''a'' (snd (BindInstance 1 ''a'' ''w1'' (demo_ins True) NewInstanceRegistry)))) ''w1'' = ''disconnected''"
proof -
  let ?r = "snd (BindInstance 1 ''a'' ''w1'' (demo_ins True) NewInstanceRegistry)"
  have "registry_inv ?r"
    by (rule reg.inv_bind [OF registry_inv_New]) simp
  moreover have "registry_view ?r ''a'' = Some (''w1'', stampInstance 1 ''a'' (demo_ins True))"
    using reg.bind_view [OF registry_inv_New, of "''w1''"] by simp
  moreover have "registry_Count ?r ''w1'' = 1"
    by code_simp
  ultimately show ?thesis
    using last_instance_leaves by blast
qed

end
