(* ===== verification/Grace_Timer.thy ===== *)
theory Grace_Timer
  imports Go_Strings
begin

text \<open>
  Delayed disconnects, \<open>internal/opamp/grace.go\<close>: one pending callback per key, replaced by a new
  schedule, removed by a cancel, and a stop that waits for the callbacks already running. The
  methods run under the mutex; timers, their goroutines and the wait group are the steps between
  them, so a run is an interleaving of the steps below. The delay only decides when a timer may
  fire, which is left open.
\<close>

section \<open>The program\<close>

text \<open>
  A timer is pending until it is stopped or fires. A fired one is a goroutine waiting for the mutex;
  it is running while the callback runs and done when it has returned or was dropped.
\<close>

datatype phase = Pending | Fired | Running | Stopped | Done

record graceTimer =
  gt_id :: nat
  gt_key :: string
  gt_phase :: phase
  gt_finished :: bool

text \<open>
  Entries are allocated objects: \<open>gc_heap\<close> holds them and the map holds their addresses.
  \<open>gc_stopState\<close> is the stop state and whether its channel is closed.
\<close>

record GraceController =
  gc_timers :: "(string, nat) gomap"
  gc_stopped :: bool
  gc_stopState :: "bool option"
  gc_nextID :: nat
  gc_wg :: int
  gc_heap :: "graceTimer list"

definition NewGraceController :: GraceController where
  "NewGraceController = \<lparr>gc_timers = [], gc_stopped = False, gc_stopState = None, gc_nextID = 0, gc_wg = 0, gc_heap = []\<rparr>"

abbreviation timer_at :: "GraceController \<Rightarrow> nat \<Rightarrow> graceTimer" where
  "timer_at g p \<equiv> gc_heap g ! p"

definition set_phase :: "nat \<Rightarrow> phase \<Rightarrow> GraceController \<Rightarrow> GraceController" where
  "set_phase p ph g = g\<lparr>gc_heap := (gc_heap g)[p := (timer_at g p)\<lparr>gt_phase := ph\<rparr>]\<rparr>"

text \<open>\<open>finish\<close>: the once makes the second call a no-op.\<close>

definition timer_finish :: "nat \<Rightarrow> GraceController \<Rightarrow> GraceController" where
  "timer_finish p g =
    (if gt_finished (timer_at g p) then g
     else g\<lparr>gc_heap := (gc_heap g)[p := (timer_at g p)\<lparr>gt_finished := True\<rparr>], gc_wg := gc_wg g - 1\<rparr>)"

text \<open>\<open>timer.Stop()\<close> reports whether it prevented the timer from firing.\<close>

definition timer_Stop :: "nat \<Rightarrow> GraceController \<Rightarrow> bool \<times> GraceController" where
  "timer_Stop p g = (if gt_phase (timer_at g p) = Pending then (True, set_phase p Stopped g) else (False, g))"

definition dropEntry :: "string \<Rightarrow> nat \<Rightarrow> GraceController \<Rightarrow> GraceController" where
  "dropEntry key p g =
    (case timer_Stop p (g\<lparr>gc_timers := mdel key (gc_timers g)\<rparr>) of
       (True, g') \<Rightarrow> timer_finish p g'
     | (False, g') \<Rightarrow> g')"

definition Schedule :: "string \<Rightarrow> GraceController \<Rightarrow> GraceController" where
  "Schedule key g =
    (if gc_stopped g then g
     else
       let g = (case mget (gc_timers g) key of Some p \<Rightarrow> dropEntry key p g | None \<Rightarrow> g);
           n = (gc_nextID g + 1) mod 2 ^ 64;
           p = length (gc_heap g)
       in g\<lparr>gc_nextID := n, gc_wg := gc_wg g + 1,
            gc_heap := gc_heap g @ [\<lparr>gt_id = n, gt_key = key, gt_phase = Pending, gt_finished = False\<rparr>],
            gc_timers := mput key p (gc_timers g)\<rparr>)"

definition Cancel :: "string \<Rightarrow> GraceController \<Rightarrow> GraceController" where
  "Cancel key g = (case mget (gc_timers g) key of Some p \<Rightarrow> dropEntry key p g | None \<Rightarrow> g)"

definition beginStop :: "GraceController \<Rightarrow> GraceController" where
  "beginStop g =
    (case gc_stopState g of
       Some _ \<Rightarrow> g
     | None \<Rightarrow>
         foldl (\<lambda>g kp. dropEntry (fst kp) (snd kp) g)
           (g\<lparr>gc_stopped := True, gc_stopState := Some False\<rparr>) (gc_timers g))"

text \<open>The first half of the callback's goroutine, under the mutex \<dots>\<close>

definition timer_enter :: "nat \<Rightarrow> GraceController \<Rightarrow> GraceController" where
  "timer_enter p g =
    (let key = gt_key (timer_at g p); current = mget (gc_timers g) key in
     if gc_stopped g \<or> current = None \<or> the current \<noteq> p \<or> gt_id (timer_at g (the current)) \<noteq> gt_id (timer_at g p)
     then timer_finish p (set_phase p Done g)
     else set_phase p Running (g\<lparr>gc_timers := mdel key (gc_timers g)\<rparr>))"

text \<open>\<open>\<dots>\<close> and what it does when the callback returns.\<close>

definition timer_leave :: "nat \<Rightarrow> GraceController \<Rightarrow> GraceController" where
  "timer_leave p g = timer_finish p (set_phase p Done g)"

inductive grace_step :: "GraceController \<Rightarrow> GraceController \<Rightarrow> bool" where
  step_schedule: "grace_step g (Schedule key g)"
| step_cancel: "grace_step g (Cancel key g)"
| step_stop: "grace_step g (beginStop g)"
| step_fire: "p < length (gc_heap g) \<Longrightarrow> gt_phase (timer_at g p) = Pending \<Longrightarrow> grace_step g (set_phase p Fired g)"
| step_enter: "p < length (gc_heap g) \<Longrightarrow> gt_phase (timer_at g p) = Fired \<Longrightarrow> grace_step g (timer_enter p g)"
| step_leave: "p < length (gc_heap g) \<Longrightarrow> gt_phase (timer_at g p) = Running \<Longrightarrow> grace_step g (timer_leave p g)"
| step_close: "gc_stopState g = Some False \<Longrightarrow> gc_wg g = 0 \<Longrightarrow> grace_step g (g\<lparr>gc_stopState := Some True\<rparr>)"

abbreviation grace_steps :: "GraceController \<Rightarrow> GraceController \<Rightarrow> bool" where
  "grace_steps \<equiv> grace_step\<^sup>*\<^sup>*"

inductive_cases grace_stepE: "grace_step g g'"

section \<open>The invariant\<close>

definition unfinished :: "graceTimer list \<Rightarrow> int" where
  "unfinished h = (\<Sum>e \<leftarrow> h. if gt_finished e then 0 else 1)"

text \<open>The part of the invariant that also holds inside the loop of \<open>beginStop\<close>.\<close>

definition grace_core :: "GraceController \<Rightarrow> bool" where
  "grace_core g \<longleftrightarrow>
    mwf (gc_timers g)
    \<and> (\<forall>key p. mget (gc_timers g) key = Some p \<longrightarrow>
         p < length (gc_heap g) \<and> gt_key (timer_at g p) = key \<and> gt_phase (timer_at g p) \<in> {Pending, Fired})
    \<and> (\<forall>p < length (gc_heap g). gt_phase (timer_at g p) = Pending \<longrightarrow> mget (gc_timers g) (gt_key (timer_at g p)) = Some p)
    \<and> (\<forall>p < length (gc_heap g). gt_finished (timer_at g p) \<longleftrightarrow> gt_phase (timer_at g p) \<in> {Stopped, Done})
    \<and> gc_wg g = unfinished (gc_heap g)"

definition grace_inv :: "GraceController \<Rightarrow> bool" where
  "grace_inv g \<longleftrightarrow> grace_core g
    \<and> gc_stopped g = (gc_stopState g \<noteq> None)
    \<and> (gc_stopped g \<longrightarrow> gc_timers g = [])
    \<and> (gc_stopState g = Some True \<longrightarrow> gc_wg g = 0)"

lemma unfinished_update:
  "p < length h \<Longrightarrow> unfinished (h[p := e]) =
    unfinished h + (if gt_finished e then 0 else 1) - (if gt_finished (h ! p) then 0 else 1)"
proof (induction h arbitrary: p)
  case (Cons x h)
  then show ?case
    by (cases p) (simp_all add: unfinished_def)
qed simp

lemma unfinished_append [simp]: "unfinished (h @ [e]) = unfinished h + (if gt_finished e then 0 else 1)"
  by (simp add: unfinished_def)

lemma unfinished_nonneg: "0 \<le> unfinished h"
  by (induction h) (auto simp: unfinished_def)

lemma unfinished_0: "\<forall>e \<in> set h. gt_finished e \<Longrightarrow> unfinished h = 0"
  by (induction h) (simp_all add: unfinished_def)

lemma unfinished_pos: "p < length h \<Longrightarrow> \<not> gt_finished (h ! p) \<Longrightarrow> 0 < unfinished h"
  using unfinished_nonneg [of "h[p := (h ! p)\<lparr>gt_finished := True\<rparr>]"] unfinished_update [of p h "(h ! p)\<lparr>gt_finished := True\<rparr>"]
  by simp

lemma grace_inv_New: "grace_inv NewGraceController"
  by (simp add: grace_inv_def grace_core_def NewGraceController_def map_simps unfinished_def)

lemma grace_coreI:
  assumes "mwf (gc_timers g)"
    and "\<And>key p. mget (gc_timers g) key = Some p \<Longrightarrow>
         p < length (gc_heap g) \<and> gt_key (timer_at g p) = key \<and> gt_phase (timer_at g p) \<in> {Pending, Fired}"
    and "\<And>p. p < length (gc_heap g) \<Longrightarrow> gt_phase (timer_at g p) = Pending \<Longrightarrow> mget (gc_timers g) (gt_key (timer_at g p)) = Some p"
    and "\<And>p. p < length (gc_heap g) \<Longrightarrow> gt_finished (timer_at g p) \<longleftrightarrow> gt_phase (timer_at g p) \<in> {Stopped, Done}"
    and "gc_wg g = unfinished (gc_heap g)"
  shows "grace_core g"
  using assms unfolding grace_core_def by blast

lemma grace_coreD:
  assumes "grace_core g"
  shows "mwf (gc_timers g)"
    and "mget (gc_timers g) key = Some p \<Longrightarrow> p < length (gc_heap g) \<and> gt_key (timer_at g p) = key \<and> gt_phase (timer_at g p) \<in> {Pending, Fired}"
    and "p < length (gc_heap g) \<Longrightarrow> gt_phase (timer_at g p) = Pending \<Longrightarrow> mget (gc_timers g) (gt_key (timer_at g p)) = Some p"
    and "p < length (gc_heap g) \<Longrightarrow> gt_finished (timer_at g p) \<longleftrightarrow> gt_phase (timer_at g p) \<in> {Stopped, Done}"
    and "gc_wg g = unfinished (gc_heap g)"
  using assms unfolding grace_core_def by blast+

lemma core_flags [simp]:
  "grace_core (g\<lparr>gc_stopState := x\<rparr>) = grace_core g" "grace_core (g\<lparr>gc_stopped := b\<rparr>) = grace_core g"
  by (simp_all add: grace_core_def)

lemma core_timer:
  assumes "grace_core g" and "mget (gc_timers g) key = Some p"
  shows "p < length (gc_heap g)" and "gt_key (timer_at g p) = key"
    and "gt_phase (timer_at g p) = Pending \<or> gt_phase (timer_at g p) = Fired" and "\<not> gt_finished (timer_at g p)"
proof -
  show *: "p < length (gc_heap g)" "gt_key (timer_at g p) = key" "gt_phase (timer_at g p) = Pending \<or> gt_phase (timer_at g p) = Fired"
    using assms by (auto simp: grace_core_def)
  then show "\<not> gt_finished (timer_at g p)"
    using assms(1) by (auto simp: grace_core_def)
qed

lemma dropEntry_eq:
  assumes "grace_core g" and "mget (gc_timers g) key = Some p"
  shows "dropEntry key p g =
    (if gt_phase (timer_at g p) = Pending
     then g\<lparr>gc_timers := mdel key (gc_timers g),
            gc_heap := (gc_heap g)[p := (timer_at g p)\<lparr>gt_phase := Stopped, gt_finished := True\<rparr>],
            gc_wg := gc_wg g - 1\<rparr>
     else g\<lparr>gc_timers := mdel key (gc_timers g)\<rparr>)"
  using core_timer [OF assms] by (simp add: dropEntry_def timer_Stop_def set_phase_def timer_finish_def)

text \<open>Rewriting one entry without its key: what the other entries and the map need.\<close>

lemma core_rewrite:
  assumes core: "grace_core g" and p: "p < length (gc_heap g)"
    and e: "gt_key e = gt_key (timer_at g p)" "gt_phase e \<noteq> Pending" "gt_finished e \<longleftrightarrow> gt_phase e \<in> {Stopped, Done}"
    and m: "mwf m" "\<And>k q. mget m k = Some q \<Longrightarrow> mget (gc_timers g) k = Some q \<and> (q = p \<longrightarrow> gt_phase e = Fired)"
      "\<And>q. q < length (gc_heap g) \<Longrightarrow> q \<noteq> p \<Longrightarrow> gt_phase (timer_at g q) = Pending \<Longrightarrow> mget m (gt_key (timer_at g q)) = Some q"
    and w: "w = gc_wg g + (if gt_finished e then 0 else 1) - (if gt_finished (timer_at g p) then 0 else 1)"
  shows "grace_core (g\<lparr>gc_timers := m, gc_heap := (gc_heap g)[p := e], gc_wg := w\<rparr>)"
proof (rule grace_coreI, goal_cases)
  case (2 k q)
  then have "mget (gc_timers g) k = Some q" and "q = p \<longrightarrow> gt_phase e = Fired"
    using m(2) by simp_all
  then show ?case
    using grace_coreD(2) [OF core, of k q] e(1) p by (cases "q = p") auto
next
  case (3 q)
  then show ?case
    using e(2) m(3) p by (auto simp: nth_list_update split: if_splits)
next
  case (4 q)
  then show ?case
    using e(3) grace_coreD(4) [OF core, of q] p by (auto simp: nth_list_update)
qed (use m(1) w p grace_coreD(5) [OF core] in \<open>simp_all add: unfinished_update\<close>)

lemma core_drop:
  assumes core: "grace_core g" and get: "mget (gc_timers g) key = Some p"
  shows "grace_core (dropEntry key p g)"
proof -
  have pend: "mget (mdel key (gc_timers g)) (gt_key (timer_at g q)) = Some q"
    if "q < length (gc_heap g)" "q \<noteq> p" "gt_phase (timer_at g q) = Pending" for q
    using that get grace_coreD(3) [OF core that(1,3)] by (auto simp: map_simps)
  show ?thesis
  proof (cases "gt_phase (timer_at g p) = Pending")
    case True
    have "grace_core (g\<lparr>gc_timers := mdel key (gc_timers g),
        gc_heap := (gc_heap g)[p := (timer_at g p)\<lparr>gt_phase := Stopped, gt_finished := True\<rparr>], gc_wg := gc_wg g - 1\<rparr>)"
    proof (rule core_rewrite [OF core])
      fix k q assume "mget (mdel key (gc_timers g)) k = Some q"
      then have k: "k \<noteq> key" "mget (gc_timers g) k = Some q"
        by (auto simp: map_simps split: if_splits)
      then have "q \<noteq> p"
        using grace_coreD(2) [OF core, of k q] grace_coreD(2) [OF core get] by auto
      then show "mget (gc_timers g) k = Some q \<and> (q = p \<longrightarrow> gt_phase ((timer_at g p)\<lparr>gt_phase := Stopped, gt_finished := True\<rparr>) = Fired)"
        using k by simp
    qed (use core_timer [OF core get] grace_coreD(1) [OF core] pend in auto)
    with True show ?thesis
      by (simp add: dropEntry_eq [OF core get])
  next
    case False
    have "grace_core (g\<lparr>gc_timers := mdel key (gc_timers g), gc_heap := (gc_heap g)[p := timer_at g p], gc_wg := gc_wg g\<rparr>)"
      using False core_timer [OF core get] grace_coreD(1) [OF core] pend grace_coreD(4) [OF core]
      by (intro core_rewrite [OF core]) (auto simp: map_simps split: if_splits)
    with False show ?thesis
      by (simp add: dropEntry_eq [OF core get])
  qed
qed

lemma core_drop_all:
  assumes "grace_core g" and "gc_timers g = kps"
  shows "let g' = foldl (\<lambda>g kp. dropEntry (fst kp) (snd kp) g) g kps in
    grace_core g' \<and> gc_timers g' = [] \<and> gc_stopped g' = gc_stopped g \<and> gc_stopState g' = gc_stopState g
    \<and> length (gc_heap g') = length (gc_heap g)
    \<and> (\<forall>p < length (gc_heap g). gt_key (timer_at g' p) = gt_key (timer_at g p)
         \<and> (gt_phase (timer_at g' p) = gt_phase (timer_at g p) \<or> gt_phase (timer_at g p) = Pending \<and> gt_phase (timer_at g' p) = Stopped))"
  using assms
proof (induction kps arbitrary: g)
  case (Cons kp kps)
  let ?g = "dropEntry (fst kp) (snd kp) g"
  have get: "mget (gc_timers g) (fst kp) = Some (snd kp)"
    using Cons.prems by (cases kp) (simp add: mget_def)
  have "mwf (kp # kps)"
    using Cons.prems by (simp add: grace_core_def)
  then have "mdel (fst kp) (kp # kps) = kps"
    by (cases kp) (force simp: mwf_def mdel_def AList.delete_eq filter_id_conv)
  then have "gc_timers ?g = kps"
    by (simp add: dropEntry_eq [OF Cons.prems(1) get] Cons.prems(2))
  note IH = Cons.IH [OF core_drop [OF Cons.prems(1) get] this, unfolded Let_def]
  have D: "length (gc_heap ?g) = length (gc_heap g)" "gc_stopped ?g = gc_stopped g" "gc_stopState ?g = gc_stopState g"
    "\<And>p. gt_key (timer_at ?g p) = gt_key (timer_at g p)"
    "\<And>p. gt_phase (timer_at ?g p) = gt_phase (timer_at g p) \<or> gt_phase (timer_at g p) = Pending \<and> gt_phase (timer_at ?g p) = Stopped"
    by (auto simp: dropEntry_eq [OF Cons.prems(1) get] nth_update_if)
  let ?g' = "foldl (\<lambda>g kp. dropEntry (fst kp) (snd kp) g) ?g kps"
  have "gt_key (timer_at ?g' p) = gt_key (timer_at g p) \<and>
      (gt_phase (timer_at ?g' p) = gt_phase (timer_at g p) \<or> gt_phase (timer_at g p) = Pending \<and> gt_phase (timer_at ?g' p) = Stopped)"
    if "p < length (gc_heap g)" for p
    using IH D(5) [of p] that by (auto simp: D(1) D(4))
  then show ?case
    using IH by (simp add: Let_def D)
qed simp

subsection \<open>The operations in closed form\<close>

lemma drop_timers: "grace_core g \<Longrightarrow> mget (gc_timers g) key = Some p \<Longrightarrow> gc_timers (dropEntry key p g) = mdel key (gc_timers g)"
  by (simp add: dropEntry_eq)

lemma drop_phase:
  assumes "grace_core g" and "mget (gc_timers g) key = Some p"
  shows "length (gc_heap (dropEntry key p g)) = length (gc_heap g)"
    and "gc_stopped (dropEntry key p g) = gc_stopped g" and "gc_stopState (dropEntry key p g) = gc_stopState g"
    and "gt_key (timer_at (dropEntry key p g) q) = gt_key (timer_at g q)"
    and "gt_phase (timer_at (dropEntry key p g) q) =
      (if q = p \<and> gt_phase (timer_at g p) = Pending then Stopped else gt_phase (timer_at g q))"
  using core_timer [OF assms] by (auto simp: dropEntry_eq [OF assms] nth_update_if)

lemma core_alloc:
  assumes core: "grace_core g" and none: "mget (gc_timers g) key = None"
  shows "grace_core (g\<lparr>gc_nextID := n, gc_wg := gc_wg g + 1,
    gc_heap := gc_heap g @ [\<lparr>gt_id = n, gt_key = key, gt_phase = Pending, gt_finished = False\<rparr>],
    gc_timers := mput key (length (gc_heap g)) (gc_timers g)\<rparr>)"
proof (rule grace_coreI, goal_cases)
  case (2 k q)
  then show ?case
    using grace_coreD(2) [OF core, of k q] by (auto simp: map_simps nth_append split: if_splits)
next
  case (3 q)
  then show ?case
    using grace_coreD(3) [OF core, of q] none by (auto simp: map_simps nth_append split: if_splits)
next
  case (4 q)
  then show ?case
    using grace_coreD(4) [OF core, of q] by (auto simp: nth_append split: if_splits)
qed (use grace_coreD(1,5) [OF core] in auto)

lemma dead_finish:
  assumes "grace_core g" and "p < length (gc_heap g)" and "gt_phase (timer_at g p) \<in> {Fired, Running}"
  shows "timer_finish p (set_phase p Done g) =
    g\<lparr>gc_heap := (gc_heap g)[p := (timer_at g p)\<lparr>gt_phase := Done, gt_finished := True\<rparr>], gc_wg := gc_wg g - 1\<rparr>"
  using assms grace_coreD(4) [OF assms(1,2)] by (auto simp: timer_finish_def set_phase_def)

lemma core_dead_finish:
  assumes core: "grace_core g" and p: "p < length (gc_heap g)" "gt_phase (timer_at g p) \<in> {Fired, Running}"
    and out: "mget (gc_timers g) (gt_key (timer_at g p)) \<noteq> Some p"
  shows "grace_core (timer_finish p (set_phase p Done g))"
proof -
  have notin: "q \<noteq> p" if "mget (gc_timers g) k = Some q" for k q
    using grace_coreD(2) [OF core that] out that by auto
  have "grace_core (g\<lparr>gc_timers := gc_timers g,
      gc_heap := (gc_heap g)[p := (timer_at g p)\<lparr>gt_phase := Done, gt_finished := True\<rparr>], gc_wg := gc_wg g - 1\<rparr>)"
    using p notin grace_coreD(4) [OF core p(1)] grace_coreD(1) [OF core] grace_coreD(3) [OF core]
    by (intro core_rewrite [OF core p(1)]) auto
  then show ?thesis
    by (simp add: dead_finish [OF core p])
qed

lemma core_enter_run:
  assumes core: "grace_core g" and p: "p < length (gc_heap g)" "gt_phase (timer_at g p) = Fired"
    and get: "mget (gc_timers g) (gt_key (timer_at g p)) = Some p"
  shows "grace_core (set_phase p Running (g\<lparr>gc_timers := mdel (gt_key (timer_at g p)) (gc_timers g)\<rparr>))"
proof -
  have notin: "q \<noteq> p" if "mget (gc_timers g) k = Some q" "k \<noteq> gt_key (timer_at g p)" for k q
    using grace_coreD(2) [OF core that(1)] that(2) by auto
  have pend: "gt_key (timer_at g q) \<noteq> gt_key (timer_at g p)" if "q < length (gc_heap g)" "q \<noteq> p" "gt_phase (timer_at g q) = Pending" for q
    using grace_coreD(3) [OF core that(1,3)] get that(2) by auto
  have "grace_core (g\<lparr>gc_timers := mdel (gt_key (timer_at g p)) (gc_timers g),
      gc_heap := (gc_heap g)[p := (timer_at g p)\<lparr>gt_phase := Running\<rparr>], gc_wg := gc_wg g\<rparr>)"
    using p notin pend grace_coreD(4) [OF core p(1)] grace_coreD(1) [OF core] grace_coreD(3) [OF core]
    by (intro core_rewrite [OF core p(1)]) (auto simp: map_simps split: if_splits)
  then show ?thesis
    by (simp add: set_phase_def)
qed

lemma core_fire:
  assumes core: "grace_core g" and p: "p < length (gc_heap g)" "gt_phase (timer_at g p) = Pending"
  shows "grace_core (set_phase p Fired g)"
proof -
  have "grace_core (g\<lparr>gc_timers := gc_timers g, gc_heap := (gc_heap g)[p := (timer_at g p)\<lparr>gt_phase := Fired\<rparr>], gc_wg := gc_wg g\<rparr>)"
    using p grace_coreD(4) [OF core p(1)] grace_coreD(1) [OF core] grace_coreD(3) [OF core]
    by (intro core_rewrite [OF core p(1)]) auto
  then show ?thesis
    by (simp add: set_phase_def)
qed

subsection \<open>Steps\<close>

text \<open>
  How one step may change the entries that exist: an entry never re-enters the map, and it only
  starts to run from the fired phase, while it is the entry of its key and nothing is stopped.
\<close>

definition evolves :: "GraceController \<Rightarrow> GraceController \<Rightarrow> bool" where
  "evolves g g' \<longleftrightarrow> length (gc_heap g) \<le> length (gc_heap g') \<and> (gc_stopped g \<longrightarrow> gc_stopped g')
    \<and> (gc_stopState g = Some True \<longrightarrow> gc_stopState g' = Some True)
    \<and> (\<forall>p < length (gc_heap g).
         gt_key (timer_at g' p) = gt_key (timer_at g p)
         \<and> (mget (gc_timers g') (gt_key (timer_at g p)) = Some p \<longrightarrow> mget (gc_timers g) (gt_key (timer_at g p)) = Some p)
         \<and> (gt_phase (timer_at g p) \<in> {Stopped, Done} \<longrightarrow> gt_phase (timer_at g' p) \<in> {Stopped, Done})
         \<and> (gt_phase (timer_at g p) = Running \<longrightarrow> gt_phase (timer_at g' p) \<in> {Running, Done})
         \<and> (gt_phase (timer_at g p) = Fired \<longrightarrow> gt_phase (timer_at g' p) \<in> {Fired, Done}
              \<or> mget (gc_timers g) (gt_key (timer_at g p)) = Some p \<and> \<not> gc_stopped g)
         \<and> (gt_phase (timer_at g p) = Pending \<longrightarrow> gt_phase (timer_at g' p) \<in> {Pending, Fired, Stopped}))"

lemma evolves_refl [simp]: "evolves g g"
  by (simp add: evolves_def)

lemma evolves_update:
  assumes "gt_key e = gt_key (timer_at g p)" and "\<And>k q. mget m k = Some q \<Longrightarrow> mget (gc_timers g) k = Some q"
    and "case gt_phase (timer_at g p) of
        Pending \<Rightarrow> gt_phase e \<in> {Pending, Fired, Stopped}
      | Fired \<Rightarrow> gt_phase e \<in> {Fired, Done} \<or> mget (gc_timers g) (gt_key (timer_at g p)) = Some p \<and> \<not> gc_stopped g
      | Running \<Rightarrow> gt_phase e \<in> {Running, Done}
      | _ \<Rightarrow> gt_phase e \<in> {Stopped, Done}"
  shows "evolves g (g\<lparr>gc_timers := m, gc_heap := (gc_heap g)[p := e], gc_wg := w\<rparr>)"
proof -
  let ?g = "g\<lparr>gc_timers := m, gc_heap := (gc_heap g)[p := e], gc_wg := w\<rparr>"
  have "gt_key (timer_at ?g q) = gt_key (timer_at g q)" for q
    using assms(1) by (simp add: nth_update_if)
  moreover have "gt_phase (timer_at ?g q) = gt_phase (timer_at g q) \<or> q = p \<and> gt_phase (timer_at ?g q) = gt_phase e" for q
    by (simp add: nth_update_if)
  ultimately show ?thesis
    using assms(2,3) unfolding evolves_def by (auto split: phase.splits) (metis phase.distinct)+
qed

lemma evolves_drop:
  assumes "grace_core g" and "mget (gc_timers g) key = Some p"
  shows "evolves g (dropEntry key p g)"
  using assms by (auto simp: evolves_def drop_phase drop_timers map_simps)

lemma schedule_step:
  assumes "grace_inv g"
  shows "grace_inv (Schedule key g) \<and> evolves g (Schedule key g)"
proof (cases "gc_stopped g")
  case True
  then show ?thesis
    using assms by (simp add: Schedule_def)
next
  case False
  have core: "grace_core g" and st: "gc_stopState g = None"
    using assms False by (auto simp: grace_inv_def)
  define h where "h = (case mget (gc_timers g) key of Some p \<Rightarrow> dropEntry key p g | None \<Rightarrow> g)"
  have h: "grace_core h" "mget (gc_timers h) key = None" "gc_stopped h = gc_stopped g" "gc_stopState h = gc_stopState g"
    "length (gc_heap h) = length (gc_heap g)" "evolves g h"
    using core by (auto simp: h_def core_drop drop_phase drop_timers map_simps evolves_drop split: option.splits)
  have S: "Schedule key g = h\<lparr>gc_nextID := (gc_nextID h + 1) mod 2 ^ 64, gc_wg := gc_wg h + 1,
      gc_heap := gc_heap h @ [\<lparr>gt_id = (gc_nextID h + 1) mod 2 ^ 64, gt_key = key, gt_phase = Pending, gt_finished = False\<rparr>],
      gc_timers := mput key (length (gc_heap h)) (gc_timers h)\<rparr>"
    using False by (simp add: Schedule_def Let_def h_def)
  have "grace_inv (Schedule key g)"
    using core_alloc [OF h(1,2)] False st h(3,4) by (simp add: grace_inv_def S)
  moreover have "evolves g (Schedule key g)"
    using h(5,6) False st by (auto simp: evolves_def S nth_append map_simps)
  ultimately show ?thesis ..
qed

lemma cancel_step:
  assumes "grace_inv g"
  shows "grace_inv (Cancel key g) \<and> evolves g (Cancel key g)"
proof (cases "mget (gc_timers g) key")
  case None
  then show ?thesis
    using assms by (simp add: Cancel_def)
next
  case (Some p)
  have core: "grace_core g" and st: "\<not> gc_stopped g" "gc_stopState g = None"
    using assms Some by (auto simp: grace_inv_def mget_Nil)
  then show ?thesis
    using Some core_drop [OF core Some] evolves_drop [OF core Some]
    by (simp add: Cancel_def grace_inv_def drop_phase [OF core Some])
qed

lemma stop_step:
  assumes "grace_inv g"
  shows "grace_inv (beginStop g) \<and> evolves g (beginStop g) \<and> gc_stopped (beginStop g)"
proof (cases "gc_stopState g")
  case None
  let ?s = "g\<lparr>gc_stopped := True, gc_stopState := Some False\<rparr>"
  have "grace_core ?s"
    using assms by (simp add: grace_inv_def)
  note D = core_drop_all [OF this, of "gc_timers g", simplified, unfolded Let_def]
  then show ?thesis
    using None by (auto simp: beginStop_def grace_inv_def evolves_def mget_Nil)
next
  case (Some b)
  then show ?thesis
    using assms by (auto simp: beginStop_def grace_inv_def)
qed

lemma fire_step:
  assumes "grace_inv g" and "p < length (gc_heap g)" and "gt_phase (timer_at g p) = Pending"
  shows "grace_inv (set_phase p Fired g) \<and> evolves g (set_phase p Fired g)"
  using assms core_fire [of g p]
  by (auto simp: grace_inv_def evolves_def set_phase_def nth_update_if)

lemma leave_step:
  assumes "grace_inv g" and "p < length (gc_heap g)" and "gt_phase (timer_at g p) = Running"
  shows "grace_inv (timer_leave p g) \<and> evolves g (timer_leave p g) \<and> gc_wg (timer_leave p g) = gc_wg g - 1 \<and> gc_stopState (timer_leave p g) = gc_stopState g"
proof -
  have core: "grace_core g"
    using assms(1) by (simp add: grace_inv_def)
  have "mget (gc_timers g) (gt_key (timer_at g p)) \<noteq> Some p"
    using grace_coreD(2) [OF core, of "gt_key (timer_at g p)" p] assms(3) by auto
  moreover have "gc_wg g \<noteq> 0"
    using unfinished_pos [OF assms(2)] grace_coreD(4) [OF core assms(2)] grace_coreD(5) [OF core] assms(3) by auto
  ultimately show ?thesis
    using assms core_dead_finish [OF core assms(2)] dead_finish [OF core assms(2)]
    by (auto simp: timer_leave_def grace_inv_def evolves_def nth_update_if)
qed

lemma enter_step:
  assumes inv: "grace_inv g" and p: "p < length (gc_heap g)" "gt_phase (timer_at g p) = Fired"
  shows "grace_inv (timer_enter p g) \<and> evolves g (timer_enter p g) \<and>
    (gc_stopped g \<longrightarrow> gc_wg (timer_enter p g) = gc_wg g - 1 \<and> gc_stopState (timer_enter p g) = gc_stopState g)"
proof -
  have core: "grace_core g"
    using inv by (simp add: grace_inv_def)
  have pos: "gc_wg g \<noteq> 0"
    using unfinished_pos [OF p(1)] grace_coreD(4) [OF core p(1)] grace_coreD(5) [OF core] p(2) by auto
  show ?thesis
  proof (cases "gc_stopped g \<or> mget (gc_timers g) (gt_key (timer_at g p)) \<noteq> Some p")
    case True
    then have out: "mget (gc_timers g) (gt_key (timer_at g p)) \<noteq> Some p"
      using inv by (auto simp: grace_inv_def mget_Nil)
    then have "timer_enter p g = timer_finish p (set_phase p Done g)"
      by (auto simp: timer_enter_def Let_def)
    moreover have "gt_phase (timer_at g p) \<in> {Fired, Running}"
      using p(2) by simp
    ultimately show ?thesis
      using inv p pos core_dead_finish [OF core p(1) _ out] dead_finish [OF core p(1)]
      by (auto simp: grace_inv_def evolves_def nth_update_if)
  next
    case False
    then have get: "mget (gc_timers g) (gt_key (timer_at g p)) = Some p" and st: "\<not> gc_stopped g" "gc_stopState g = None"
      using inv by (auto simp: grace_inv_def)
    let ?g = "set_phase p Running (g\<lparr>gc_timers := mdel (gt_key (timer_at g p)) (gc_timers g)\<rparr>)"
    have E: "timer_enter p g = ?g"
      using get st by (simp add: timer_enter_def Let_def)
    have "grace_inv ?g"
      using core_enter_run [OF core p get] st by (simp add: grace_inv_def set_phase_def)
    moreover have "mget (gc_timers g) k = Some q" if "mget (mdel (gt_key (timer_at g p)) (gc_timers g)) k = Some q" for k q
      using that by (simp add: mget_mdel split: if_splits)
    then have "evolves g ?g"
      using evolves_update [of "(timer_at g p)\<lparr>gt_phase := Running\<rparr>" g p "mdel (gt_key (timer_at g p)) (gc_timers g)" "gc_wg g"] p st get
      by (simp add: set_phase_def)
    ultimately show ?thesis
      using st by (simp add: E)
  qed
qed

lemma grace_step_preserves:
  assumes "grace_step g g'" and "grace_inv g"
  shows "grace_inv g' \<and> evolves g g'"
  using assms(1)
proof (cases rule: grace_step.cases)
  case step_close
  then show ?thesis
    using assms(2) by (simp add: grace_inv_def evolves_def)
qed (simp_all add: assms(2) schedule_step cancel_step stop_step fire_step enter_step leave_step)

text \<open>An entry that can no longer start.\<close>

definition timer_dead :: "GraceController \<Rightarrow> nat \<Rightarrow> bool" where
  "timer_dead g p \<longleftrightarrow> p < length (gc_heap g)
    \<and> (gt_phase (timer_at g p) \<in> {Stopped, Done}
       \<or> gt_phase (timer_at g p) = Fired \<and> (mget (gc_timers g) (gt_key (timer_at g p)) \<noteq> Some p \<or> gc_stopped g))"

lemma dead_step: "grace_inv g \<Longrightarrow> evolves g g' \<Longrightarrow> timer_dead g p \<Longrightarrow> timer_dead g' p"
  unfolding timer_dead_def evolves_def by (auto dest!: spec [of _ p])

lemma grace_steps_preserve:
  assumes "grace_steps g g'" and "grace_inv g"
  shows "grace_inv g' \<and> (timer_dead g p \<longrightarrow> timer_dead g' p) \<and> (gc_stopState g = Some True \<longrightarrow> gc_stopState g' = Some True)"
  using assms
proof (induction rule: rtranclp_induct)
  case (step y z)
  then have "grace_inv z" and "evolves y z"
    using grace_step_preserves by auto
  with step show ?case
    using dead_step [of y z p] by (auto simp: evolves_def)
qed simp

lemma removed_dead:
  assumes "grace_core g" and "p < length (gc_heap g)" and "gt_phase (timer_at g p) \<noteq> Running"
    and "mget (gc_timers g) (gt_key (timer_at g p)) \<noteq> Some p"
  shows "timer_dead g p"
  using assms grace_coreD(3) [OF assms(1,2)] by (cases "gt_phase (timer_at g p)") (auto simp: timer_dead_def)

text \<open>A cancel, a new schedule and a stop leave no older entry of the key able to start.\<close>

lemma cancel_dead:
  assumes inv: "grace_inv g" and p: "p < length (gc_heap g)" "gt_phase (timer_at g p) \<noteq> Running"
  shows "timer_dead (Cancel (gt_key (timer_at g p)) g) p"
proof (cases "mget (gc_timers g) (gt_key (timer_at g p))")
  case None
  then show ?thesis
    using removed_dead [OF _ p] inv by (simp add: Cancel_def grace_inv_def)
next
  case (Some q)
  have core: "grace_core g"
    using inv by (simp add: grace_inv_def)
  show ?thesis
    using removed_dead [OF core_drop [OF core Some], of p] p Some
    by (simp add: Cancel_def drop_phase [OF core Some] drop_timers [OF core Some] map_simps)
qed

lemma schedule_dead:
  assumes inv: "grace_inv g" and p: "p < length (gc_heap g)" "gt_phase (timer_at g p) \<noteq> Running"
  shows "timer_dead (Schedule (gt_key (timer_at g p)) g) p"
proof (cases "gc_stopped g")
  case True
  then have "timer_dead g p"
    using removed_dead [OF _ p] inv by (simp add: grace_inv_def mget_Nil)
  with True show ?thesis
    by (simp add: Schedule_def)
next
  case False
  let ?k = "gt_key (timer_at g p)"
  have c: "timer_dead (Cancel ?k g) p" and len: "length (gc_heap (Cancel ?k g)) = length (gc_heap g)"
    using cancel_dead [OF inv p] inv drop_phase(1) by (auto simp: Cancel_def grace_inv_def split: option.splits)
  have "Schedule ?k g = (let h = Cancel ?k g; n = (gc_nextID h + 1) mod 2 ^ 64 in
      h\<lparr>gc_nextID := n, gc_wg := gc_wg h + 1, gc_heap := gc_heap h @ [\<lparr>gt_id = n, gt_key = ?k, gt_phase = Pending, gt_finished = False\<rparr>],
        gc_timers := mput ?k (length (gc_heap h)) (gc_timers h)\<rparr>)"
    using False by (simp add: Schedule_def Cancel_def Let_def)
  then show ?thesis
    using c len p(1) by (auto simp: timer_dead_def Let_def nth_append map_simps)
qed

lemma stop_dead:
  assumes inv: "grace_inv g" and p: "p < length (gc_heap g)" "gt_phase (timer_at g p) \<noteq> Running"
  shows "timer_dead (beginStop g) p"
proof -
  have s: "grace_inv (beginStop g)" "evolves g (beginStop g)" "gc_stopped (beginStop g)"
    using stop_step [OF inv] by simp_all
  then have t: "gc_timers (beginStop g) = []"
    by (simp add: grace_inv_def)
  have ph: "gt_phase (timer_at (beginStop g) p) \<noteq> Running"
  proof (cases "gc_stopState g")
    case None
    let ?s = "g\<lparr>gc_stopped := True, gc_stopState := Some False\<rparr>"
    have "grace_core ?s"
      using inv by (simp add: grace_inv_def)
    from core_drop_all [OF this, of "gc_timers g", simplified, unfolded Let_def] None p show ?thesis
      by (auto simp: beginStop_def)
  next
    case (Some b)
    then show ?thesis
      using p by (simp add: beginStop_def)
  qed
  then show ?thesis
    using s t p by (intro removed_dead) (auto simp: grace_inv_def evolves_def mget_Nil)
qed

lemma reach_inv: "grace_steps NewGraceController g \<Longrightarrow> grace_inv g"
  using grace_steps_preserve [OF _ grace_inv_New] by blast

lemma all_finished:
  assumes inv: "grace_inv g" and "gc_wg g = 0" and p: "p < length (gc_heap g)"
  shows "gt_phase (timer_at g p) \<in> {Stopped, Done}"
proof -
  have core: "grace_core g"
    using inv by (simp add: grace_inv_def)
  have "gt_finished (timer_at g p)"
    using unfinished_pos [OF p] grace_coreD(5) [OF core] assms(2) by force
  then show ?thesis
    using grace_coreD(4) [OF core p] by simp
qed

text \<open>A stopped controller with work left has a goroutine that can take a step towards the end.\<close>

lemma stopping_progress:
  assumes inv: "grace_inv g" and "gc_stopState g = Some False" and "gc_wg g \<noteq> 0"
  shows "\<exists>g'. grace_step g g' \<and> grace_inv g' \<and> gc_stopState g' = Some False \<and> gc_wg g' = gc_wg g - 1"
proof -
  have core: "grace_core g" and st: "gc_stopped g" and t: "gc_timers g = []"
    using inv assms(2) by (auto simp: grace_inv_def)
  have "\<exists>p < length (gc_heap g). \<not> gt_finished (timer_at g p)"
  proof (rule ccontr)
    assume "\<not> ?thesis"
    then have "unfinished (gc_heap g) = 0"
      by (intro unfinished_0) (auto simp: all_set_conv_all_nth)
    then show False
      using assms(3) grace_coreD(5) [OF core] by simp
  qed
  then obtain p where p: "p < length (gc_heap g)" and "\<not> gt_finished (timer_at g p)"
    by blast
  then have "gt_phase (timer_at g p) \<notin> {Stopped, Done}"
    using grace_coreD(4) [OF core p] by simp
  moreover have "gt_phase (timer_at g p) \<noteq> Pending"
    using grace_coreD(3) [OF core p] t by (auto simp: mget_Nil)
  ultimately consider "gt_phase (timer_at g p) = Fired" | "gt_phase (timer_at g p) = Running"
    by (cases "gt_phase (timer_at g p)") auto
  then show ?thesis
  proof cases
    case 1
    then show ?thesis
      using enter_step [OF inv p 1] step_enter [OF p 1] st assms(2) by auto
  next
    case 2
    then show ?thesis
      using leave_step [OF inv p 2] step_leave [OF p 2] assms(2) by auto
  qed
qed

lemma stopping_terminates:
  assumes "grace_inv g" and "gc_stopState g = Some False"
  shows "\<exists>g'. grace_steps g g' \<and> gc_stopState g' = Some True"
  using assms
proof (induction "nat (gc_wg g)" arbitrary: g)
  case 0
  have "0 \<le> gc_wg g"
    using 0(2) unfinished_nonneg by (simp add: grace_inv_def grace_coreD(5))
  with 0 have "grace_step g (g\<lparr>gc_stopState := Some True\<rparr>)"
    by (intro step_close) auto
  then show ?case
    by (intro exI [of _ "g\<lparr>gc_stopState := Some True\<rparr>"]) auto
next
  case (Suc n)
  then have "gc_wg g \<noteq> 0"
    by auto
  then obtain g1 where g1: "grace_step g g1" "grace_inv g1" "gc_stopState g1 = Some False" "gc_wg g1 = gc_wg g - 1"
    using stopping_progress Suc.prems by blast
  then have "n = nat (gc_wg g1)"
    using Suc.hyps(2) by simp
  then show ?case
    using Suc.hyps(1) [OF _ g1(2,3)] g1(1) by (meson converse_rtranclp_into_rtranclp)
qed

section \<open>Properties\<close>

text \<open>
  C22: a disconnect that was cancelled, replaced by a newer one for the same key, or pending when the
  controller was stopped, never runs afterwards, even if its timer had fired already.
\<close>

theorem cancelled_never_runs:
  assumes "grace_steps NewGraceController g" and "p < length (gc_heap g)" and "gt_phase (timer_at g p) \<noteq> Running"
    and "g1 \<in> {Cancel (gt_key (timer_at g p)) g, Schedule (gt_key (timer_at g p)) g, beginStop g}" and "grace_steps g1 g2"
  shows "gt_phase (timer_at g2 p) \<noteq> Running"
proof -
  have inv: "grace_inv g"
    using reach_inv assms(1) .
  have "timer_dead g1 p" and "grace_inv g1"
    using assms(2-4) cancel_dead [OF inv] schedule_dead [OF inv] stop_dead [OF inv]
      cancel_step [OF inv] schedule_step [OF inv] stop_step [OF inv] by auto
  then have "timer_dead g2 p"
    using grace_steps_preserve [OF assms(5)] by blast
  then show ?thesis
    by (auto simp: timer_dead_def)
qed

theorem cancelled_never_runs_witness:
  "gt_phase (timer_at (timer_enter 0 (Cancel ''w'' (set_phase 0 Fired (Schedule ''w'' NewGraceController)))) 0) \<noteq> Running"
proof (rule cancelled_never_runs)
  let ?s = "Schedule ''w'' NewGraceController"
  let ?g = "set_phase 0 Fired ?s"
  have s: "gc_heap ?s = [\<lparr>gt_id = 1, gt_key = ''w'', gt_phase = Pending, gt_finished = False\<rparr>]"
    by (simp add: Schedule_def NewGraceController_def map_simps)
  show "grace_steps NewGraceController ?g"
    using step_schedule [of NewGraceController "''w''"] step_fire [of 0 ?s]
    by (simp add: s rtranclp.rtrancl_into_rtrancl)
  show "0 < length (gc_heap ?g)" and "gt_phase (timer_at ?g 0) \<noteq> Running"
    by (simp_all add: set_phase_def s)
  show "Cancel ''w'' ?g \<in> {Cancel (gt_key (timer_at ?g 0)) ?g, Schedule (gt_key (timer_at ?g 0)) ?g, beginStop ?g}"
    by (simp add: set_phase_def s)
  have "gc_heap (Cancel ''w'' ?g) = [\<lparr>gt_id = 1, gt_key = ''w'', gt_phase = Fired, gt_finished = False\<rparr>]"
    by code_simp
  then show "grace_steps (Cancel ''w'' ?g) (timer_enter 0 (Cancel ''w'' ?g))"
    by (intro r_into_rtranclp step_enter) simp_all
qed

text \<open>
  C23: the stop returns only when no callback is running or able to run, and none ever starts again:
  once its channel is closed, every entry is stopped or done, in every later state.
\<close>

theorem stop_waits:
  assumes "grace_steps NewGraceController g" and "gc_stopState g = Some True" and "grace_steps g g'"
    and "p < length (gc_heap g')"
  shows "gt_phase (timer_at g' p) \<in> {Stopped, Done} \<and> gc_stopState g' = Some True"
proof -
  have inv: "grace_inv g" and "grace_inv g'" and "gc_stopState g' = Some True"
    using reach_inv [OF assms(1)] grace_steps_preserve [OF assms(3)] assms(2) by auto
  then show ?thesis
    using all_finished [OF _ _ assms(4)] by (simp add: grace_inv_def)
qed

text \<open>
  C24: the stop returns: from every reachable state, once it has begun, the remaining goroutines can run
  to their end and close its channel, whatever was scheduled before.
\<close>

theorem stop_returns:
  assumes "grace_steps NewGraceController g"
  shows "\<exists>g'. grace_steps (beginStop g) g' \<and> gc_stopState g' = Some True"
proof -
  have "grace_inv (beginStop g)" and "gc_stopped (beginStop g)"
    using stop_step [OF reach_inv [OF assms]] by simp_all
  then obtain b where "gc_stopState (beginStop g) = Some b"
    by (auto simp: grace_inv_def)
  then show ?thesis
    using stopping_terminates [OF \<open>grace_inv (beginStop g)\<close>] by (cases b) auto
qed

theorem stop_returns_witness: "\<exists>g'. grace_steps (beginStop NewGraceController) g' \<and> gc_stopState g' = Some True"
  by (rule stop_returns) simp

theorem stop_waits_witness:
  "gt_phase (timer_at ((beginStop (Schedule ''w'' NewGraceController))\<lparr>gc_stopState := Some True\<rparr>) 0) \<in> {Stopped, Done}"
proof -
  let ?s = "Schedule ''w'' NewGraceController"
  let ?g = "(beginStop ?s)\<lparr>gc_stopState := Some True\<rparr>"
  have b: "gc_stopState (beginStop ?s) = Some False \<and> gc_wg (beginStop ?s) = 0 \<and> length (gc_heap (beginStop ?s)) = 1"
    by code_simp
  have "grace_steps NewGraceController (beginStop ?s)"
    using step_schedule step_stop by (rule rtranclp.rtrancl_into_rtrancl [OF r_into_rtranclp])
  moreover have "grace_step (beginStop ?s) ?g"
    using b by (intro step_close) simp_all
  ultimately have "grace_steps NewGraceController ?g"
    by (rule rtranclp.rtrancl_into_rtrancl)
  then show ?thesis
    using stop_waits [of ?g ?g 0] b by simp
qed

end
