(* ===== verification/Audit_Outbox.thy ===== *)
theory Audit_Outbox
  imports Go_Strings "HOL-Library.Product_Lexorder"
begin

text \<open>
  The durable audit outbox: the table operations of \<open>internal/store/audit_outbox.go\<close> with the
  constraints of migration \<open>00028\<close>, and the dispatcher that delivers events to a sink,
  \<open>internal/audit/outbox_dispatcher.go\<close>. A SQL statement is one atomic step on the table; rows
  locked by statements in flight are skipped by a claim, so the locked ones are an argument. UUID
  parsing is a third-party library and the sink is outside the repository: both are arguments.
\<close>

section \<open>Data\<close>

text \<open>A time with its location: whether it is in UTC.\<close>

type_synonym ztime = "gotime \<times> bool"

record AuditEvent =
  ev_EventID :: string
  ev_OccurredAt :: ztime
  ev_Action :: string
  ev_UserID :: string
  ev_Email :: string
  ev_Resource :: string
  ev_ResourceID :: string
  ev_Detail :: string

record PendingAuditEvent =
  pe_Event :: AuditEvent
  pe_AttemptCount :: int
  pe_ClaimToken :: string
  pe_LeaseUntil :: gotime

record outbox_row =
  ob_Event :: AuditEvent
  ob_AttemptCount :: int
  ob_NextAttemptAt :: gotime
  ob_ClaimToken :: "string option"
  ob_LeaseUntil :: "gotime option"
  ob_DeliveredAt :: "gotime option"

type_synonym outbox = "outbox_row list"

definition ob_id :: "outbox_row \<Rightarrow> string" where
  "ob_id r = ev_EventID (ob_Event r)"

datatype store_error = InvalidArgument string | StoreFailure

section \<open>Validation\<close>

text \<open>\<open>uuid.Parse\<close> followed by \<open>String()\<close>, as one partial function.\<close>

type_synonym uuid_parser = "string \<Rightarrow> string option"

definition isCanonicalUUID :: "uuid_parser \<Rightarrow> string \<Rightarrow> bool" where
  "isCanonicalUUID parse v = (case parse v of None \<Rightarrow> False | Some p \<Rightarrow> p = v)"

definition validateUTCTime :: "string \<Rightarrow> ztime \<Rightarrow> store_error option" where
  "validateUTCTime name v =
    (if timeIsZero (fst v) then Some (InvalidArgument (name @ '' must not be zero''))
     else if \<not> snd v then Some (InvalidArgument (name @ '' must use UTC''))
     else None)"

definition validateOutboxCompletion :: "uuid_parser \<Rightarrow> string \<Rightarrow> string \<Rightarrow> ztime \<Rightarrow> store_error option" where
  "validateOutboxCompletion parse eventID claimToken completedAt =
    (if \<not> isCanonicalUUID parse eventID then Some (InvalidArgument ''event_id must be a canonical UUID'')
     else if \<not> isCanonicalUUID parse claimToken then Some (InvalidArgument ''claim_token must be a canonical UUID'')
     else validateUTCTime ''completed_at'' completedAt)"

section \<open>The table\<close>

definition claimable :: "gotime \<Rightarrow> outbox_row \<Rightarrow> bool" where
  "claimable now r \<longleftrightarrow>
    ob_DeliveredAt r = None \<and> ob_NextAttemptAt r \<le> now
    \<and> (ob_ClaimToken r = None \<or> (case ob_LeaseUntil r of None \<Rightarrow> False | Some l \<Rightarrow> l \<le> now))"

definition claim_key :: "outbox_row \<Rightarrow> gotime \<times> gotime \<times> string" where
  "claim_key r = (ob_NextAttemptAt r, fst (ev_OccurredAt (ob_Event r)), ob_id r)"

definition update_row :: "string \<Rightarrow> (outbox_row \<Rightarrow> outbox_row) \<Rightarrow> outbox \<Rightarrow> outbox" where
  "update_row eid f tab = map (\<lambda>r. if ob_id r = eid then f r else r) tab"

text \<open>
  The statement of the claim. \<open>attempt_count\<close> is a 32-bit column, so its increment fails at the
  end of the range.
\<close>

definition ClaimAuditOutboxEvent ::
    "uuid_parser \<Rightarrow> (string \<Rightarrow> bool) \<Rightarrow> string \<Rightarrow> ztime \<Rightarrow> ztime \<Rightarrow> outbox \<Rightarrow> (store_error + PendingAuditEvent option) \<times> outbox" where
  "ClaimAuditOutboxEvent parse locked claimToken now leaseUntil tab =
    (if \<not> isCanonicalUUID parse claimToken then (Inl (InvalidArgument ''claim token must be a canonical UUID''), tab)
     else case validateUTCTime ''now'' now of Some e \<Rightarrow> (Inl e, tab) | None \<Rightarrow>
     case validateUTCTime ''lease_until'' leaseUntil of Some e \<Rightarrow> (Inl e, tab) | None \<Rightarrow>
     if \<not> fst leaseUntil > fst now then (Inl (InvalidArgument ''lease_until must be after now''), tab)
     else case sort_key claim_key (filter (\<lambda>r. claimable (fst now) r \<and> \<not> locked (ob_id r)) tab) of
       [] \<Rightarrow> (Inr None, tab)
     | r # _ \<Rightarrow>
         if ob_AttemptCount r + 1 > 2147483647 then (Inl StoreFailure, tab)
         else
           (Inr (Some \<lparr>pe_Event = (ob_Event r)\<lparr>ev_OccurredAt := (fst (ev_OccurredAt (ob_Event r)), True)\<rparr>,
                      pe_AttemptCount = ob_AttemptCount r + 1, pe_ClaimToken = claimToken, pe_LeaseUntil = fst leaseUntil\<rparr>),
            update_row (ob_id r)
              (\<lambda>r. r\<lparr>ob_ClaimToken := Some claimToken, ob_LeaseUntil := Some (fst leaseUntil), ob_AttemptCount := ob_AttemptCount r + 1\<rparr>) tab))"

text \<open>The \<open>WHERE\<close> clause of the two completions.\<close>

definition holds_claim :: "string \<Rightarrow> string \<Rightarrow> gotime \<Rightarrow> outbox_row \<Rightarrow> bool" where
  "holds_claim eventID claimToken completedAt r \<longleftrightarrow>
    ob_id r = eventID \<and> ob_ClaimToken r = Some claimToken
    \<and> (case ob_LeaseUntil r of None \<Rightarrow> False | Some l \<Rightarrow> completedAt < l) \<and> ob_DeliveredAt r = None"

definition exactlyOneRowAffected :: "nat \<Rightarrow> bool" where
  "exactlyOneRowAffected rows = (rows = 1)"

definition complete_rows :: "(outbox_row \<Rightarrow> bool) \<Rightarrow> (outbox_row \<Rightarrow> outbox_row) \<Rightarrow> outbox \<Rightarrow> bool \<times> outbox" where
  "complete_rows P f tab = (exactlyOneRowAffected (length (filter P tab)), map (\<lambda>r. if P r then f r else r) tab)"

definition MarkAuditOutboxEventDelivered ::
    "uuid_parser \<Rightarrow> string \<Rightarrow> string \<Rightarrow> ztime \<Rightarrow> outbox \<Rightarrow> (store_error + bool) \<times> outbox" where
  "MarkAuditOutboxEventDelivered parse eventID claimToken completedAt tab =
    (case validateOutboxCompletion parse eventID claimToken completedAt of
       Some e \<Rightarrow> (Inl e, tab)
     | None \<Rightarrow>
         (case complete_rows (holds_claim eventID claimToken (fst completedAt))
                 (\<lambda>r. r\<lparr>ob_DeliveredAt := Some (fst completedAt), ob_ClaimToken := None, ob_LeaseUntil := None\<rparr>) tab of
            (ok, tab') \<Rightarrow> (Inr ok, tab')))"

definition RescheduleAuditOutboxEvent ::
    "uuid_parser \<Rightarrow> string \<Rightarrow> string \<Rightarrow> ztime \<Rightarrow> ztime \<Rightarrow> outbox \<Rightarrow> (store_error + bool) \<times> outbox" where
  "RescheduleAuditOutboxEvent parse eventID claimToken completedAt nextAttemptAt tab =
    (case validateOutboxCompletion parse eventID claimToken completedAt of
       Some e \<Rightarrow> (Inl e, tab)
     | None \<Rightarrow>
         (case validateUTCTime ''next_attempt_at'' nextAttemptAt of
            Some e \<Rightarrow> (Inl e, tab)
          | None \<Rightarrow>
              if fst nextAttemptAt < fst completedAt
              then (Inl (InvalidArgument ''next_attempt_at must not precede completed_at''), tab)
              else (case complete_rows (holds_claim eventID claimToken (fst completedAt))
                      (\<lambda>r. r\<lparr>ob_NextAttemptAt := fst nextAttemptAt, ob_ClaimToken := None, ob_LeaseUntil := None\<rparr>) tab of
                      (ok, tab') \<Rightarrow> (Inr ok, tab'))))"

text \<open>The insert: the primary key refuses a second row with the same event identifier.\<close>

text \<open>SQL's \<open>trim\<close> and the \<open>CHECK\<close> constraints on the columns an insert sets.\<close>

definition sql_trim :: "string \<Rightarrow> string" where
  "sql_trim s = rev (dropWhile (\<lambda>c. c = CHR '' '') (rev (dropWhile (\<lambda>c. c = CHR '' '') s)))"

definition between_1_128 :: "string \<Rightarrow> bool" where
  "between_1_128 s \<longleftrightarrow> 1 \<le> length (sql_trim s) \<and> length (sql_trim s) \<le> 128"

definition event_checks :: "AuditEvent \<Rightarrow> bool" where
  "event_checks ev \<longleftrightarrow>
    between_1_128 (ev_EventID ev) \<and> between_1_128 (ev_Action ev) \<and> between_1_128 (ev_Resource ev)
    \<and> length (ev_UserID ev) \<le> 256 \<and> length (ev_Email ev) \<le> 320 \<and> length (ev_ResourceID ev) \<le> 256
    \<and> length (ev_Detail ev) \<le> 4096"

definition insertAuditOutboxEvent :: "AuditEvent \<Rightarrow> outbox \<Rightarrow> (store_error + outbox)" where
  "insertAuditOutboxEvent ev tab =
    (if ev_EventID ev \<in> ob_id ` set tab \<or> \<not> event_checks ev then Inl StoreFailure
     else Inr (tab @ [\<lparr>ob_Event = ev, ob_AttemptCount = 0, ob_NextAttemptAt = fst (ev_OccurredAt ev), ob_ClaimToken = None,
                       ob_LeaseUntil = None, ob_DeliveredAt = None\<rparr>]))"

section \<open>The dispatcher\<close>

definition auditOutboxLeaseDuration :: duration where "auditOutboxLeaseDuration = 30 * second"
definition auditOutboxSinkTimeout :: duration where "auditOutboxSinkTimeout = 10 * second"
definition auditOutboxMaxBackoff :: duration where "auditOutboxMaxBackoff = minute"

fun backoffLoop :: "nat \<Rightarrow> duration \<Rightarrow> duration" where
  "backoffLoop 0 delay = delay"
| "backoffLoop (Suc n) delay =
    (if delay \<ge> auditOutboxMaxBackoff div 2 then auditOutboxMaxBackoff else backoffLoop n (delay * 2))"

definition auditOutboxBackoff :: "int \<Rightarrow> duration" where
  "auditOutboxBackoff attemptCount =
    (if attemptCount \<le> 1 then second else backoffLoop (nat (attemptCount - 1)) second)"

text \<open>
  \<open>dispatchOnce\<close> talks to the store through the interface \<open>ext.AuditOutboxStore\<close>; between its calls
  other dispatchers may run, so it is split where it calls out. First the claim:
\<close>

record 's outbox_store =
  os_claim :: "string \<Rightarrow> ztime \<Rightarrow> ztime \<Rightarrow> 's \<Rightarrow> (store_error + PendingAuditEvent option) \<times> 's"
  os_mark :: "string \<Rightarrow> string \<Rightarrow> ztime \<Rightarrow> 's \<Rightarrow> (store_error + bool) \<times> 's"
  os_reschedule :: "string \<Rightarrow> string \<Rightarrow> ztime \<Rightarrow> ztime \<Rightarrow> 's \<Rightarrow> (store_error + bool) \<times> 's"

definition dispatch_claim :: "'s outbox_store \<Rightarrow> string \<Rightarrow> gotime \<Rightarrow> 's \<Rightarrow> PendingAuditEvent option \<times> 's" where
  "dispatch_claim st newID claimStartedAt s =
    (case os_claim st newID (claimStartedAt, True) (timeAdd claimStartedAt auditOutboxLeaseDuration, True) s of
       (Inl _, s') \<Rightarrow> (None, s')
     | (Inr p, s') \<Rightarrow> (p, s'))"

text \<open>Then the decision at the start of the delivery: give up, release the claim or call the sink.\<close>

datatype delivery = ExpiredClaim | InsufficientLease | CallSink gotime

definition dispatch_decide :: "gotime \<Rightarrow> PendingAuditEvent \<Rightarrow> delivery" where
  "dispatch_decide deliveryStartedAt p =
    (let nominalSinkDeadline = timeAdd deliveryStartedAt auditOutboxSinkTimeout in
     if \<not> pe_LeaseUntil p > nominalSinkDeadline then
       (if \<not> pe_LeaseUntil p > deliveryStartedAt then ExpiredClaim else InsufficientLease)
     else CallSink (if pe_LeaseUntil p < nominalSinkDeadline then pe_LeaseUntil p else nominalSinkDeadline))"

text \<open>The release of a claim, with the back-off of its attempt.\<close>

definition dispatch_release :: "'s outbox_store \<Rightarrow> PendingAuditEvent \<Rightarrow> gotime \<Rightarrow> 's \<Rightarrow> bool \<times> 's" where
  "dispatch_release st p at s =
    (case os_reschedule st (ev_EventID (pe_Event p)) (pe_ClaimToken p) (at, True)
            (timeAdd at (auditOutboxBackoff (pe_AttemptCount p)), True) s of
       (Inl _, s') \<Rightarrow> (False, s')
     | (Inr updated, s') \<Rightarrow> (updated, s'))"

text \<open>And the completion after the sink answered.\<close>

definition dispatch_complete :: "'s outbox_store \<Rightarrow> PendingAuditEvent \<Rightarrow> bool \<Rightarrow> gotime \<Rightarrow> 's \<Rightarrow> bool \<times> 's" where
  "dispatch_complete st p sinkOk completedAt s =
    (if \<not> sinkOk then dispatch_release st p completedAt s
     else case os_mark st (ev_EventID (pe_Event p)) (pe_ClaimToken p) (completedAt, True) s of
       (Inl _, s') \<Rightarrow> (False, s')
     | (Inr updated, s') \<Rightarrow> (updated, s'))"

text \<open>
  The whole of \<open>dispatchOnce\<close> when nothing runs in between: the three readings of the clock, the
  claim token and the sink are arguments, and the result also says what the sink was given.
\<close>

definition dispatchOnce ::
    "'s outbox_store \<Rightarrow> (AuditEvent \<Rightarrow> gotime \<Rightarrow> bool) \<Rightarrow> string \<Rightarrow> gotime \<Rightarrow> gotime \<Rightarrow> gotime \<Rightarrow> 's \<Rightarrow> bool \<times> AuditEvent option \<times> 's" where
  "dispatchOnce st sink newID t1 t2 t3 s =
    (case dispatch_claim st newID t1 s of
       (None, s1) \<Rightarrow> (False, None, s1)
     | (Some p, s1) \<Rightarrow>
         (case dispatch_decide t2 p of
            ExpiredClaim \<Rightarrow> (False, None, s1)
          | InsufficientLease \<Rightarrow> (case dispatch_release st p t2 s1 of (b, s2) \<Rightarrow> (b, None, s2))
          | CallSink deadline \<Rightarrow>
              (case dispatch_complete st p (sink (pe_Event p) deadline) t3 s1 of (b, s2) \<Rightarrow> (b, Some (pe_Event p), s2))))"

definition db_store :: "uuid_parser \<Rightarrow> (string \<Rightarrow> bool) \<Rightarrow> outbox outbox_store" where
  "db_store parse locked =
    \<lparr>os_claim = ClaimAuditOutboxEvent parse locked,
     os_mark = MarkAuditOutboxEventDelivered parse,
     os_reschedule = RescheduleAuditOutboxEvent parse\<rparr>"

section \<open>Dispatchers running together\<close>

text \<open>
  Any number of dispatchers, the store, one clock and the sink. A dispatcher is idle, holds a claim,
  or has the sink's answer. \<open>sy_used\<close> are the claim tokens issued so far (UUIDs do not repeat) and
  \<open>sy_log\<close> the events the sink accepted. The sink observes the deadline of its context: it accepts
  nothing after it. Clock readings are taken before the call that uses them, so they may be old.
\<close>

datatype attempt = Idle | Claimed PendingAuditEvent | Answered PendingAuditEvent bool

record 's outbox_sys =
  sy_store :: 's
  sy_now :: gotime
  sy_workers :: "nat \<Rightarrow> attempt"
  sy_used :: "string set"
  sy_log :: "string list"

inductive outbox_step :: "((string \<Rightarrow> bool) \<Rightarrow> 's outbox_store) \<Rightarrow> (AuditEvent \<Rightarrow> 's \<Rightarrow> store_error + 's) \<Rightarrow> 's outbox_sys \<Rightarrow> 's outbox_sys \<Rightarrow> bool"
  for st enq where
  step_tick: "sy_now y \<le> t \<Longrightarrow> outbox_step st enq y (y\<lparr>sy_now := t\<rparr>)"
| step_enqueue: "enq ev (sy_store y) = Inr s' \<Longrightarrow> outbox_step st enq y (y\<lparr>sy_store := s'\<rparr>)"
| step_claim: "sy_workers y w = Idle \<Longrightarrow> tok \<notin> sy_used y \<Longrightarrow>
    dispatch_claim (st locked) tok (sy_now y) (sy_store y) = (r, s') \<Longrightarrow>
    outbox_step st enq y (y\<lparr>sy_store := s', sy_used := insert tok (sy_used y),
      sy_workers := (sy_workers y)(w := (case r of None \<Rightarrow> Idle | Some p \<Rightarrow> Claimed p))\<rparr>)"
| step_expired: "sy_workers y w = Claimed p \<Longrightarrow> t \<le> sy_now y \<Longrightarrow> dispatch_decide t p = ExpiredClaim \<Longrightarrow>
    outbox_step st enq y (y\<lparr>sy_workers := (sy_workers y)(w := Idle)\<rparr>)"
| step_release: "sy_workers y w = Claimed p \<Longrightarrow> t \<le> sy_now y \<Longrightarrow> dispatch_decide t p = InsufficientLease \<Longrightarrow>
    dispatch_release (st locked) p t (sy_store y) = (b, s') \<Longrightarrow>
    outbox_step st enq y (y\<lparr>sy_store := s', sy_workers := (sy_workers y)(w := Idle)\<rparr>)"
| step_sink: "sy_workers y w = Claimed p \<Longrightarrow> t \<le> sy_now y \<Longrightarrow> dispatch_decide t p = CallSink deadline \<Longrightarrow>
    (ok \<Longrightarrow> sy_now y \<le> deadline) \<Longrightarrow>
    outbox_step st enq y (y\<lparr>sy_workers := (sy_workers y)(w := Answered p ok),
      sy_log := (if ok then sy_log y @ [ev_EventID (pe_Event p)] else sy_log y)\<rparr>)"
| step_complete: "sy_workers y w = Answered p ok \<Longrightarrow> t \<le> sy_now y \<Longrightarrow>
    dispatch_complete (st locked) p ok t (sy_store y) = (b, s') \<Longrightarrow>
    outbox_step st enq y (y\<lparr>sy_store := s', sy_workers := (sy_workers y)(w := Idle)\<rparr>)"

definition outbox_start :: "'s \<Rightarrow> 's outbox_sys" where
  "outbox_start s = \<lparr>sy_store = s, sy_now = 1, sy_workers = (\<lambda>_. Idle), sy_used = {}, sy_log = []\<rparr>"

text \<open>The claim a dispatcher works on.\<close>

definition claim_of :: "attempt \<Rightarrow> PendingAuditEvent option" where
  "claim_of a = (case a of Idle \<Rightarrow> None | Claimed p \<Rightarrow> Some p | Answered p _ \<Rightarrow> Some p)"

lemma claim_of_simps [simp]:
  "claim_of Idle = None" "claim_of (Claimed p) = Some p" "claim_of (Answered p b) = Some p"
  by (simp_all add: claim_of_def)

section \<open>What a dispatcher relies on\<close>

datatype claim_state = Free | Held string gotime | Delivered

locale audit_outbox_store =
  fixes st :: "(string \<Rightarrow> bool) \<Rightarrow> 's outbox_store"
    and enq :: "AuditEvent \<Rightarrow> 's \<Rightarrow> store_error + 's"
    and inv :: "'s \<Rightarrow> bool"
    and view :: "'s \<Rightarrow> string \<Rightarrow> claim_state option"
  assumes enq_law: "inv s \<Longrightarrow> enq ev s = Inr s' \<Longrightarrow>
      inv s' \<and> view s (ev_EventID ev) = None \<and> view s' = (view s)(ev_EventID ev \<mapsto> Free)"
    and claim_law: "inv s \<Longrightarrow> os_claim (st lk) tok (now, True) (lease, True) s = (c, s') \<Longrightarrow>
      inv s' \<and> (case c of
        Inr (Some p) \<Rightarrow> pe_ClaimToken p = tok \<and> pe_LeaseUntil p = lease
          \<and> (view s (ev_EventID (pe_Event p)) = Some Free
             \<or> (\<exists>t l. view s (ev_EventID (pe_Event p)) = Some (Held t l) \<and> l \<le> now))
          \<and> view s' = (view s)(ev_EventID (pe_Event p) \<mapsto> Held tok lease)
      | _ \<Rightarrow> view s' = view s)"
    and mark_law: "inv s \<Longrightarrow> os_mark (st lk) eid tok (t, True) s = (r, s') \<Longrightarrow>
      inv s' \<and> (if r = Inr True then (\<exists>l. view s eid = Some (Held tok l) \<and> t < l) \<and> view s' = (view s)(eid \<mapsto> Delivered)
              else view s' = view s)"
    and reschedule_law: "inv s \<Longrightarrow> os_reschedule (st lk) eid tok (t, True) (n, True) s = (r, s') \<Longrightarrow>
      inv s' \<and> (if r = Inr True then (\<exists>l. view s eid = Some (Held tok l) \<and> t < l) \<and> view s' = (view s)(eid \<mapsto> Free)
              else view s' = view s)"
begin

text \<open>
  The invariant of the system: tokens are not shared, a dispatcher whose lease has not run out owns
  the claim of its event, and what the store counts as delivered the sink has accepted.
\<close>

definition sys_inv :: "'s outbox_sys \<Rightarrow> bool" where
  "sys_inv y \<longleftrightarrow> inv (sy_store y)
    \<and> (\<forall>w p. claim_of (sy_workers y w) = Some p \<longrightarrow> pe_ClaimToken p \<in> sy_used y
         \<and> (sy_now y < pe_LeaseUntil p \<longrightarrow> view (sy_store y) (ev_EventID (pe_Event p)) = Some (Held (pe_ClaimToken p) (pe_LeaseUntil p))))
    \<and> (\<forall>w w' p p'. claim_of (sy_workers y w) = Some p \<longrightarrow> claim_of (sy_workers y w') = Some p' \<longrightarrow> pe_ClaimToken p = pe_ClaimToken p' \<longrightarrow> w = w')
    \<and> (\<forall>w p. sy_workers y w = Answered p True \<longrightarrow> ev_EventID (pe_Event p) \<in> set (sy_log y))
    \<and> (\<forall>e. view (sy_store y) e = Some Delivered \<longrightarrow> e \<in> set (sy_log y))"

lemma claim_view:
  assumes "inv s" and "dispatch_claim (st lk) tok now s = (r, s')"
  shows "inv s'" and "r = None \<Longrightarrow> view s' = view s"
    and "r = Some p \<Longrightarrow> pe_ClaimToken p = tok
      \<and> (view s (ev_EventID (pe_Event p)) = Some Free \<or> (\<exists>t l. view s (ev_EventID (pe_Event p)) = Some (Held t l) \<and> l \<le> now))
      \<and> view s' = (view s)(ev_EventID (pe_Event p) \<mapsto> Held tok (pe_LeaseUntil p))"
proof -
  obtain c s1 where c: "os_claim (st lk) tok (now, True) (timeAdd now auditOutboxLeaseDuration, True) s = (c, s1)"
    by fastforce
  have "s1 = s'" and "r = (case c of Inl _ \<Rightarrow> None | Inr q \<Rightarrow> q)"
    using assms(2) by (cases c; simp add: dispatch_claim_def c)+
  then show "inv s'" and "r = None \<Longrightarrow> view s' = view s"
    and "r = Some p \<Longrightarrow> pe_ClaimToken p = tok
      \<and> (view s (ev_EventID (pe_Event p)) = Some Free \<or> (\<exists>t l. view s (ev_EventID (pe_Event p)) = Some (Held t l) \<and> l \<le> now))
      \<and> view s' = (view s)(ev_EventID (pe_Event p) \<mapsto> Held tok (pe_LeaseUntil p))"
    using claim_law [OF assms(1) c] by (simp_all split: sum.splits option.splits)
qed

lemma release_view:
  assumes "inv s" and "dispatch_release (st lk) p t s = (b, s')"
  shows "inv s' \<and> (view s' = view s \<or> (\<exists>l. view s (ev_EventID (pe_Event p)) = Some (Held (pe_ClaimToken p) l))
    \<and> view s' = (view s)(ev_EventID (pe_Event p) \<mapsto> Free))"
  using assms(2) reschedule_law [OF assms(1)]
  by (fastforce simp: dispatch_release_def split: prod.splits sum.splits if_splits)

lemma complete_view:
  assumes "inv s" and "dispatch_complete (st lk) p ok t s = (b, s')"
  shows "inv s' \<and> (view s' = view s \<or> (\<exists>l. view s (ev_EventID (pe_Event p)) = Some (Held (pe_ClaimToken p) l))
    \<and> (\<exists>c. view s' = (view s)(ev_EventID (pe_Event p) \<mapsto> c) \<and> (c = Free \<or> c = Delivered \<and> ok)))"
proof (cases ok)
  case True
  then show ?thesis
    using assms(2) mark_law [OF assms(1)]
    by (fastforce simp: dispatch_complete_def split: prod.splits sum.splits if_splits)
next
  case False
  then show ?thesis
    using assms(2) release_view [OF assms(1), of lk p t b s'] by (auto simp: dispatch_complete_def)
qed

lemma sys_invI:
  assumes "inv (sy_store y)"
    and "\<And>w p. claim_of (sy_workers y w) = Some p \<Longrightarrow> pe_ClaimToken p \<in> sy_used y"
    and "\<And>w p. claim_of (sy_workers y w) = Some p \<Longrightarrow> sy_now y < pe_LeaseUntil p \<Longrightarrow>
      view (sy_store y) (ev_EventID (pe_Event p)) = Some (Held (pe_ClaimToken p) (pe_LeaseUntil p))"
    and "\<And>w w' p p'. claim_of (sy_workers y w) = Some p \<Longrightarrow> claim_of (sy_workers y w') = Some p' \<Longrightarrow>
      pe_ClaimToken p = pe_ClaimToken p' \<Longrightarrow> w = w'"
    and "\<And>w p. sy_workers y w = Answered p True \<Longrightarrow> ev_EventID (pe_Event p) \<in> set (sy_log y)"
    and "\<And>e. view (sy_store y) e = Some Delivered \<Longrightarrow> e \<in> set (sy_log y)"
  shows "sys_inv y"
  using assms unfolding sys_inv_def by blast

lemma sys_invD:
  assumes "sys_inv y"
  shows "inv (sy_store y)"
    and "claim_of (sy_workers y w) = Some p \<Longrightarrow> pe_ClaimToken p \<in> sy_used y"
    and "claim_of (sy_workers y w) = Some p \<Longrightarrow> sy_now y < pe_LeaseUntil p \<Longrightarrow>
      view (sy_store y) (ev_EventID (pe_Event p)) = Some (Held (pe_ClaimToken p) (pe_LeaseUntil p))"
    and "claim_of (sy_workers y w) = Some p \<Longrightarrow> claim_of (sy_workers y w') = Some p' \<Longrightarrow>
      pe_ClaimToken p = pe_ClaimToken p' \<Longrightarrow> w = w'"
    and "sy_workers y w = Answered p True \<Longrightarrow> ev_EventID (pe_Event p) \<in> set (sy_log y)"
    and "view (sy_store y) e = Some Delivered \<Longrightarrow> e \<in> set (sy_log y)"
  using assms unfolding sys_inv_def by blast+

text \<open>A dispatcher that gives up its claim, having changed at most the row it held.\<close>

lemma sys_inv_done:
  assumes y: "sys_inv y" and w: "claim_of (sy_workers y w) = Some p" and i: "inv s'"
    and v: "view s' = view (sy_store y)
      \<or> (\<exists>l. view (sy_store y) (ev_EventID (pe_Event p)) = Some (Held (pe_ClaimToken p) l))
        \<and> (\<exists>c. view s' = (view (sy_store y))(ev_EventID (pe_Event p) \<mapsto> c)
             \<and> (c = Free \<or> c = Delivered \<and> ev_EventID (pe_Event p) \<in> set (sy_log y)))"
  shows "sys_inv (y\<lparr>sy_store := s', sy_workers := (sy_workers y)(w := Idle)\<rparr>)"
proof (rule sys_invI, goal_cases)
  case (3 w' q)
  then have w': "w' \<noteq> w" "claim_of (sy_workers y w') = Some q" and l: "sy_now y < pe_LeaseUntil q"
    by (auto split: if_splits)
  then have q: "view (sy_store y) (ev_EventID (pe_Event q)) = Some (Held (pe_ClaimToken q) (pe_LeaseUntil q))"
    using sys_invD(3) [OF y] by blast
  have "pe_ClaimToken q \<noteq> pe_ClaimToken p"
    using sys_invD(4) [OF y w'(2) w] w'(1) by blast
  then show ?case
    using v q by auto
qed (use i v w sys_invD [OF y] in \<open>auto split: if_splits\<close>)

lemma sys_inv_claim:
  assumes y: "sys_inv y" and idle: "sy_workers y w = Idle" and fresh: "tok \<notin> sy_used y"
    and c: "dispatch_claim (st lk) tok (sy_now y) (sy_store y) = (r, s')"
  shows "sys_inv (y\<lparr>sy_store := s', sy_used := insert tok (sy_used y),
      sy_workers := (sy_workers y)(w := (case r of None \<Rightarrow> Idle | Some p \<Rightarrow> Claimed p))\<rparr>)"
proof (cases r)
  case None
  then have "inv s'" and "view s' = view (sy_store y)"
    using claim_view [OF sys_invD(1) [OF y] c] by blast+
  then show ?thesis
    using None idle sys_invD [OF y] by (intro sys_invI) (auto split: if_splits)
next
  case (Some p)
  let ?e = "ev_EventID (pe_Event p)"
  have i: "inv s'" and p: "pe_ClaimToken p = tok"
    and free: "view (sy_store y) ?e = Some Free \<or> (\<exists>t l. view (sy_store y) ?e = Some (Held t l) \<and> l \<le> sy_now y)"
    and v: "view s' = (view (sy_store y))(?e \<mapsto> Held tok (pe_LeaseUntil p))"
    using claim_view [OF sys_invD(1) [OF y] c] Some by blast+
  show ?thesis
  proof (rule sys_invI, goal_cases)
    case (3 w' q)
    show ?case
    proof (cases "w' = w")
      case True
      then show ?thesis
        using 3 Some p v by simp
    next
      case False
      then have "view (sy_store y) (ev_EventID (pe_Event q)) = Some (Held (pe_ClaimToken q) (pe_LeaseUntil q))"
        and "sy_now y < pe_LeaseUntil q"
        using 3 sys_invD(3) [OF y, of w' q] by auto
      then show ?thesis
        using v free by auto
    qed
  next
    case (4 w1 w2 p1 p2)
    have "pe_ClaimToken q \<noteq> tok" if "claim_of (sy_workers y v) = Some q" for v q
      using sys_invD(2) [OF y that] fresh by blast
    then show ?case
      using 4 Some p sys_invD(4) [OF y, of w1 p1 w2 p2] by (auto split: if_splits)
  qed (use i v Some p idle sys_invD [OF y] in \<open>auto split: if_splits\<close>)
qed

lemma sys_inv_sink:
  assumes y: "sys_inv y" and w: "sy_workers y w = Claimed p"
  shows "sys_inv (y\<lparr>sy_workers := (sy_workers y)(w := Answered p ok),
      sy_log := (if ok then sy_log y @ [ev_EventID (pe_Event p)] else sy_log y)\<rparr>)"
proof -
  have wc: "claim_of (sy_workers y w) = Some p"
    using w by simp
  have c: "claim_of (if w' = w then Answered p ok else sy_workers y w') = claim_of (sy_workers y w')" for w'
    using wc by simp
  show ?thesis
  proof (rule sys_invI, goal_cases)
    case (2 v q)
    then show ?case
      using sys_invD(2) [OF y, of v q] c [of v] by (simp add: fun_upd_def)
  next
    case (3 v q)
    then show ?case
      using sys_invD(3) [OF y, of v q] c [of v] by (simp add: fun_upd_def)
  next
    case (4 v v' q q')
    then show ?case
      using sys_invD(4) [OF y, of v q v' q'] c [of v] c [of v'] by (simp add: fun_upd_def)
  qed (use sys_invD [OF y] in \<open>auto split: if_splits\<close>)
qed

lemma sys_inv_step:
  assumes "outbox_step st enq y y'" and "sys_inv y"
  shows "sys_inv y'"
  using assms
proof (cases rule: outbox_step.cases)
  case (step_tick t)
  then show ?thesis
    using sys_invD [OF assms(2)] by (intro sys_invI) auto
next
  case (step_enqueue ev s')
  then have e: "inv s'" "view (sy_store y) (ev_EventID ev) = None" "view s' = (view (sy_store y))(ev_EventID ev \<mapsto> Free)"
    using enq_law [OF sys_invD(1) [OF assms(2)]] by blast+
  have "ev_EventID (pe_Event p) \<noteq> ev_EventID ev" if "claim_of (sy_workers y w) = Some p" "sy_now y < pe_LeaseUntil p" for w p
    using sys_invD(3) [OF assms(2) that] e(2) by auto
  then show ?thesis
    unfolding step_enqueue using e sys_invD [OF assms(2)] by (intro sys_invI) (auto split: if_splits)
next
  case (step_expired w p t)
  then show ?thesis
    using sys_inv_done [OF assms(2), of w p "sy_store y"] sys_invD(1) [OF assms(2)] by simp
next
  case (step_release w p t locked b s')
  then show ?thesis
    using sys_inv_done [OF assms(2), of w p s'] release_view [OF sys_invD(1) [OF assms(2)], of locked p t b s']
    by auto
next
  case (step_complete w p ok t locked b s')
  then show ?thesis
    using sys_inv_done [OF assms(2), of w p s'] complete_view [OF sys_invD(1) [OF assms(2)], of locked p ok t b s']
      sys_invD(5) [OF assms(2), of w p]
    by auto
next
  case (step_claim w tok locked r s')
  then show ?thesis
    using sys_inv_claim [OF assms(2)] by simp
next
  case (step_sink w p t deadline ok)
  then show ?thesis
    using sys_inv_sink [OF assms(2), of w p ok] by simp
qed

lemma sys_inv_reach:
  assumes "(outbox_step st enq)\<^sup>*\<^sup>* (outbox_start s) y" and "inv s" and "\<forall>e. view s e \<noteq> Some Delivered"
  shows "sys_inv y"
  using assms(1)
proof (induction rule: rtranclp_induct)
  case base
  then show ?case
    using assms(2,3) by (intro sys_invI) (auto simp: outbox_start_def)
next
  case (step y z)
  then show ?case
    using sys_inv_step by blast
qed

lemma lease_exclusive:
  assumes "sys_inv y" and "claim_of (sy_workers y w) = Some p" and "claim_of (sy_workers y w') = Some p'" and "w \<noteq> w'"
    and "sy_now y < pe_LeaseUntil p" and "sy_now y < pe_LeaseUntil p'"
  shows "ev_EventID (pe_Event p) \<noteq> ev_EventID (pe_Event p')"
  using sys_invD(3) [OF assms(1,2,5)] sys_invD(3) [OF assms(1,3,6)] sys_invD(4) [OF assms(1-3)] assms(4) by auto

end

section \<open>The table provides it\<close>

definition row_ok :: "outbox_row \<Rightarrow> bool" where
  "row_ok r \<longleftrightarrow> (ob_ClaimToken r = None) = (ob_LeaseUntil r = None) \<and> (ob_DeliveredAt r \<noteq> None \<longrightarrow> ob_ClaimToken r = None)"

definition outbox_inv :: "outbox \<Rightarrow> bool" where
  "outbox_inv tab \<longleftrightarrow> distinct (map ob_id tab) \<and> list_all row_ok tab"

definition row_state :: "outbox_row \<Rightarrow> claim_state" where
  "row_state r =
    (if ob_DeliveredAt r \<noteq> None then Delivered
     else case (ob_ClaimToken r, ob_LeaseUntil r) of (Some t, Some l) \<Rightarrow> Held t l | _ \<Rightarrow> Free)"

definition outbox_view :: "outbox \<Rightarrow> string \<Rightarrow> claim_state option" where
  "outbox_view tab = map_of (map (\<lambda>r. (ob_id r, row_state r)) tab)"

lemma outbox_view_mem:
  assumes "outbox_inv tab" and "r \<in> set tab"
  shows "outbox_view tab (ob_id r) = Some (row_state r)"
proof -
  have "distinct (map fst (map (\<lambda>r. (ob_id r, row_state r)) tab))"
    using assms(1) by (simp add: outbox_inv_def comp_def)
  then show ?thesis
    using assms(2) unfolding outbox_view_def by (intro map_of_is_SomeI) auto
qed

lemma outbox_same_row: "outbox_inv tab \<Longrightarrow> r \<in> set tab \<Longrightarrow> r' \<in> set tab \<Longrightarrow> ob_id r = ob_id r' \<Longrightarrow> r = r'"
  by (auto simp: outbox_inv_def distinct_map dest: inj_onD)

lemma outbox_view_None: "outbox_view tab e = None \<longleftrightarrow> e \<notin> ob_id ` set tab"
  by (force simp: outbox_view_def map_of_eq_None_iff)

text \<open>A statement that rewrites one row and keeps its identifier.\<close>

lemma outbox_rewrite:
  assumes inv: "outbox_inv tab" and r: "r \<in> set tab" "P r" and f: "\<And>r. ob_id (f r) = ob_id r" "row_ok (f r)"
    and only: "\<And>r'. r' \<in> set tab \<Longrightarrow> P r' \<Longrightarrow> ob_id r' = ob_id r"
  shows "outbox_inv (map (\<lambda>r. if P r then f r else r) tab)"
    and "outbox_view (map (\<lambda>r. if P r then f r else r) tab) = (outbox_view tab)(ob_id r \<mapsto> row_state (f r))"
proof -
  let ?g = "\<lambda>r. if P r then f r else r"
  have id: "ob_id (?g x) = ob_id x" for x
    using f by simp
  have one: "x = r" if "x \<in> set tab" "P x" for x
    using outbox_same_row [OF inv that(1) r(1)] only [OF that] by blast
  show i: "outbox_inv (map ?g tab)"
    using inv f(2) one by (auto simp: outbox_inv_def comp_def id list_all_iff)
  show "outbox_view (map ?g tab) = (outbox_view tab)(ob_id r \<mapsto> row_state (f r))"
  proof
    fix e
    show "outbox_view (map ?g tab) e = ((outbox_view tab)(ob_id r \<mapsto> row_state (f r))) e"
    proof (cases "e \<in> ob_id ` set tab")
      case True
      then obtain x where x: "x \<in> set tab" "e = ob_id x"
        by blast
      have "outbox_view (map ?g tab) (ob_id (?g x)) = Some (row_state (?g x))"
        using x(1) by (intro outbox_view_mem [OF i]) simp
      moreover have "P x \<longleftrightarrow> ob_id x = ob_id r"
        using one [OF x(1)] r outbox_same_row [OF inv x(1) r(1)] by auto
      ultimately show ?thesis
        using outbox_view_mem [OF inv x(1)] outbox_same_row [OF inv x(1) r(1)] by (auto simp: f(1) x(2))
    next
      case False
      then have "e \<notin> ob_id ` set (map ?g tab)" and "e \<noteq> ob_id r"
        using r(1) by (auto simp: f(1) image_iff)
      then show ?thesis
        using False by (simp add: outbox_view_None [THEN iffD2])
    qed
  qed
qed

lemma holds_claim_unique:
  assumes inv: "outbox_inv tab" and r: "r \<in> set tab" "holds_claim eid tok t r"
  shows "filter (holds_claim eid tok t) tab = [r]"
proof (rule distinct_singleton)
  show "distinct (filter (holds_claim eid tok t) tab)"
    using inv by (simp add: outbox_inv_def distinct_map)
  have one: "x = r" if "x \<in> set tab" "holds_claim eid tok t x" for x
    using outbox_same_row [OF inv that(1) r(1)] that(2) r(2) by (simp add: holds_claim_def)
  show "set (filter (holds_claim eid tok t) tab) = {r}"
    using r by (auto dest: one)
qed

lemma complete_rows_view:
  assumes inv: "outbox_inv tab" and c: "complete_rows (holds_claim eid tok t) f tab = (ok, tab')"
    and f: "\<And>r. ob_id (f r) = ob_id r" "\<And>r. ob_DeliveredAt r = None \<Longrightarrow> row_ok (f r)"
      "\<And>r l. row_state r = Held tok l \<Longrightarrow> row_state (f r) = c"
  shows "outbox_inv tab' \<and>
    (if ok then (\<exists>l. outbox_view tab eid = Some (Held tok l) \<and> t < l) \<and> outbox_view tab' = (outbox_view tab)(eid \<mapsto> c)
     else outbox_view tab' = outbox_view tab)"
proof (cases "\<exists>r \<in> set tab. holds_claim eid tok t r")
  case True
  then obtain r where r: "r \<in> set tab" "holds_claim eid tok t r"
    by blast
  then obtain l where l: "ob_id r = eid" "row_state r = Held tok l" "t < l"
    by (auto simp: holds_claim_def row_state_def split: option.splits)
  have only: "\<And>r'. r' \<in> set tab \<Longrightarrow> holds_claim eid tok t r' \<Longrightarrow> ob_id r' = ob_id r"
    using l(1) by (simp add: holds_claim_def)
  have "filter (holds_claim eid tok t) tab = [r]"
    by (rule holds_claim_unique [OF inv r])
  then have ok: "ok" and tab': "tab' = map (\<lambda>r. if holds_claim eid tok t r then f r else r) tab"
    using c by (auto simp: complete_rows_def exactlyOneRowAffected_def)
  have "ob_DeliveredAt r = None"
    using r(2) by (simp add: holds_claim_def)
  note R = outbox_rewrite [where P = "holds_claim eid tok t" and f = f, OF inv r f(1) f(2) [OF this] only]
  show ?thesis
    using R outbox_view_mem [OF inv r(1)] l f(3) [OF l(2)] ok by (auto simp: tab')
next
  case False
  then have "filter (holds_claim eid tok t) tab = []" and "map (\<lambda>r. if holds_claim eid tok t r then f r else r) tab = tab"
    by (auto simp: filter_empty_conv intro!: map_idI)
  then show ?thesis
    using c inv by (simp add: complete_rows_def exactlyOneRowAffected_def)
qed

lemma claim_rows_view:
  assumes inv: "outbox_inv tab" and c: "ClaimAuditOutboxEvent parse lk tok (now, True) (lease, True) tab = (c, tab')"
  shows "outbox_inv tab' \<and> (case c of
        Inr (Some p) \<Rightarrow> pe_ClaimToken p = tok \<and> pe_LeaseUntil p = lease
          \<and> (outbox_view tab (ev_EventID (pe_Event p)) = Some Free
             \<or> (\<exists>t l. outbox_view tab (ev_EventID (pe_Event p)) = Some (Held t l) \<and> l \<le> now))
          \<and> outbox_view tab' = (outbox_view tab)(ev_EventID (pe_Event p) \<mapsto> Held tok lease)
      | _ \<Rightarrow> outbox_view tab' = outbox_view tab)"
proof -
  define cs where "cs = sort_key claim_key (filter (\<lambda>r. claimable now r \<and> \<not> lk (ob_id r)) tab)"
  let ?f = "\<lambda>r. r\<lparr>ob_ClaimToken := Some tok, ob_LeaseUntil := Some lease, ob_AttemptCount := ob_AttemptCount r + 1\<rparr>"
  consider "tab' = tab" "c = Inr None \<or> (\<exists>e. c = Inl e)"
    | r rs where "cs = r # rs" "tab' = update_row (ob_id r) ?f tab"
        "\<exists>p. c = Inr (Some p) \<and> ev_EventID (pe_Event p) = ob_id r \<and> pe_ClaimToken p = tok \<and> pe_LeaseUntil p = lease"
  proof (cases cs)
    case Nil
    then show thesis
      using c that(1) unfolding ClaimAuditOutboxEvent_def fst_conv cs_def [symmetric]
      by (auto split: if_splits option.splits)
  next
    case (Cons r rs)
    then show thesis
      using c that(1) that(2) [OF Cons] unfolding ClaimAuditOutboxEvent_def fst_conv cs_def [symmetric]
      by (auto simp: ob_id_def split: if_splits option.splits)
  qed
  then show ?thesis
  proof cases
    case 1
    then show ?thesis
      using inv by auto
  next
    case (2 r rs)
    have r: "r \<in> set tab" "claimable now r"
      using 2(1) [THEN arg_cong [of _ _ set]] by (auto simp: cs_def)
    have ok: "row_ok r"
      using inv r(1) by (auto simp: outbox_inv_def list_all_iff)
    have state: "row_state r = Free \<or> (\<exists>t l. row_state r = Held t l \<and> l \<le> now)"
      using r(2) ok by (auto simp: claimable_def row_state_def row_ok_def split: option.splits)
    have "outbox_inv tab'" and "outbox_view tab' = (outbox_view tab)(ob_id r \<mapsto> row_state (?f r))"
      using outbox_rewrite [OF inv r(1), of "\<lambda>x. ob_id x = ob_id r" ?f] r(2)
      by (simp_all add: 2(2) update_row_def row_ok_def claimable_def ob_id_def)
    moreover have "row_state (?f r) = Held tok lease"
      using r(2) by (simp add: row_state_def claimable_def)
    ultimately show ?thesis
      using 2(3) outbox_view_mem [OF inv r(1)] state by auto
  qed
qed

lemma row_state_release:
  "row_state r = Held tok l \<Longrightarrow> row_state (r\<lparr>ob_NextAttemptAt := n, ob_ClaimToken := None, ob_LeaseUntil := None\<rparr>) = Free"
  by (simp add: row_state_def split: if_splits)

lemma insert_row_view:
  assumes "outbox_inv tab" and "ob_id r \<notin> ob_id ` set tab" and "row_ok r"
  shows "outbox_inv (tab @ [r])" and "outbox_view (tab @ [r]) = (outbox_view tab)(ob_id r \<mapsto> row_state r)"
proof -
  show "outbox_inv (tab @ [r])"
    using assms by (auto simp: outbox_inv_def)
  have "outbox_view tab (ob_id r) = None"
    using assms(2) by (simp add: outbox_view_None)
  then show "outbox_view (tab @ [r]) = (outbox_view tab)(ob_id r \<mapsto> row_state r)"
    by (auto simp: outbox_view_def map_add_def fun_eq_iff split: option.splits)
qed

interpretation db: audit_outbox_store "db_store parse" insertAuditOutboxEvent outbox_inv outbox_view
  for parse :: uuid_parser
proof (unfold_locales, goal_cases)
  case (1 tab ev tab')
  let ?r = "\<lparr>ob_Event = ev, ob_AttemptCount = 0, ob_NextAttemptAt = fst (ev_OccurredAt ev), ob_ClaimToken = None,
              ob_LeaseUntil = None, ob_DeliveredAt = None\<rparr>"
  have "ob_id ?r \<notin> ob_id ` set tab" and "tab' = tab @ [?r]" and "ob_id ?r = ev_EventID ev"
    using 1(2) by (auto simp: insertAuditOutboxEvent_def ob_id_def split: if_splits)
  then show ?case
    using insert_row_view [OF 1(1), of ?r] outbox_view_None [of tab "ob_id ?r"] by (simp add: row_ok_def row_state_def)
next
  case (2 tab lk tok now lease c tab')
  then show ?case
    using claim_rows_view by (simp add: db_store_def)
next
  case (3 tab lk eid tok t r tab')
  then consider "tab' = tab" "\<exists>e. r = Inl e"
    | ok where "r = Inr ok" "complete_rows (holds_claim eid tok t)
        (\<lambda>r. r\<lparr>ob_DeliveredAt := Some t, ob_ClaimToken := None, ob_LeaseUntil := None\<rparr>) tab = (ok, tab')"
    by (auto simp: db_store_def MarkAuditOutboxEventDelivered_def split: option.splits prod.splits)
  then show ?case
  proof cases
    case (2 ok)
    then show ?thesis
      using complete_rows_view [OF 3(1) 2(2), of Delivered] by (auto simp: ob_id_def row_ok_def row_state_def)
  qed (use 3 in auto)
next
  case (4 tab lk eid tok t n r tab')
  then consider "tab' = tab" "\<exists>e. r = Inl e"
    | ok where "r = Inr ok" "complete_rows (holds_claim eid tok t)
        (\<lambda>r. r\<lparr>ob_NextAttemptAt := n, ob_ClaimToken := None, ob_LeaseUntil := None\<rparr>) tab = (ok, tab')"
    by (auto simp: db_store_def RescheduleAuditOutboxEvent_def split: option.splits prod.splits if_splits)
  then show ?case
  proof cases
    case (2 ok)
    have "outbox_inv tab' \<and> (if ok then (\<exists>l. outbox_view tab eid = Some (Held tok l) \<and> t < l) \<and> outbox_view tab' = (outbox_view tab)(eid \<mapsto> Free)
        else outbox_view tab' = outbox_view tab)"
      by (rule complete_rows_view [OF 4(1) 2(2) _ _ row_state_release]) (simp_all add: ob_id_def row_ok_def)
    then show ?thesis
      using 2(1) by simp
  qed (use 4 in auto)
qed

section \<open>Lemmas\<close>

lemma outbox_view_Delivered:
  "outbox_inv tab \<Longrightarrow> outbox_view tab e = Some Delivered \<longleftrightarrow> (\<exists>r \<in> set tab. ob_id r = e \<and> ob_DeliveredAt r \<noteq> None)"
proof -
  assume inv: "outbox_inv tab"
  have st: "row_state r = Delivered \<longleftrightarrow> ob_DeliveredAt r \<noteq> None" for r
    by (auto simp: row_state_def split: option.splits)
  show ?thesis
  proof
    assume "outbox_view tab e = Some Delivered"
    moreover from this have "e \<in> ob_id ` set tab"
      using outbox_view_None [of tab e] by auto
    ultimately show "\<exists>r \<in> set tab. ob_id r = e \<and> ob_DeliveredAt r \<noteq> None"
      using outbox_view_mem [OF inv] st by fastforce
  qed (use outbox_view_mem [OF inv] st in auto)
qed

lemma outbox_view_Held:
  assumes inv: "outbox_inv tab" and v: "outbox_view tab e = Some (Held t l)"
  shows "\<exists>r \<in> set tab. ob_id r = e \<and> ob_ClaimToken r = Some t \<and> ob_LeaseUntil r = Some l \<and> ob_DeliveredAt r = None"
proof -
  have "e \<in> ob_id ` set tab"
    using v outbox_view_None [of tab e] by auto
  then obtain r where r: "r \<in> set tab" "ob_id r = e"
    by blast
  then have "row_state r = Held t l"
    using outbox_view_mem [OF inv r(1)] v by simp
  then show ?thesis
    using r by (intro bexI [of _ r]) (auto simp: row_state_def split: if_splits option.splits)
qed

abbreviation outbox_run :: "uuid_parser \<Rightarrow> outbox \<Rightarrow> outbox outbox_sys \<Rightarrow> bool" where
  "outbox_run parse tab y \<equiv> (outbox_step (db_store parse) insertAuditOutboxEvent)\<^sup>*\<^sup>* (outbox_start tab) y"

text \<open>A table without delivered rows, as it is before any dispatcher has run.\<close>

definition outbox_fresh :: "outbox \<Rightarrow> bool" where
  "outbox_fresh tab \<longleftrightarrow> outbox_inv tab \<and> list_all (\<lambda>r. ob_DeliveredAt r = None) tab"

lemma run_inv: "outbox_run parse tab y \<Longrightarrow> outbox_fresh tab \<Longrightarrow> db.sys_inv y"
  by (rule db.sys_inv_reach) (auto simp: outbox_fresh_def outbox_view_Delivered list_all_iff)

lemma call_sink_lease: "dispatch_decide t p = CallSink dl \<Longrightarrow> dl < pe_LeaseUntil p"
  by (auto simp: dispatch_decide_def Let_def split: if_splits)

lemma backoffLoop_pow:
  "delay = 2 ^ k * second \<Longrightarrow> k \<le> 5 \<Longrightarrow> backoffLoop n delay = (if k + n \<le> 5 then 2 ^ (k + n) * second else auditOutboxMaxBackoff)"
proof (induction n arbitrary: delay k)
  case (Suc n)
  have m: "auditOutboxMaxBackoff div 2 = 30 * second"
    by (simp add: auditOutboxMaxBackoff_def minute_def second_def)
  have k: "(2 :: int) ^ k * second \<ge> 30 * second \<longleftrightarrow> k = 5"
    using Suc.prems(2) by (auto simp: second_def le_Suc_eq eval_nat_numeral)
  show ?case
  proof (cases "k = 5")
    case True
    then show ?thesis
      using k by (simp add: Suc.prems(1) m)
  next
    case False
    then have "\<not> delay \<ge> auditOutboxMaxBackoff div 2"
      using k by (simp add: Suc.prems(1) m)
    moreover have "backoffLoop n (delay * 2) = (if Suc k + n \<le> 5 then 2 ^ (Suc k + n) * second else auditOutboxMaxBackoff)"
      using Suc.prems False by (intro Suc.IH) auto
    ultimately show ?thesis
      by simp
  qed
qed simp

section \<open>Properties\<close>

text \<open>
  C25: however many dispatchers run together, two of them whose leases have not expired never work on
  the same event.
\<close>

theorem outbox_lease_exclusive:
  assumes "outbox_run parse tab y" and "outbox_fresh tab"
    and "claim_of (sy_workers y w) = Some p" and "claim_of (sy_workers y w') = Some p'" and "w \<noteq> w'"
    and "sy_now y < pe_LeaseUntil p" and "sy_now y < pe_LeaseUntil p'"
  shows "ev_EventID (pe_Event p) \<noteq> ev_EventID (pe_Event p')"
  using db.lease_exclusive [OF run_inv [OF assms(1,2)] assms(3-7)] .

definition demo_row :: "string \<Rightarrow> outbox_row" where
  "demo_row i = \<lparr>ob_Event = \<lparr>ev_EventID = i, ev_OccurredAt = (1, True), ev_Action = ''opamp.token.create'', ev_UserID = ''u'',
      ev_Email = [], ev_Resource = ''opamp_token'', ev_ResourceID = ''r'', ev_Detail = []\<rparr>,
    ob_AttemptCount = 0, ob_NextAttemptAt = 1, ob_ClaimToken = None, ob_LeaseUntil = None, ob_DeliveredAt = None\<rparr>"

definition demo_claim :: "string \<Rightarrow> outbox \<Rightarrow> PendingAuditEvent option \<times> outbox" where
  "demo_claim tok tab = dispatch_claim (db_store Some (\<lambda>_. False)) tok 1 tab"

definition demo_sys1 :: "outbox outbox_sys" where
  "demo_sys1 = (let y = outbox_start [demo_row ''e1'', demo_row ''e2'']; c = demo_claim ''t1'' (sy_store y) in
     y\<lparr>sy_store := snd c, sy_used := insert ''t1'' (sy_used y),
       sy_workers := (sy_workers y)(0 := (case fst c of None \<Rightarrow> Idle | Some p \<Rightarrow> Claimed p))\<rparr>)"

definition demo_sys2 :: "outbox outbox_sys" where
  "demo_sys2 = (let y = demo_sys1; c = demo_claim ''t2'' (sy_store y) in
     y\<lparr>sy_store := snd c, sy_used := insert ''t2'' (sy_used y),
       sy_workers := (sy_workers y)(1 := (case fst c of None \<Rightarrow> Idle | Some p \<Rightarrow> Claimed p))\<rparr>)"

lemma demo_run1: "outbox_run Some [demo_row ''e1'', demo_row ''e2''] demo_sys1"
proof -
  let ?y = "outbox_start [demo_row ''e1'', demo_row ''e2'']"
  have "outbox_step (db_store Some) insertAuditOutboxEvent ?y demo_sys1"
    unfolding demo_sys1_def Let_def
    by (rule step_claim [where locked = "\<lambda>_. False"]) (simp_all add: demo_claim_def outbox_start_def)
  then show ?thesis
    by (rule r_into_rtranclp)
qed

lemma demo_run2: "outbox_run Some [demo_row ''e1'', demo_row ''e2''] demo_sys2"
proof -
  have "outbox_step (db_store Some) insertAuditOutboxEvent demo_sys1 demo_sys2"
    unfolding demo_sys2_def Let_def
    by (rule step_claim [where locked = "\<lambda>_. False"]) (simp_all add: demo_claim_def demo_sys1_def outbox_start_def Let_def)
  with demo_run1 show ?thesis
    by (rule rtranclp.rtrancl_into_rtrancl)
qed

lemma demo_fresh: "outbox_fresh [demo_row ''e1'', demo_row ''e2'']"
  by code_simp

theorem outbox_lease_exclusive_witness:
  "ev_EventID (pe_Event (the (claim_of (sy_workers demo_sys2 0)))) \<noteq> ev_EventID (pe_Event (the (claim_of (sy_workers demo_sys2 1))))"
proof (rule outbox_lease_exclusive [OF demo_run2 demo_fresh])
  have "claim_of (sy_workers demo_sys2 0) \<noteq> None" and "claim_of (sy_workers demo_sys2 1) \<noteq> None"
    by code_simp+
  then show "claim_of (sy_workers demo_sys2 0) = Some (the (claim_of (sy_workers demo_sys2 0)))"
    and "claim_of (sy_workers demo_sys2 1) = Some (the (claim_of (sy_workers demo_sys2 1)))"
    by simp_all
  show "sy_now demo_sys2 < pe_LeaseUntil (the (claim_of (sy_workers demo_sys2 0)))"
    and "sy_now demo_sys2 < pe_LeaseUntil (the (claim_of (sy_workers demo_sys2 1)))"
    by code_simp+
qed simp

text \<open>
  C26: an event is marked delivered only after the sink has accepted it, and the sink never accepts an
  event that is already marked delivered: while it accepts, the claim of the caller is still in place.
\<close>

theorem outbox_delivery_sound:
  assumes "outbox_run parse tab y" and "outbox_fresh tab"
  shows "(\<forall>r \<in> set (sy_store y). ob_DeliveredAt r \<noteq> None \<longrightarrow> ob_id r \<in> set (sy_log y))
    \<and> (sy_workers y w = Claimed p \<and> dispatch_decide t p = CallSink deadline \<and> sy_now y \<le> deadline \<longrightarrow>
        (\<exists>r \<in> set (sy_store y). ob_id r = ev_EventID (pe_Event p) \<and> ob_ClaimToken r = Some (pe_ClaimToken p) \<and> ob_DeliveredAt r = None))"
proof -
  have y: "db.sys_inv y"
    using run_inv [OF assms] .
  note D = db.sys_invD [OF y]
  have "ob_id r \<in> set (sy_log y)" if "r \<in> set (sy_store y)" "ob_DeliveredAt r \<noteq> None" for r
    using D(6) [of "ob_id r"] outbox_view_Delivered [OF D(1)] that by blast
  moreover have "\<exists>r \<in> set (sy_store y). ob_id r = ev_EventID (pe_Event p) \<and> ob_ClaimToken r = Some (pe_ClaimToken p) \<and> ob_DeliveredAt r = None"
    if "sy_workers y w = Claimed p" "dispatch_decide t p = CallSink deadline" "sy_now y \<le> deadline"
    using outbox_view_Held [OF D(1) D(3) [of w p]] call_sink_lease [OF that(2)] that(1,3) by fastforce
  ultimately show ?thesis
    by blast
qed

theorem outbox_delivery_sound_witness:
  "list_ex (\<lambda>r. ob_id r = ''e1'' \<and> ob_ClaimToken r = Some ''t1'' \<and> ob_DeliveredAt r = None) (sy_store demo_sys1)"
proof -
  obtain p where p: "sy_workers demo_sys1 0 = Claimed p" "ev_EventID (pe_Event p) = ''e1''" "pe_ClaimToken p = ''t1''"
    "dispatch_decide 1 p = CallSink (1 + 10 * second)"
  proof -
    have "case sy_workers demo_sys1 0 of
        Claimed p \<Rightarrow> ev_EventID (pe_Event p) = ''e1'' \<and> pe_ClaimToken p = ''t1'' \<and> dispatch_decide 1 p = CallSink (1 + 10 * second)
      | _ \<Rightarrow> False"
      by code_simp
    then show thesis
      using that by (auto split: attempt.splits)
  qed
  have "sy_now demo_sys1 \<le> 1 + 10 * second"
    by code_simp
  then show ?thesis
    using outbox_delivery_sound [OF demo_run1 demo_fresh, of 0 p 1 "1 + 10 * second"] p by (auto simp: list_ex_iff)
qed

text \<open>
  C27: the retry delay doubles from one second with the attempts and is capped at one minute.
\<close>

theorem backoff_doubles:
  "auditOutboxBackoff n = min (2 ^ nat (n - 1)) 60 * second"
proof (cases "n \<le> 1")
  case True
  then show ?thesis
    by (simp add: auditOutboxBackoff_def)
next
  case False
  define k where "k = nat (n - 1)"
  have "backoffLoop k second = (if k \<le> 5 then 2 ^ k * second else auditOutboxMaxBackoff)"
    using backoffLoop_pow [of second 0 k] by simp
  moreover have "(2 :: int) ^ k \<le> 60" if "k \<le> 5"
    using power_increasing [OF that, of "2 :: int"] by simp
  moreover have "(60 :: int) \<le> 2 ^ k" if "\<not> k \<le> 5"
    using power_increasing [of 6 k "2 :: int"] that by simp
  ultimately show ?thesis
    using False by (auto simp: auditOutboxBackoff_def k_def [symmetric] auditOutboxMaxBackoff_def minute_def min_def)
qed

lemma claim_least:
  assumes inv: "outbox_inv tab" and r: "r \<in> set tab" "claimable now r"
    and least: "\<forall>x \<in> set tab. claimable now x \<longrightarrow> claim_key r \<le> claim_key x"
  shows "\<exists>rs. sort_key claim_key (filter (claimable now) tab) = r # rs"
proof -
  let ?cs = "sort_key claim_key (filter (claimable now) tab)"
  have set: "set ?cs = {x \<in> set tab. claimable now x}"
    by simp
  then obtain x xs where x: "?cs = x # xs"
    using r by (cases ?cs) auto
  have "x \<in> set ?cs" and "r \<in> set ?cs"
    using set r x by auto
  moreover have "\<forall>y \<in> set ?cs. claim_key x \<le> claim_key y"
    using sorted_sort_key [of claim_key "filter (claimable now) tab"] unfolding x by auto
  ultimately have "claim_key x = claim_key r" and "x \<in> set tab"
    using least set by (auto intro: order.antisym)
  then have "x = r"
    using outbox_same_row [OF inv _ r(1)] by (simp add: claim_key_def)
  with x show ?thesis
    by blast
qed

text \<open>
  C28: one round of a dispatcher delivers: when a due event exists that nobody holds and the sink accepts
  it in time, the round marks delivered the due event with the least next attempt time, then
  occurrence time, then identifier.
\<close>

theorem dispatchOnce_delivers:
  assumes inv: "outbox_inv tab" and r: "r \<in> set tab" "claimable t1 r"
    and least: "\<forall>x \<in> set tab. claimable t1 x \<longrightarrow> claim_key r \<le> claim_key x"
    and attempts: "ob_AttemptCount r < 2147483647"
    and ids: "isCanonicalUUID parse tok" "isCanonicalUUID parse (ob_id r)"
    and times: "0 < t1" "t1 \<le> t2" "t2 < t1 + 20 * second" "t2 \<le> t3" "t3 < t1 + 30 * second"
    and sink: "\<forall>ev dl. sink ev dl"
  shows "\<exists>tab'. dispatchOnce (db_store parse (\<lambda>_. False)) sink tok t1 t2 t3 tab =
      (True, Some ((ob_Event r)\<lparr>ev_OccurredAt := (fst (ev_OccurredAt (ob_Event r)), True)\<rparr>), tab')
    \<and> outbox_inv tab' \<and> outbox_view tab' = (outbox_view tab)(ob_id r \<mapsto> Delivered)"
proof -
  let ?lease = "t1 + 30 * second"
  define p where "p = \<lparr>pe_Event = (ob_Event r)\<lparr>ev_OccurredAt := (fst (ev_OccurredAt (ob_Event r)), True)\<rparr>,
      pe_AttemptCount = ob_AttemptCount r + 1, pe_ClaimToken = tok, pe_LeaseUntil = ?lease\<rparr>"
  define tab1 where "tab1 = update_row (ob_id r)
      (\<lambda>r. r\<lparr>ob_ClaimToken := Some tok, ob_LeaseUntil := Some ?lease, ob_AttemptCount := ob_AttemptCount r + 1\<rparr>) tab"
  have eid: "ev_EventID (pe_Event p) = ob_id r"
    by (simp add: p_def ob_id_def)
  obtain rs where "sort_key claim_key (filter (claimable t1) tab) = r # rs"
    using claim_least [OF inv r least] by blast
  then have c: "ClaimAuditOutboxEvent parse (\<lambda>_. False) tok (t1, True) (?lease, True) tab = (Inr (Some p), tab1)"
    using ids times attempts
    by (simp add: ClaimAuditOutboxEvent_def validateUTCTime_def p_def tab1_def second_def)
  then have claim: "dispatch_claim (db_store parse (\<lambda>_. False)) tok t1 tab = (Some p, tab1)"
    by (simp add: dispatch_claim_def db_store_def timeAdd_def auditOutboxLeaseDuration_def)
  have inv1: "outbox_inv tab1" and v1: "outbox_view tab1 = (outbox_view tab)(ob_id r \<mapsto> Held tok ?lease)"
    using claim_rows_view [OF inv c] by (simp_all add: eid)
  then obtain x where x: "x \<in> set tab1" "holds_claim (ob_id r) tok t3 x"
    using outbox_view_Held [OF inv1, of "ob_id r" tok ?lease] times(5) by (fastforce simp: holds_claim_def)
  obtain tab' where m: "os_mark (db_store parse (\<lambda>_. False)) (ob_id r) tok (t3, True) tab1 = (Inr True, tab')"
    using ids times holds_claim_unique [OF inv1 x]
    by (simp add: db_store_def MarkAuditOutboxEventDelivered_def validateOutboxCompletion_def validateUTCTime_def
        complete_rows_def exactlyOneRowAffected_def)
  have "dispatch_decide t2 p = CallSink (t2 + 10 * second)"
    using times(3) by (auto simp: dispatch_decide_def Let_def p_def timeAdd_def auditOutboxSinkTimeout_def)
  then have "dispatchOnce (db_store parse (\<lambda>_. False)) sink tok t1 t2 t3 tab = (True, Some (pe_Event p), tab')"
    using sink m by (simp add: dispatchOnce_def claim dispatch_complete_def eid p_def [THEN arg_cong [of _ _ pe_ClaimToken]])
  moreover have "outbox_inv tab' \<and> outbox_view tab' = (outbox_view tab)(ob_id r \<mapsto> Delivered)"
    using db.mark_law [OF inv1 m] v1 by simp
  ultimately show ?thesis
    by (simp add: p_def)
qed

theorem dispatchOnce_delivers_witness:
  "fst (dispatchOnce (db_store Some (\<lambda>_. False)) (\<lambda>_ _. True) ''t1'' 1 2 3 [demo_row ''e2'', demo_row ''e1''])"
proof -
  have "outbox_inv [demo_row ''e2'', demo_row ''e1'']" and "claimable 1 (demo_row ''e1'')"
    and "claim_key (demo_row ''e1'') \<le> claim_key (demo_row ''e2'')" and "ob_AttemptCount (demo_row ''e1'') < 2147483647"
    by code_simp+
  then show ?thesis
    using dispatchOnce_delivers [of "[demo_row ''e2'', demo_row ''e1'']" "demo_row ''e1''" 1 Some "''t1''" 2 3 "\<lambda>_ _. True"]
    by (auto simp: isCanonicalUUID_def second_def)
qed

end
