(* ===== verification/Go_Crypto.thy ===== *)
theory Go_Crypto
  imports Go_Strings "HOL-Library.Word"
begin

text \<open>
  The functions of Go's \<open>crypto/sha256\<close>, \<open>encoding/hex\<close> and \<open>encoding/base64\<close> the program calls,
  executable over byte strings: configuration identifiers, workload fingerprints and token digests
  are all computed with them.
\<close>

unbundle bit_operations_syntax

section \<open>SHA-256\<close>

type_synonym w32 = "32 word"

text \<open>
  The constants, computed the way the standard defines them: the first 32 fractional bits of the
  cube roots of the first 64 primes and of the square roots of the first 8. The \<open>k\<close>-th root of a
  prime below 312 with 32 fractional bits has at most 37 binary digits.
\<close>

fun root_digits :: "nat \<Rightarrow> nat \<Rightarrow> nat \<Rightarrow> nat \<Rightarrow> nat" where
  "root_digits k 0 x n = x"
| "root_digits k (Suc b) x n = root_digits k b (if (x + 2 ^ b) ^ k \<le> n then x + 2 ^ b else x) n"

definition small_primes :: "nat list" where
  "small_primes = filter (\<lambda>p. list_all (\<lambda>d. p mod d \<noteq> 0) [2..<p]) [2..<312]"

definition root_fraction :: "nat \<Rightarrow> nat \<Rightarrow> w32" where
  "root_fraction k p = word_of_nat (root_digits k 37 0 (p * 2 ^ (32 * k)))"

definition sha_K :: "w32 list" where
  "sha_K = map (root_fraction 3) small_primes"

definition sha_H :: "w32 list" where
  "sha_H = map (root_fraction 2) (take 8 small_primes)"

text \<open>The digits found are the integer root.\<close>

lemma root_digits_bounds:
  assumes "0 < k" and "x ^ k \<le> n" and "n < (x + 2 ^ b) ^ k"
  shows "root_digits k b x n ^ k \<le> n \<and> n < Suc (root_digits k b x n) ^ k"
  using assms(2,3)
proof (induction b arbitrary: x)
  case (Suc b)
  then show ?case
    by (cases "(x + 2 ^ b) ^ k \<le> n") (simp_all add: add.assoc mult_2 [symmetric])
qed simp

definition sha_rotr :: "nat \<Rightarrow> w32 \<Rightarrow> w32" where
  "sha_rotr n x = drop_bit n x OR push_bit (32 - n) x"

definition sha_s0 :: "w32 \<Rightarrow> w32" where
  "sha_s0 x = sha_rotr 7 x XOR sha_rotr 18 x XOR drop_bit 3 x"

definition sha_s1 :: "w32 \<Rightarrow> w32" where
  "sha_s1 x = sha_rotr 17 x XOR sha_rotr 19 x XOR drop_bit 10 x"

text \<open>The message schedule, newest word first.\<close>

fun sha_schedule :: "nat \<Rightarrow> w32 list \<Rightarrow> w32 list" where
  "sha_schedule 0 ws = ws"
| "sha_schedule (Suc n) ws = sha_schedule n ((sha_s1 (ws ! 1) + ws ! 6 + sha_s0 (ws ! 14) + ws ! 15) # ws)"

fun sha_round :: "w32 list \<Rightarrow> w32 \<times> w32 \<Rightarrow> w32 list" where
  "sha_round [a, b, c, d, e, f, g, h] (k, w) =
    (let t1 = h + (sha_rotr 6 e XOR sha_rotr 11 e XOR sha_rotr 25 e) + ((e AND f) XOR (NOT e AND g)) + k + w;
         t2 = (sha_rotr 2 a XOR sha_rotr 13 a XOR sha_rotr 22 a) + ((a AND b) XOR (a AND c) XOR (b AND c))
     in [t1 + t2, a, b, c, d + t1, e, f, g])"
| "sha_round s _ = s"

definition sha_block :: "w32 list \<Rightarrow> w32 list \<Rightarrow> w32 list" where
  "sha_block s block =
    map2 (+) s (foldl sha_round s (zip sha_K (rev (sha_schedule 48 (rev block)))))"

definition byte_of :: "char \<Rightarrow> nat" where
  "byte_of c = of_char c"

definition char_at :: "nat \<Rightarrow> char" where
  "char_at n = char_of n"

fun sha_words :: "nat list \<Rightarrow> w32 list" where
  "sha_words (a # b # c # d # rest) = word_of_nat (((a * 256 + b) * 256 + c) * 256 + d) # sha_words rest"
| "sha_words _ = []"

text \<open>Eight bytes, most significant first, and the padding of a message.\<close>

definition be_bytes :: "nat \<Rightarrow> nat \<Rightarrow> nat list" where
  "be_bytes n x = map (\<lambda>i. x div 256 ^ (n - 1 - i) mod 256) [0..<n]"

definition sha_pad :: "nat list \<Rightarrow> nat list" where
  "sha_pad m = m @ 128 # replicate ((119 - length m mod 64) mod 64) 0 @ be_bytes 8 (8 * length m)"

fun sha_blocks :: "nat \<Rightarrow> w32 list \<Rightarrow> w32 list \<Rightarrow> w32 list" where
  "sha_blocks 0 s ws = s"
| "sha_blocks (Suc n) s ws = sha_blocks n (sha_block s (take 16 ws)) (drop 16 ws)"

definition Sum256 :: "string \<Rightarrow> nat list" where
  "Sum256 msg =
    (let p = sha_pad (map byte_of msg)
     in concat (map (\<lambda>w. be_bytes 4 (unat w)) (sha_blocks (length p div 64) sha_H (sha_words p))))"

lemma length_sha_round [simp]: "length (sha_round s kw) = length s"
  by (induction s kw rule: sha_round.induct) (simp_all add: Let_def)

lemma length_sha_rounds [simp]: "length (foldl sha_round s kws) = length s"
  by (induction kws arbitrary: s) simp_all

lemma length_sha_blocks [simp]: "length (sha_blocks n s ws) = length s"
  by (induction n s ws rule: sha_blocks.induct) (simp_all add: sha_block_def)

lemma length_be_bytes [simp]: "length (be_bytes n x) = n"
  by (simp add: be_bytes_def)

lemma length_sha_H: "length sha_H = 8"
proof -
  let ?P = "\<lambda>p :: nat. list_all (\<lambda>d. p mod d \<noteq> 0) [2..<p]"
  have "[2..<312] = [2..<20] @ [20..<312 :: nat]"
    using upt_add_eq_append [of 2 20 292] by simp
  then have split: "small_primes = filter ?P [2..<20] @ filter ?P [20..<312]"
    by (simp only: small_primes_def filter_append)
  have first: "filter ?P [2..<20] = [2, 3, 5, 7, 11, 13, 17, 19]"
    by code_simp
  obtain ps where "small_primes = [2, 3, 5, 7, 11, 13, 17, 19] @ ps"
    using split unfolding first by (rule that)
  from arg_cong [OF this, of length] have "length small_primes = 8 + length ps"
    by simp
  then show ?thesis
    by (simp add: sha_H_def)
qed

lemma length_Sum256 [simp]: "length (Sum256 msg) = 32"
  by (simp add: Sum256_def Let_def length_concat comp_def sum_list_triv length_sha_H)

section \<open>Hexadecimal\<close>

definition hex_digit :: "nat \<Rightarrow> char" where
  "hex_digit n = ''0123456789abcdef'' ! n"

definition hex_EncodeToString :: "nat list \<Rightarrow> string" where
  "hex_EncodeToString bs = concat (map (\<lambda>b. [hex_digit (b div 16), hex_digit (b mod 16)]) bs)"

section \<open>Base64, the unpadded URL alphabet\<close>

definition b64_char :: "nat \<Rightarrow> char" where
  "b64_char n =
    char_at (if n < 26 then n + 65 else if n < 52 then n + 71 else if n < 62 then n - 4 else if n = 62 then 45 else 95)"

definition b64_val :: "char \<Rightarrow> nat option" where
  "b64_val c =
    (let n = byte_of c in
     if 65 \<le> n \<and> n \<le> 90 then Some (n - 65)
     else if 97 \<le> n \<and> n \<le> 122 then Some (n - 71)
     else if 48 \<le> n \<and> n \<le> 57 then Some (n + 4)
     else if n = 45 then Some 62
     else if n = 95 then Some 63
     else None)"

fun b64_enc :: "nat list \<Rightarrow> nat list" where
  "b64_enc (a # b # c # rest) =
    [a div 4, a mod 4 * 16 + b div 16, b mod 16 * 4 + c div 64, c mod 64] @ b64_enc rest"
| "b64_enc [a, b] = [a div 4, a mod 4 * 16 + b div 16, b mod 16 * 4]"
| "b64_enc [a] = [a div 4, a mod 4 * 16]"
| "b64_enc [] = []"

fun b64_dec :: "nat list \<Rightarrow> nat list option" where
  "b64_dec (w # x # y # z # rest) =
    map_option (\<lambda>r. [w * 4 + x div 16, x mod 16 * 16 + y div 4, y mod 4 * 64 + z] @ r) (b64_dec rest)"
| "b64_dec [w, x, y] = Some [w * 4 + x div 16, x mod 16 * 16 + y div 4]"
| "b64_dec [w, x] = Some [w * 4 + x div 16]"
| "b64_dec [w] = None"
| "b64_dec [] = Some []"

definition base64_EncodeToString :: "nat list \<Rightarrow> string" where
  "base64_EncodeToString bs = map b64_char (b64_enc bs)"

text \<open>The decoder skips line breaks and ignores the unused bits of the last digit.\<close>

fun b64_vals :: "string \<Rightarrow> nat list option" where
  "b64_vals [] = Some []"
| "b64_vals (c # cs) =
    (case b64_val c of None \<Rightarrow> None | Some v \<Rightarrow> map_option (Cons v) (b64_vals cs))"

definition base64_DecodeString :: "string \<Rightarrow> nat list option" where
  "base64_DecodeString s =
    (case b64_vals (filter (\<lambda>c. byte_of c \<noteq> 10 \<and> byte_of c \<noteq> 13) s) of None \<Rightarrow> None | Some vs \<Rightarrow> b64_dec vs)"

lemma b64_enc_range: "\<forall>b \<in> set bs. b < 256 \<Longrightarrow> v \<in> set (b64_enc bs) \<Longrightarrow> v < 64"
proof (induction bs rule: b64_enc.induct)
  case (1 a b c rest)
  have "a mod 4 < 4" "b div 16 < 16" "b mod 16 < 16" "c div 64 < 4" "a div 4 < 64" "c mod 64 < 64"
    using 1(2) by auto
  then show ?case
    using 1 by auto
next
  case (2 a b)
  have "a mod 4 < 4" "b div 16 < 16" "b mod 16 < 16" "a div 4 < 64"
    using 2 by auto
  then show ?case
    using 2 by auto
next
  case (3 a)
  have "a mod 4 < 4" "a div 4 < 64"
    using 3 by auto
  then show ?case
    using 3 by auto
qed simp

lemma b64_dec_enc: "\<forall>b \<in> set bs. b < 256 \<Longrightarrow> b64_dec (b64_enc bs) = Some bs"
proof (induction bs rule: b64_enc.induct)
  case (1 a b c rest)
  have "(a mod 4 * 16 + b div 16) div 16 = a mod 4" "(a mod 4 * 16 + b div 16) mod 16 = b div 16"
    "(b mod 16 * 4 + c div 64) div 4 = b mod 16" "(b mod 16 * 4 + c div 64) mod 4 = c div 64"
    using 1(2) by (simp_all add: div_add1_eq less_mult_imp_div_less)
  then show ?case
    using 1 by simp
next
  case (2 a b)
  have "(a mod 4 * 16 + b div 16) div 16 = a mod 4" "(a mod 4 * 16 + b div 16) mod 16 = b div 16"
    using 2 by (simp_all add: div_add1_eq less_mult_imp_div_less)
  then show ?case
    by simp
qed simp_all

lemma b64_char_val:
  assumes "v < 64"
  shows "b64_val (b64_char v) = Some v" and "byte_of (b64_char v) \<notin> {10, 13, 46}"
  using assms by (auto simp: b64_val_def b64_char_def byte_of_def char_at_def Let_def)

lemma b64_vals_char: "\<forall>v \<in> set vs. v < 64 \<Longrightarrow> b64_vals (map b64_char vs) = Some vs"
  by (induction vs) (simp_all add: b64_char_val)

text \<open>Decoding gives back what was encoded.\<close>

lemma base64_roundtrip:
  assumes "\<forall>b \<in> set bs. b < 256"
  shows "base64_DecodeString (base64_EncodeToString bs) = Some bs"
proof -
  have r: "\<forall>v \<in> set (b64_enc bs). v < 64"
    using b64_enc_range [OF assms] by blast
  then have "filter (\<lambda>c. byte_of c \<noteq> 10 \<and> byte_of c \<noteq> 13) (map b64_char (b64_enc bs)) = map b64_char (b64_enc bs)"
    using b64_char_val(2) by (auto simp: filter_id_conv)
  then show ?thesis
    using r by (simp add: base64_DecodeString_def base64_EncodeToString_def b64_vals_char b64_dec_enc [OF assms])
qed

lemma base64_no_dot: "\<forall>b \<in> set bs. b < 256 \<Longrightarrow> CHR ''.'' \<notin> set (base64_EncodeToString bs)"
proof -
  assume "\<forall>b \<in> set bs. b < 256"
  then have "byte_of c \<noteq> 46" if "c \<in> set (base64_EncodeToString bs)" for c
    using that b64_enc_range [of bs] b64_char_val(2) by (auto simp: base64_EncodeToString_def)
  moreover have "byte_of (CHR ''.'') = 46"
    by (simp add: byte_of_def)
  ultimately show ?thesis
    by metis
qed

lemma length_b64_enc: "length (b64_enc bs) = length bs div 3 * 4 + (if length bs mod 3 = 0 then 0 else length bs mod 3 + 1)"
  by (induction bs rule: b64_enc.induct) (simp_all add: div_add_self1)

lemma b64_dec_bytes: "\<forall>v \<in> set vs. v < 64 \<Longrightarrow> b64_dec vs = Some bs \<Longrightarrow> b \<in> set bs \<Longrightarrow> b < 256"
proof (induction vs arbitrary: bs rule: b64_dec.induct)
  case (1 w x y z rest)
  have "w < 64" "x div 16 < 4" "x mod 16 < 16" "y div 4 < 16" "y mod 4 < 4" "z < 64"
    using 1(2) by auto
  then show ?case
    using 1 by auto
next
  case (2 w x y)
  have "w < 64" "x div 16 < 4" "x mod 16 < 16" "y div 4 < 16"
    using 2(1) by auto
  then show ?case
    using 2 by auto
next
  case (3 w x)
  have "w < 64" "x div 16 < 4"
    using 3(1) by auto
  then show ?case
    using 3 by auto
qed auto

lemma b64_val_range: "b64_val c = Some v \<Longrightarrow> v < 64"
  by (auto simp: b64_val_def Let_def split: if_splits)

lemma b64_vals_range: "b64_vals cs = Some vs \<Longrightarrow> v \<in> set vs \<Longrightarrow> v < 64"
  by (induction cs arbitrary: vs) (auto split: option.splits dest: b64_val_range)

lemma base64_decode_bytes: "base64_DecodeString s = Some bs \<Longrightarrow> b \<in> set bs \<Longrightarrow> b < 256"
  using b64_dec_bytes b64_vals_range by (fastforce simp: base64_DecodeString_def split: option.splits)

end
