(* ===== verification/Opamp_Tokens.thy ===== *)
theory Opamp_Tokens
  imports Audit_Outbox Go_Crypto Access_Control "HOL-Library.Multiset"
begin

text \<open>
  Managed OpAMP tokens: their textual form (\<open>internal/opampauth/token.go\<close>), the token table with the
  constraints of migration \<open>00027\<close> (\<open>internal/store/opamp_tokens.go\<close>) and the handlers that create
  and revoke them (\<open>internal/api/opamp_tokens.go\<close>). A transaction is one atomic step; whether its
  commit is acknowledged, lost or applied without an acknowledgement is an argument, as are the
  random bytes and the UUID library. Lengths are those of ASCII text.
\<close>

section \<open>The token text\<close>

definition tokenPrefix :: string where "tokenPrefix = ''ompt_''"
definition secretLength :: nat where "secretLength = 32"
definition encodedSecretSize :: nat where "encodedSecretSize = 43"

record GeneratedToken =
  gn_ID :: string
  gn_Value :: string
  gn_SecretHash :: "nat list"

text \<open>\<open>Generate\<close>, given the random bytes and the identifier it draws.\<close>

definition Generate :: "nat list option \<Rightarrow> string option \<Rightarrow> GeneratedToken option" where
  "Generate randomBytes newID =
    (case randomBytes of None \<Rightarrow> None | Some secret \<Rightarrow>
     (case newID of None \<Rightarrow> None | Some ident \<Rightarrow>
       (let value = tokenPrefix @ ident @ ''.'' @ base64_EncodeToString secret
        in Some \<lparr>gn_ID = ident, gn_Value = value, gn_SecretHash = Sum256 value\<rparr>)))"

definition ParseAndHash :: "uuid_parser \<Rightarrow> string \<Rightarrow> (string \<times> nat list) option" where
  "ParseAndHash parse value =
    (if \<not> HasPrefix value tokenPrefix then None
     else case Split (TrimPrefix value tokenPrefix) (CHR ''.'') of
       [p0, p1] \<Rightarrow>
         (case parse p0 of
            None \<Rightarrow> None
          | Some parsedID \<Rightarrow>
              if p0 \<noteq> parsedID then None
              else if length p1 \<noteq> encodedSecretSize then None
              else case base64_DecodeString p1 of
                None \<Rightarrow> None
              | Some secret \<Rightarrow>
                  if length secret \<noteq> secretLength \<or> base64_EncodeToString secret \<noteq> p1 then None
                  else Some (parsedID, Sum256 value))
     | _ \<Rightarrow> None)"

section \<open>The token table\<close>

record OpAMPToken =
  tk_ID :: string
  tk_Name :: string
  tk_Description :: string
  tk_Team :: string
  tk_Environment :: string
  tk_CreatedAt :: ztime
  tk_CreatedBy :: string
  tk_ExpiresAt :: "ztime option"
  tk_LastUsedAt :: "ztime option"
  tk_RevokedAt :: "ztime option"
  tk_RevokedBy :: string
  tk_Status :: string

record OpAMPTokenCredential =
  cr_Token :: OpAMPToken
  cr_SecretHash :: "nat list"

record OpAMPTokenPrincipal =
  pr_ID :: string
  pr_ExpiresAt :: "gotime option"

record token_row =
  tr_id :: string
  tr_name :: string
  tr_description :: string
  tr_team :: string
  tr_environment :: string
  tr_secret_hash :: "nat list"
  tr_created_at :: gotime
  tr_created_by :: string
  tr_expires_at :: "gotime option"
  tr_last_used_at :: "gotime option"
  tr_revoked_at :: "gotime option"
  tr_revoked_by :: "string option"

record token_db =
  db_tokens :: "token_row list"
  db_outbox :: outbox

datatype token_error = TokenNotFound | InvalidToken | CommitOutcomeUnknown | BadArgument string | TokenStoreFailure

text \<open>
  How the database takes a transaction: it cannot begin or read, a later statement fails, or the
  commit is acknowledged, applied without an acknowledgement, or lost and rolled back.
\<close>

datatype commit = BeginFails | StatementFails | Committed | LostButApplied | LostAndRolledBack

text \<open>The \<open>CHECK\<close> constraints of the table.\<close>

definition token_checks :: "token_row \<Rightarrow> bool" where
  "token_checks r \<longleftrightarrow>
    between_1_128 (tr_name r)
    \<and> length (tr_description r) \<le> 512 \<and> length (tr_team r) \<le> 128 \<and> length (tr_environment r) \<le> 128
    \<and> length (tr_secret_hash r) = 32 \<and> sql_trim (tr_created_by r) \<noteq> []
    \<and> (case tr_expires_at r of None \<Rightarrow> True | Some t \<Rightarrow> t > tr_created_at r)
    \<and> (case tr_last_used_at r of None \<Rightarrow> True | Some t \<Rightarrow> t \<ge> tr_created_at r)
    \<and> (case tr_revoked_at r of None \<Rightarrow> True | Some t \<Rightarrow> t \<ge> tr_created_at r)
    \<and> (tr_revoked_at r = None \<and> tr_revoked_by r = None
       \<or> tr_revoked_at r \<noteq> None \<and> (case tr_revoked_by r of None \<Rightarrow> False | Some b \<Rightarrow> sql_trim b \<noteq> []))"

fun find_token :: "token_row list \<Rightarrow> string \<Rightarrow> token_row option" where
  "find_token [] i = None"
| "find_token (r # rs) i = (if tr_id r = i then Some r else find_token rs i)"

definition put_token :: "token_row \<Rightarrow> token_row list \<Rightarrow> token_row list" where
  "put_token r rs = map (\<lambda>x. if tr_id x = tr_id r then r else x) rs"

fun arg_of :: "store_error \<Rightarrow> token_error" where
  "arg_of (InvalidArgument m) = BadArgument m"
| "arg_of StoreFailure = TokenStoreFailure"

text \<open>The loop over the event's fields: a name, a value and its limit each.\<close>

fun checkFields :: "(string \<times> string \<times> nat) list \<Rightarrow> token_error option" where
  "checkFields [] = None"
| "checkFields ((name, v, m) # fs) =
    (if list_ex (\<lambda>c. of_char c = (10 :: nat) \<or> of_char c = (13 :: nat)) v
     then Some (BadArgument (name @ '' must not contain newlines''))
     else if length v > m then Some (BadArgument (name @ '' exceeds '' @ showNat m @ '' bytes''))
     else checkFields fs)"

text \<open>\<open>%q\<close> on text without characters that need an escape.\<close>

definition quote :: "string \<Rightarrow> string" where "quote s = CHR 0x22 # s @ [CHR 0x22]"

definition validateTokenAuditEvent :: "uuid_parser \<Rightarrow> AuditEvent \<Rightarrow> string \<Rightarrow> string \<Rightarrow> string \<Rightarrow> gotime \<Rightarrow> token_error option" where
  "validateTokenAuditEvent parse ev action tokenID actor occurredAt =
    (if \<not> isCanonicalUUID parse (ev_EventID ev) then Some (BadArgument ''event_id must be a canonical UUID'')
     else case validateUTCTime ''occurred_at'' (ev_OccurredAt ev) of Some e \<Rightarrow> Some (arg_of e) | None \<Rightarrow>
     if fst (ev_OccurredAt ev) \<noteq> occurredAt then Some (BadArgument ''occurred_at must match the token mutation time'')
     else if ev_Action ev \<noteq> action then Some (BadArgument (''action must be '' @ quote action))
     else if ev_Resource ev \<noteq> ''opamp_token'' then Some (BadArgument (''resource must be '' @ quote ''opamp_token''))
     else if ev_ResourceID ev \<noteq> tokenID then Some (BadArgument ''resource_id must match the token ID'')
     else if \<not> isCanonicalUUID parse (ev_ResourceID ev) then Some (BadArgument ''resource_id must be a canonical UUID'')
     else if TrimSpace actor = [] \<or> ev_UserID ev \<noteq> actor then Some (BadArgument ''user_id must match the token mutation actor'')
     else if ev_Detail ev \<noteq> [] then Some (BadArgument ''detail must be empty for token audit events'')
     else checkFields
       [(''event_id'', ev_EventID ev, 128), (''action'', ev_Action ev, 128), (''user_id'', ev_UserID ev, 256),
        (''email'', ev_Email ev, 320), (''resource'', ev_Resource ev, 128), (''resource_id'', ev_ResourceID ev, 256),
        (''detail'', ev_Detail ev, 4096)])"

text \<open>The end of a transaction that computed \<open>db'\<close> from \<open>db\<close>.\<close>

definition commit_tx :: "commit \<Rightarrow> token_db \<Rightarrow> token_db \<Rightarrow> token_error option \<times> token_db" where
  "commit_tx cm db db' =
    (case cm of
       BeginFails \<Rightarrow> (Some TokenStoreFailure, db)
     | StatementFails \<Rightarrow> (Some TokenStoreFailure, db)
     | Committed \<Rightarrow> (None, db')
     | LostButApplied \<Rightarrow> (Some CommitOutcomeUnknown, db')
     | LostAndRolledBack \<Rightarrow> (Some CommitOutcomeUnknown, db))"

definition new_token_row :: "OpAMPTokenCredential \<Rightarrow> token_row" where
  "new_token_row cred =
    (let t = cr_Token cred in
     \<lparr>tr_id = tk_ID t, tr_name = tk_Name t, tr_description = tk_Description t, tr_team = tk_Team t,
      tr_environment = tk_Environment t, tr_secret_hash = cr_SecretHash cred, tr_created_at = fst (tk_CreatedAt t),
      tr_created_by = tk_CreatedBy t, tr_expires_at = map_option fst (tk_ExpiresAt t), tr_last_used_at = None,
      tr_revoked_at = None, tr_revoked_by = None\<rparr>)"

definition CreateOpAMPToken ::
    "uuid_parser \<Rightarrow> commit \<Rightarrow> OpAMPTokenCredential \<Rightarrow> AuditEvent \<Rightarrow> token_db \<Rightarrow> token_error option \<times> token_db" where
  "CreateOpAMPToken parse cm cred ev db =
    (let t = cr_Token cred in
     if \<not> isCanonicalUUID parse (tk_ID t) then (Some (BadArgument ''token ID must be a canonical UUID''), db)
     else case validateUTCTime ''created_at'' (tk_CreatedAt t) of Some e \<Rightarrow> (Some (arg_of e), db) | None \<Rightarrow>
     case validateTokenAuditEvent parse ev ''opamp.token.create'' (tk_ID t) (tk_CreatedBy t) (fst (tk_CreatedAt t)) of
       Some e \<Rightarrow> (Some e, db) | None \<Rightarrow>
     case (case tk_ExpiresAt t of None \<Rightarrow> None | Some x \<Rightarrow> validateUTCTime ''expires_at'' x) of
       Some e \<Rightarrow> (Some (arg_of e), db) | None \<Rightarrow>
     if tk_LastUsedAt t \<noteq> None \<or> tk_RevokedAt t \<noteq> None \<or> tk_RevokedBy t \<noteq> []
     then (Some (BadArgument ''new token must not contain usage or revocation state''), db)
     else if cm = BeginFails then (Some TokenStoreFailure, db)
     else
       let row = new_token_row cred in
       if find_token (db_tokens db) (tr_id row) \<noteq> None \<or> \<not> token_checks row then (Some TokenStoreFailure, db)
       else case insertAuditOutboxEvent ev (db_outbox db) of
         Inl _ \<Rightarrow> (Some TokenStoreFailure, db)
       | Inr ob \<Rightarrow> commit_tx cm db \<lparr>db_tokens = db_tokens db @ [row], db_outbox = ob\<rparr>)"

definition OpAMPTokenActive :: string where "OpAMPTokenActive = ''active''"
definition OpAMPTokenExpired :: string where "OpAMPTokenExpired = ''expired''"
definition OpAMPTokenRevoked :: string where "OpAMPTokenRevoked = ''revoked''"

definition token_status :: "gotime \<Rightarrow> token_row \<Rightarrow> string" where
  "token_status now r =
    (if tr_revoked_at r \<noteq> None then OpAMPTokenRevoked
     else if (case tr_expires_at r of None \<Rightarrow> False | Some t \<Rightarrow> \<not> t > now) then OpAMPTokenExpired
     else OpAMPTokenActive)"

definition populateOpAMPTokenState :: "gotime \<Rightarrow> token_row \<Rightarrow> OpAMPToken" where
  "populateOpAMPTokenState now r =
    (let utc = map_option (\<lambda>t. (t, True)) in
     \<lparr>tk_ID = tr_id r, tk_Name = tr_name r, tk_Description = tr_description r, tk_Team = tr_team r,
      tk_Environment = tr_environment r, tk_CreatedAt = (tr_created_at r, True), tk_CreatedBy = tr_created_by r,
      tk_ExpiresAt = utc (tr_expires_at r), tk_LastUsedAt = utc (tr_last_used_at r), tk_RevokedAt = utc (tr_revoked_at r),
      tk_RevokedBy = (case tr_revoked_by r of None \<Rightarrow> [] | Some b \<Rightarrow> b), tk_Status = token_status now r\<rparr>)"

text \<open>The result is the token, whether this call revoked it, or the error.\<close>

definition RevokeOpAMPToken ::
    "uuid_parser \<Rightarrow> commit \<Rightarrow> string \<Rightarrow> string \<Rightarrow> ztime \<Rightarrow> AuditEvent \<Rightarrow> token_db \<Rightarrow> (token_error + OpAMPToken \<times> bool) \<times> token_db" where
  "RevokeOpAMPToken parse cm ident revokedBy now ev db =
    (if \<not> isCanonicalUUID parse ident then (Inl TokenNotFound, db)
     else case validateUTCTime ''revoked_at'' now of Some e \<Rightarrow> (Inl (arg_of e), db) | None \<Rightarrow>
     case validateTokenAuditEvent parse ev ''opamp.token.revoke'' ident revokedBy (fst now) of
       Some e \<Rightarrow> (Inl e, db) | None \<Rightarrow>
     if cm = BeginFails then (Inl TokenStoreFailure, db)
     else case find_token (db_tokens db) ident of
       None \<Rightarrow> (Inl TokenNotFound, db)
     | Some r \<Rightarrow>
         let token = populateOpAMPTokenState (fst now) r in
         if tk_RevokedAt token \<noteq> None then (Inr (token, False), db)
         else
           let r' = r\<lparr>tr_revoked_at := Some (fst now), tr_revoked_by := Some revokedBy\<rparr> in
           if \<not> token_checks r' then (Inl TokenStoreFailure, db)
           else case insertAuditOutboxEvent ev (db_outbox db) of
             Inl _ \<Rightarrow> (Inl TokenStoreFailure, db)
           | Inr ob \<Rightarrow>
               (case commit_tx cm db \<lparr>db_tokens = put_token r' (db_tokens db), db_outbox = ob\<rparr> of
                  (Some e, db') \<Rightarrow> (Inl e, db')
                | (None, db') \<Rightarrow>
                    (Inr (token\<lparr>tk_RevokedAt := Some (fst now, True), tk_RevokedBy := revokedBy, tk_Status := OpAMPTokenRevoked\<rparr>, True), db')))"

text \<open>For the read-only queries \<open>queryOK\<close> tells whether the database answered.\<close>

definition ListOpAMPTokens :: "bool \<Rightarrow> gotime \<Rightarrow> token_db \<Rightarrow> token_error + OpAMPToken list" where
  "ListOpAMPTokens queryOK now db =
    (if \<not> queryOK then Inl TokenStoreFailure
     else Inr (map (populateOpAMPTokenState now) (sort_key (\<lambda>r. (- tr_created_at r, tr_id r)) (db_tokens db))))"

definition dummyOpAMPTokenDigest :: "nat list" where
  "dummyOpAMPTokenDigest =
    [0x9f, 0xd4, 0x17, 0xe6, 0x4e, 0x98, 0xa8, 0xce, 0x90, 0x2d, 0x43, 0x60, 0x78, 0x25, 0xf1, 0xe7,
     0x3a, 0x22, 0xb4, 0x1b, 0xa5, 0x12, 0xeb, 0x2c, 0x81, 0x21, 0xee, 0x47, 0x69, 0x2a, 0x34, 0xf8]"

definition ValidateOpAMPToken :: "uuid_parser \<Rightarrow> bool \<Rightarrow> string \<Rightarrow> nat list \<Rightarrow> gotime \<Rightarrow> token_db \<Rightarrow> token_error + OpAMPTokenPrincipal" where
  "ValidateOpAMPToken parse queryOK ident presentedHash now db =
    (if \<not> isCanonicalUUID parse ident then Inl InvalidToken
     else if \<not> queryOK then Inl TokenStoreFailure
     else
       let row = find_token (db_tokens db) ident in
       if (case row of None \<Rightarrow> False | Some r \<Rightarrow> length (tr_secret_hash r) \<noteq> length dummyOpAMPTokenDigest)
       then Inl TokenStoreFailure
       else
         let digest = (case row of None \<Rightarrow> dummyOpAMPTokenDigest | Some r \<Rightarrow> tr_secret_hash r);
             hashMatches = (presentedHash = digest);
             revoked = (case row of None \<Rightarrow> False | Some r \<Rightarrow> tr_revoked_at r \<noteq> None);
             expired = (case row of None \<Rightarrow> False | Some r \<Rightarrow> (case tr_expires_at r of None \<Rightarrow> False | Some t \<Rightarrow> \<not> t > now))
         in if row = None \<or> \<not> hashMatches \<or> revoked \<or> expired then Inl InvalidToken
            else Inr \<lparr>pr_ID = ident, pr_ExpiresAt = (case row of None \<Rightarrow> None | Some r \<Rightarrow> tr_expires_at r)\<rparr>)"

definition opAMPTokenActivityWindow :: duration where "opAMPTokenActivityWindow = 30 * second"

text \<open>A failed commit is an ordinary error here, whether or not the update was applied.\<close>

definition mark_commit :: "commit \<Rightarrow> token_db \<Rightarrow> token_db \<Rightarrow> token_error option \<times> token_db" where
  "mark_commit cm db db' =
    (case commit_tx cm db db' of (None, d) \<Rightarrow> (None, d) | (Some _, d) \<Rightarrow> (Some TokenStoreFailure, d))"

definition MarkOpAMPTokenUsed :: "uuid_parser \<Rightarrow> commit \<Rightarrow> string \<Rightarrow> gotime \<Rightarrow> token_db \<Rightarrow> token_error option \<times> token_db" where
  "MarkOpAMPTokenUsed parse cm ident now db =
    (if \<not> isCanonicalUUID parse ident then (Some InvalidToken, db)
     else if cm = BeginFails then (Some TokenStoreFailure, db)
     else case find_token (db_tokens db) ident of
       None \<Rightarrow> (Some InvalidToken, db)
     | Some r \<Rightarrow>
         if tr_revoked_at r \<noteq> None \<or> (case tr_expires_at r of None \<Rightarrow> False | Some t \<Rightarrow> \<not> t > now) then (Some InvalidToken, db)
         else if (case tr_last_used_at r of None \<Rightarrow> True | Some t \<Rightarrow> \<not> t > timeAdd now (- opAMPTokenActivityWindow)) then
           (let r' = r\<lparr>tr_last_used_at := Some now\<rparr> in
            if \<not> token_checks r' then (Some TokenStoreFailure, db)
            else mark_commit cm db (db\<lparr>db_tokens := put_token r' (db_tokens db)\<rparr>))
         else mark_commit cm db db)"

section \<open>The handlers\<close>


text \<open>What one \<open>Decode\<close> of the size-limited body gives.\<close>

datatype 'a decoded = TooLarge | Malformed | EndOfBody | Decoded 'a




text \<open>The loop that draws an event identifier; \<open>None\<close> while all the draws equal the token's.\<close>

fun freshEventID :: "string \<Rightarrow> string list \<Rightarrow> string option" where
  "freshEventID tokenID [] = None"
| "freshEventID tokenID (d # ds) = (if d = tokenID then freshEventID tokenID ds else Some d)"

definition newOpAMPTokenAuditEvent :: "string list \<Rightarrow> string \<Rightarrow> string \<Rightarrow> gotime \<Rightarrow> UserInfo \<Rightarrow> AuditEvent option" where
  "newOpAMPTokenAuditEvent draws action tokenID occurredAt user =
    map_option (\<lambda>eventID.
      \<lparr>ev_EventID = eventID, ev_OccurredAt = (occurredAt, True), ev_Action = action, ev_UserID = ui_UserID user,
       ev_Email = ui_Email user, ev_Resource = ''opamp_token'', ev_ResourceID = tokenID, ev_Detail = []\<rparr>)
      (freshEventID tokenID draws)"

definition respondOpAMPTokenOutcomeUnknown :: "string \<Rightarrow> 'a response" where
  "respondOpAMPTokenOutcomeUnknown tokenID =
    Problem 503 [(''error'', ''operation outcome unknown''), (''side_effect_status'', sideEffectString sideEffectUnknown),
      (''token_id'', tokenID)]"

datatype token_payload =
  CreatedToken OpAMPToken string | TokenList "OpAMPToken list" | RevokedToken OpAMPToken nat

text \<open>What a request finds: the clock, the random draws and the fate of its transaction.\<close>

record token_env =
  te_now :: gotime
  te_secret :: "nat list option"
  te_newID :: "string option"
  te_draws :: "string list"
  te_commit :: commit



definition handleListOpAMPTokens :: "bool \<Rightarrow> gotime \<Rightarrow> token_db \<Rightarrow> token_payload response" where
  "handleListOpAMPTokens queryOK now db =
    (case ListOpAMPTokens queryOK now db of
       Inl _ \<Rightarrow> respondError 503 ''token store unavailable''
     | Inr tokens \<Rightarrow> Reply 200 (TokenList tokens))"

text \<open>The OpAMP server may be absent; its operation is an argument here.\<close>

definition disconnectTokenConnections :: "(string \<Rightarrow> 'o \<Rightarrow> nat \<times> 'o) \<Rightarrow> string \<Rightarrow> 'o option \<Rightarrow> nat \<times> 'o option" where
  "disconnectTokenConnections disconnect tokenID opamp =
    (case opamp of None \<Rightarrow> (0, None) | Some s \<Rightarrow> (case disconnect tokenID s of (n, s') \<Rightarrow> (n, Some s')))"

definition handleRevokeOpAMPToken ::
    "uuid_parser \<Rightarrow> (string \<Rightarrow> 'o \<Rightarrow> nat \<times> 'o) \<Rightarrow> token_env \<Rightarrow> UserInfo \<Rightarrow> string \<Rightarrow> token_db \<Rightarrow> 'o option
      \<Rightarrow> (token_payload response \<times> token_db \<times> 'o option) option" where
  "handleRevokeOpAMPToken parse disconnect env user tokenID db opamp =
    map_option (\<lambda>ev.
      (case RevokeOpAMPToken parse (te_commit env) tokenID (ui_UserID user) (te_now env, True) ev db of
         (Inl e, db') \<Rightarrow>
           (if e = TokenNotFound then (respondError 404 ''token not found'', db', opamp)
            else if e = CommitOutcomeUnknown
            then (respondOpAMPTokenOutcomeUnknown tokenID, db', snd (disconnectTokenConnections disconnect tokenID opamp))
            else (respondError 503 ''token store unavailable'', db', opamp))
       | (Inr (token, _), db') \<Rightarrow>
           (case disconnectTokenConnections disconnect tokenID opamp of
              (n, opamp') \<Rightarrow> (Reply 200 (RevokedToken token n), db', opamp'))))
      (newOpAMPTokenAuditEvent (te_draws env) ''opamp.token.revoke'' tokenID (te_now env) user)"

section \<open>Lemmas on the text and the table\<close>

lemma Split_two: "Split s c = [p, q] \<longleftrightarrow> s = p @ c # q \<and> c \<notin> set p \<and> c \<notin> set q"
proof
  assume *: "Split s c = [p, q]"
  then show "s = p @ c # q \<and> c \<notin> set p \<and> c \<notin> set q"
    using Join_Split [of s c] Split_no_sep [of _ s c] by simp
qed (simp add: Split_append_sep Split_single)

lemma length_secret: "length secret = 32 \<Longrightarrow> length (base64_EncodeToString secret) = 43"
  by (simp add: base64_EncodeToString_def length_b64_enc)

lemma isCanonicalUUID_iff: "isCanonicalUUID parse i \<longleftrightarrow> parse i = Some i"
  by (auto simp: isCanonicalUUID_def split: option.splits)

lemma ParseAndHash_iff:
  "ParseAndHash parse v = Some (i, h) \<longleftrightarrow>
    (\<exists>secret. v = tokenPrefix @ i @ ''.'' @ base64_EncodeToString secret \<and> isCanonicalUUID parse i \<and> CHR ''.'' \<notin> set i
      \<and> length secret = 32 \<and> set secret \<subseteq> {..<256} \<and> h = Sum256 v)"
  (is "?l \<longleftrightarrow> (\<exists>secret. ?r secret)")
proof
  assume l: ?l
  then obtain w where v: "v = tokenPrefix @ w"
    by (auto simp: ParseAndHash_def HasPrefix_def prefix_def split: if_splits)
  with l obtain p0 p1 where w: "Split w (CHR ''.'') = [p0, p1]"
    by (auto simp: ParseAndHash_def HasPrefix_def TrimPrefix_def split: list.splits if_splits)
  with l v obtain secret where "base64_DecodeString p1 = Some secret" "length secret = 32" "base64_EncodeToString secret = p1"
    "parse p0 = Some i" "p0 = i" "h = Sum256 v"
    by (auto simp: ParseAndHash_def HasPrefix_def TrimPrefix_def secretLength_def split: option.splits if_splits)
  moreover from w have "w = p0 @ CHR ''.'' # p1" "CHR ''.'' \<notin> set p0"
    by (simp_all add: Split_two)
  ultimately have "?r secret"
    using base64_decode_bytes [of p1 secret] v by (auto simp: isCanonicalUUID_iff)
  then show "\<exists>secret. ?r secret" ..
next
  assume "\<exists>secret. ?r secret"
  then obtain secret where r: "?r secret" ..
  then have b: "\<forall>b \<in> set secret. b < 256"
    by auto
  have "Split (i @ CHR ''.'' # base64_EncodeToString secret) (CHR ''.'') = [i, base64_EncodeToString secret]"
    using r base64_no_dot [OF b] by (simp add: Split_two)
  then show ?l
    using r length_secret base64_roundtrip [OF b]
    by (simp add: ParseAndHash_def HasPrefix_def TrimPrefix_def isCanonicalUUID_iff encodedSecretSize_def secretLength_def)
qed

lemma find_token_Some: "find_token rs i = Some r \<Longrightarrow> r \<in> set rs \<and> tr_id r = i"
  by (induction rs) (auto split: if_splits)

lemma find_token_None: "find_token rs i = None \<longleftrightarrow> i \<notin> tr_id ` set rs"
  by (induction rs) auto

lemma find_token_append: "find_token (rs @ [r]) i = (case find_token rs i of None \<Rightarrow> if tr_id r = i then Some r else None | Some x \<Rightarrow> Some x)"
  by (induction rs) auto

lemma find_put_token: "find_token (put_token r rs) i =
    (if i = tr_id r \<and> find_token rs i \<noteq> None then Some r else find_token rs i)"
  by (induction rs) (auto simp: put_token_def)

lemma ids_put_token [simp]: "map tr_id (put_token r rs) = map tr_id rs"
  by (induction rs) (auto simp: put_token_def)

lemma commit_tx_cases:
  "snd (commit_tx cm db db') = db \<or> snd (commit_tx cm db db') = db'"
  "fst (commit_tx cm db db') = None \<longleftrightarrow> cm = Committed"
  "cm = Committed \<Longrightarrow> snd (commit_tx cm db db') = db'"
  by (auto simp: commit_tx_def split: commit.splits)

lemma snd_mark_commit [simp]: "snd (mark_commit cm db db') = snd (commit_tx cm db db')"
  by (simp add: mark_commit_def split: prod.splits option.splits)

text \<open>What each operation can do to the database, on every branch.\<close>

lemma CreateOpAMPToken_effect:
  obtains "snd (CreateOpAMPToken parse cm cred ev db) = db" "fst (CreateOpAMPToken parse cm cred ev db) \<noteq> None"
  | ob where "insertAuditOutboxEvent ev (db_outbox db) = Inr ob" "find_token (db_tokens db) (tk_ID (cr_Token cred)) = None"
      "token_checks (new_token_row cred)"
      "validateTokenAuditEvent parse ev ''opamp.token.create'' (tk_ID (cr_Token cred)) (tk_CreatedBy (cr_Token cred)) (fst (tk_CreatedAt (cr_Token cred))) = None"
      "isCanonicalUUID parse (tk_ID (cr_Token cred))"
      "snd (CreateOpAMPToken parse cm cred ev db) = \<lparr>db_tokens = db_tokens db @ [new_token_row cred], db_outbox = ob\<rparr>"
proof (cases "snd (CreateOpAMPToken parse cm cred ev db) = db \<and> fst (CreateOpAMPToken parse cm cred ev db) \<noteq> None")
  case False
  have id: "tr_id (new_token_row cred) = tk_ID (cr_Token cred)"
    by (simp add: new_token_row_def Let_def)
  show thesis
  proof (cases "insertAuditOutboxEvent ev (db_outbox db)")
    case (Inr ob)
    then show thesis
      using False id that(2)
      by (auto simp: CreateOpAMPToken_def Let_def commit_tx_def split: option.splits if_splits sum.splits commit.splits)
  qed (use False in \<open>auto simp: CreateOpAMPToken_def Let_def split: option.splits if_splits sum.splits\<close>)
qed (use that in blast)

lemma RevokeOpAMPToken_effect:
  fixes parse cm i who now ev db
  defines "R \<equiv> RevokeOpAMPToken parse cm i who now ev db"
  obtains e where "R = (Inl e, db)"
  | t r where "R = (Inr (t, False), db)" "find_token (db_tokens db) i = Some r" "tr_revoked_at r \<noteq> None"
  | r ob where "find_token (db_tokens db) i = Some r" "tr_revoked_at r = None"
      "token_checks (r\<lparr>tr_revoked_at := Some (fst now), tr_revoked_by := Some who\<rparr>)"
      "insertAuditOutboxEvent ev (db_outbox db) = Inr ob"
      "validateTokenAuditEvent parse ev ''opamp.token.revoke'' i who (fst now) = None"
      "snd R = \<lparr>db_tokens = put_token (r\<lparr>tr_revoked_at := Some (fst now), tr_revoked_by := Some who\<rparr>) (db_tokens db), db_outbox = ob\<rparr>"
proof -
  define D where "D r ob = \<lparr>db_tokens = put_token (r\<lparr>tr_revoked_at := Some (fst now), tr_revoked_by := Some who\<rparr>) (db_tokens db), db_outbox = ob\<rparr>"
    for r ob
  have st: "tk_RevokedAt (populateOpAMPTokenState (fst now) r) = None \<longleftrightarrow> tr_revoked_at r = None" for r
    by (simp add: populateOpAMPTokenState_def Let_def)
  have "(\<exists>e. R = (Inl e, db))
    \<or> (\<exists>t r. R = (Inr (t, False), db) \<and> find_token (db_tokens db) i = Some r \<and> tr_revoked_at r \<noteq> None)
    \<or> (\<exists>r ob. find_token (db_tokens db) i = Some r \<and> tr_revoked_at r = None
        \<and> token_checks (r\<lparr>tr_revoked_at := Some (fst now), tr_revoked_by := Some who\<rparr>)
        \<and> insertAuditOutboxEvent ev (db_outbox db) = Inr ob
        \<and> validateTokenAuditEvent parse ev ''opamp.token.revoke'' i who (fst now) = None \<and> snd R = D r ob)"
    unfolding R_def RevokeOpAMPToken_def Let_def D_def [symmetric] st commit_tx_def
    by (simp split: option.split sum.split commit.split if_split) blast?
  then show thesis
    using that unfolding D_def by blast
qed

lemma MarkOpAMPTokenUsed_effect:
  obtains "snd (MarkOpAMPTokenUsed parse cm i now db) = db"
  | r where "find_token (db_tokens db) i = Some r" "tr_revoked_at r = None"
      "token_checks (r\<lparr>tr_last_used_at := Some now\<rparr>)"
      "snd (MarkOpAMPTokenUsed parse cm i now db) = db\<lparr>db_tokens := put_token (r\<lparr>tr_last_used_at := Some now\<rparr>) (db_tokens db)\<rparr>"
proof -
  define D where "D r = db\<lparr>db_tokens := put_token (r\<lparr>tr_last_used_at := Some now\<rparr>) (db_tokens db)\<rparr>" for r
  have "snd (MarkOpAMPTokenUsed parse cm i now db) = db
    \<or> (\<exists>r. find_token (db_tokens db) i = Some r \<and> tr_revoked_at r = None \<and> token_checks (r\<lparr>tr_last_used_at := Some now\<rparr>)
        \<and> snd (MarkOpAMPTokenUsed parse cm i now db) = D r)"
    unfolding MarkOpAMPTokenUsed_def Let_def D_def [symmetric] mark_commit_def commit_tx_def
    by (simp split: option.split commit.split if_split)
  then show thesis
    using that unfolding D_def by blast
qed

lemma insert_events:
  "insertAuditOutboxEvent ev tab = Inr ob \<Longrightarrow> map ob_Event ob = map ob_Event tab @ [ev]"
  by (auto simp: insertAuditOutboxEvent_def split: if_splits)

lemma claim_events: "map ob_Event (snd (ClaimAuditOutboxEvent parse locked tok now lease tab)) = map ob_Event tab"
  by (auto simp: ClaimAuditOutboxEvent_def update_row_def split: option.splits list.splits)

lemma complete_events:
  "map ob_Event (snd (MarkAuditOutboxEventDelivered parse e tok t tab)) = map ob_Event tab"
  "map ob_Event (snd (RescheduleAuditOutboxEvent parse e tok t t' tab)) = map ob_Event tab"
  by (auto simp: MarkAuditOutboxEventDelivered_def RescheduleAuditOutboxEvent_def complete_rows_def split: option.splits)

section \<open>Sequences of operations\<close>

inductive token_step :: "uuid_parser \<Rightarrow> token_db \<Rightarrow> token_db \<Rightarrow> bool" for parse where
  create: "token_step parse db (snd (CreateOpAMPToken parse cm cred ev db))"
| revoke: "token_step parse db (snd (RevokeOpAMPToken parse cm i who now ev db))"
| used: "token_step parse db (snd (MarkOpAMPTokenUsed parse cm i t db))"
| claim: "token_step parse db (db\<lparr>db_outbox := snd (ClaimAuditOutboxEvent parse locked tok now lease (db_outbox db))\<rparr>)"
| deliver: "token_step parse db (db\<lparr>db_outbox := snd (MarkAuditOutboxEventDelivered parse e tok now (db_outbox db))\<rparr>)"
| retry: "token_step parse db (db\<lparr>db_outbox := snd (RescheduleAuditOutboxEvent parse e tok now lease (db_outbox db))\<rparr>)"

abbreviation token_run :: "uuid_parser \<Rightarrow> token_db \<Rightarrow> token_db \<Rightarrow> bool" where
  "token_run parse \<equiv> (token_step parse)\<^sup>*\<^sup>*"

definition empty_token_db :: token_db where
  "empty_token_db = \<lparr>db_tokens = [], db_outbox = []\<rparr>"

text \<open>A row only ever gains a revocation; everything that decides its validity stays.\<close>

definition row_evolves :: "token_row \<Rightarrow> token_row \<Rightarrow> bool" where
  "row_evolves r r' \<longleftrightarrow>
    tr_id r' = tr_id r \<and> tr_secret_hash r' = tr_secret_hash r \<and> tr_created_at r' = tr_created_at r
    \<and> tr_created_by r' = tr_created_by r \<and> tr_expires_at r' = tr_expires_at r
    \<and> (tr_revoked_at r = None \<or> tr_revoked_at r' = tr_revoked_at r \<and> tr_revoked_by r' = tr_revoked_by r)"

lemma row_evolves_refl [simp]: "row_evolves r r"
  by (simp add: row_evolves_def)

lemma row_evolves_trans: "row_evolves r s \<Longrightarrow> row_evolves s t \<Longrightarrow> row_evolves r t"
  by (auto simp: row_evolves_def)

lemma put_row:
  assumes "find_token rs i = Some r" and "find_token rs j = Some q" and "row_evolves q q'"
  shows "\<exists>r'. find_token (put_token q' rs) i = Some r' \<and> row_evolves r r'"
proof -
  have "tr_id q' = j"
    using assms(2,3) by (auto simp: row_evolves_def dest: find_token_Some)
  then show ?thesis
    using assms by (auto simp: find_put_token)
qed

lemma create_row:
  assumes "find_token (db_tokens db) i = Some r"
  shows "find_token (db_tokens (snd (CreateOpAMPToken parse cm cred ev db))) i = Some r"
  by (rule CreateOpAMPToken_effect [of parse cm cred ev db]) (simp_all add: assms find_token_append)

lemma revoke_row:
  assumes "find_token (db_tokens db) i = Some r"
  shows "\<exists>r'. find_token (db_tokens (snd (RevokeOpAMPToken parse cm j who now ev db))) i = Some r' \<and> row_evolves r r'"
proof (rule RevokeOpAMPToken_effect [of parse cm j who now ev db])
  fix q ob
  assume q: "find_token (db_tokens db) j = Some q" "tr_revoked_at q = None"
    and "snd (RevokeOpAMPToken parse cm j who now ev db) =
      \<lparr>db_tokens = put_token (q\<lparr>tr_revoked_at := Some (fst now), tr_revoked_by := Some who\<rparr>) (db_tokens db), db_outbox = ob\<rparr>"
  then show ?thesis
    using put_row [OF assms q(1), of "q\<lparr>tr_revoked_at := Some (fst now), tr_revoked_by := Some who\<rparr>"]
    by (simp add: row_evolves_def)
qed (simp_all add: assms)

lemma used_row:
  assumes "find_token (db_tokens db) i = Some r"
  shows "\<exists>r'. find_token (db_tokens (snd (MarkOpAMPTokenUsed parse cm j t db))) i = Some r' \<and> row_evolves r r'"
proof (rule MarkOpAMPTokenUsed_effect [of parse cm j t db])
  fix q
  assume q: "find_token (db_tokens db) j = Some q"
    and "snd (MarkOpAMPTokenUsed parse cm j t db) = db\<lparr>db_tokens := put_token (q\<lparr>tr_last_used_at := Some t\<rparr>) (db_tokens db)\<rparr>"
  then show ?thesis
    using put_row [OF assms q, of "q\<lparr>tr_last_used_at := Some t\<rparr>"] by (simp add: row_evolves_def)
qed (simp_all add: assms)

lemma step_row:
  assumes "token_step parse db db'" and "find_token (db_tokens db) i = Some r"
  shows "\<exists>r'. find_token (db_tokens db') i = Some r' \<and> row_evolves r r'"
  using assms by cases (simp_all add: create_row revoke_row used_row)

lemma run_row:
  assumes "token_run parse db db'" and "find_token (db_tokens db) i = Some r"
  shows "\<exists>r'. find_token (db_tokens db') i = Some r' \<and> row_evolves r r'"
  using assms
proof (induction rule: rtranclp_induct)
  case (step y z)
  then show ?case
    by (metis row_evolves_trans step_row)
qed auto

section \<open>The audit trail of the token table\<close>

text \<open>The outbox events with an action, as resource, actor and time; and what the rows should have left there.\<close>

type_synonym audit_entry = "string \<times> string \<times> gotime"

definition audit_trail :: "string \<Rightarrow> token_db \<Rightarrow> audit_entry list" where
  "audit_trail action db =
    map (\<lambda>e. (ev_ResourceID e, ev_UserID e, fst (ev_OccurredAt e))) (filter (\<lambda>e. ev_Action e = action) (map ob_Event (db_outbox db)))"

definition creations :: "token_row list \<Rightarrow> audit_entry list" where
  "creations rs = map (\<lambda>r. (tr_id r, tr_created_by r, tr_created_at r)) rs"

definition revocation :: "token_row \<Rightarrow> audit_entry list" where
  "revocation r = (case (tr_revoked_at r, tr_revoked_by r) of (Some t, Some b) \<Rightarrow> [(tr_id r, b, t)] | _ \<Rightarrow> [])"

definition revocations :: "token_row list \<Rightarrow> audit_entry list" where
  "revocations rs = concat (map revocation rs)"

definition token_inv :: "token_db \<Rightarrow> bool" where
  "token_inv db \<longleftrightarrow>
    distinct (map tr_id (db_tokens db)) \<and> list_all token_checks (db_tokens db)
    \<and> audit_trail ''opamp.token.create'' db = creations (db_tokens db)
    \<and> mset (audit_trail ''opamp.token.revoke'' db) = mset (revocations (db_tokens db))"

lemma validate_event_facts:
  assumes "validateTokenAuditEvent parse ev action i who t = None"
  shows "ev_Action ev = action" "ev_ResourceID ev = i" "ev_UserID ev = who" "fst (ev_OccurredAt ev) = t"
  using assms by (auto simp: validateTokenAuditEvent_def split: if_splits option.splits)

lemma audit_trail_insert:
  assumes "insertAuditOutboxEvent ev (db_outbox db) = Inr ob"
  shows "audit_trail a \<lparr>db_tokens = ts, db_outbox = ob\<rparr> =
    audit_trail a db @ (if ev_Action ev = a then [(ev_ResourceID ev, ev_UserID ev, fst (ev_OccurredAt ev))] else [])"
  using insert_events [OF assms] by (simp add: audit_trail_def)

lemma creations_put: "find_token rs (tr_id r') = Some r \<Longrightarrow> row_evolves r r' \<Longrightarrow> distinct (map tr_id rs) \<Longrightarrow>
    creations (put_token r' rs) = creations rs"
proof (induction rs)
  case (Cons x rs)
  then show ?case
    by (cases "tr_id x = tr_id r'") (auto simp: creations_def put_token_def row_evolves_def image_iff)
qed simp

lemma put_token_other: "tr_id r \<notin> tr_id ` set rs \<Longrightarrow> put_token r rs = rs"
  by (induction rs) (auto simp: put_token_def)

lemma revocations_put:
  "find_token rs (tr_id r') = Some r \<Longrightarrow> distinct (map tr_id rs) \<Longrightarrow>
    mset (revocations (put_token r' rs)) + mset (revocation r) = mset (revocations rs) + mset (revocation r')"
proof (induction rs)
  case (Cons x rs)
  have step: "put_token r' (x # rs) = (if tr_id x = tr_id r' then r' else x) # put_token r' rs"
    by (simp add: put_token_def)
  show ?case
  proof (cases "tr_id x = tr_id r'")
    case True
    then show ?thesis
      using Cons.prems put_token_other [of r' rs] step by (auto simp: revocations_def)
  next
    case False
    then show ?thesis
      using Cons step by (simp add: revocations_def add.assoc)
  qed
qed simp

lemma checks_put: "list_all token_checks rs \<Longrightarrow> token_checks r \<Longrightarrow> list_all token_checks (put_token r rs)"
  by (auto simp: list_all_iff put_token_def)

lemma inv_create:
  assumes "token_inv db"
  shows "token_inv (snd (CreateOpAMPToken parse cm cred ev db))"
proof (rule CreateOpAMPToken_effect [of parse cm cred ev db])
  fix ob
  assume ob: "insertAuditOutboxEvent ev (db_outbox db) = Inr ob"
    and new: "find_token (db_tokens db) (tk_ID (cr_Token cred)) = None" "token_checks (new_token_row cred)"
    and ev: "validateTokenAuditEvent parse ev ''opamp.token.create'' (tk_ID (cr_Token cred)) (tk_CreatedBy (cr_Token cred)) (fst (tk_CreatedAt (cr_Token cred))) = None"
    and eq: "snd (CreateOpAMPToken parse cm cred ev db) = \<lparr>db_tokens = db_tokens db @ [new_token_row cred], db_outbox = ob\<rparr>"
  have row: "tr_id (new_token_row cred) = tk_ID (cr_Token cred)" "tr_created_by (new_token_row cred) = tk_CreatedBy (cr_Token cred)"
    "tr_created_at (new_token_row cred) = fst (tk_CreatedAt (cr_Token cred))" "revocation (new_token_row cred) = []"
    by (simp_all add: new_token_row_def Let_def revocation_def)
  then show ?thesis
    using assms new(2) new(1) [unfolded find_token_None]
    by (simp add: eq token_inv_def audit_trail_insert [OF ob] validate_event_facts [OF ev] creations_def revocations_def)
qed (simp_all add: assms)

lemma inv_revoke:
  assumes "token_inv db"
  shows "token_inv (snd (RevokeOpAMPToken parse cm i who now ev db))"
proof (rule RevokeOpAMPToken_effect [of parse cm i who now ev db])
  fix r :: token_row and ob
  let ?r = "r\<lparr>tr_revoked_at := Some (fst now), tr_revoked_by := Some who\<rparr>"
  assume r: "find_token (db_tokens db) i = Some r" "tr_revoked_at r = None" and chk: "token_checks ?r"
    and ob: "insertAuditOutboxEvent ev (db_outbox db) = Inr ob"
    and ev: "validateTokenAuditEvent parse ev ''opamp.token.revoke'' i who (fst now) = None"
    and eq: "snd (RevokeOpAMPToken parse cm i who now ev db) = \<lparr>db_tokens = put_token ?r (db_tokens db), db_outbox = ob\<rparr>"
  have i: "tr_id r = i"
    using r(1) find_token_Some by blast
  have "creations (put_token ?r (db_tokens db)) = creations (db_tokens db)"
    using creations_put [of "db_tokens db" ?r r] r i assms by (simp add: row_evolves_def token_inv_def)
  moreover have "mset (revocations (put_token ?r (db_tokens db))) = mset (revocations (db_tokens db)) + {#(i, who, fst now)#}"
    using revocations_put [of "db_tokens db" ?r r] r i assms by (simp add: revocation_def token_inv_def)
  ultimately show ?thesis
    using assms checks_put [OF _ chk]
    by (simp add: eq token_inv_def audit_trail_insert [OF ob] validate_event_facts [OF ev])
qed (simp_all add: assms)

lemma inv_used:
  assumes "token_inv db"
  shows "token_inv (snd (MarkOpAMPTokenUsed parse cm i t db))"
proof (rule MarkOpAMPTokenUsed_effect [of parse cm i t db])
  fix r :: token_row
  let ?r = "r\<lparr>tr_last_used_at := Some t\<rparr>"
  assume r: "find_token (db_tokens db) i = Some r" "tr_revoked_at r = None" and chk: "token_checks ?r"
    and eq: "snd (MarkOpAMPTokenUsed parse cm i t db) = db\<lparr>db_tokens := put_token ?r (db_tokens db)\<rparr>"
  have i: "tr_id r = i"
    using r(1) find_token_Some by blast
  have "creations (put_token ?r (db_tokens db)) = creations (db_tokens db)"
    using creations_put [of "db_tokens db" ?r r] r i assms by (simp add: row_evolves_def token_inv_def)
  moreover have "mset (revocations (put_token ?r (db_tokens db))) = mset (revocations (db_tokens db))"
    using revocations_put [of "db_tokens db" ?r r] r i assms by (simp add: revocation_def token_inv_def)
  ultimately show ?thesis
    using assms checks_put [OF _ chk] by (simp add: eq token_inv_def audit_trail_def)
qed (simp_all add: assms)

lemma inv_outbox: "token_inv db \<Longrightarrow> map ob_Event ob = map ob_Event (db_outbox db) \<Longrightarrow> token_inv (db\<lparr>db_outbox := ob\<rparr>)"
  by (simp add: token_inv_def audit_trail_def)

lemma inv_step: "token_step parse db db' \<Longrightarrow> token_inv db \<Longrightarrow> token_inv db'"
  by (induction rule: token_step.induct)
     (simp_all add: inv_create inv_revoke inv_used inv_outbox claim_events complete_events)

lemma inv_run: "token_run parse db db' \<Longrightarrow> token_inv db \<Longrightarrow> token_inv db'"
  by (induction rule: rtranclp_induct) (auto intro: inv_step)

lemma inv_empty: "token_inv empty_token_db"
  by (simp add: token_inv_def empty_token_db_def audit_trail_def creations_def revocations_def)

lemma find_checks: "token_inv db \<Longrightarrow> find_token (db_tokens db) i = Some r \<Longrightarrow> token_checks r"
  using find_token_Some by (fastforce simp: token_inv_def list_all_iff)

text \<open>When a row is usable at a time.\<close>

definition row_live :: "gotime \<Rightarrow> token_row \<Rightarrow> bool" where
  "row_live now r \<longleftrightarrow> tr_revoked_at r = None \<and> (case tr_expires_at r of None \<Rightarrow> True | Some t \<Rightarrow> now < t)"

lemma Validate_eq:
  assumes "find_token (db_tokens db) i = Some r" and "length (tr_secret_hash r) = 32" and "isCanonicalUUID parse i"
  shows "ValidateOpAMPToken parse True i h now db =
    (if h = tr_secret_hash r \<and> row_live now r then Inr \<lparr>pr_ID = i, pr_ExpiresAt = tr_expires_at r\<rparr> else Inl InvalidToken)"
  using assms
  by (auto simp: ValidateOpAMPToken_def Let_def row_live_def dummyOpAMPTokenDigest_def split: option.splits)

lemma Validate_none:
  assumes "find_token (db_tokens db) i = None \<or> \<not> isCanonicalUUID parse i"
  shows "ValidateOpAMPToken parse True i h now db = Inl InvalidToken"
  using assms by (auto simp: ValidateOpAMPToken_def Let_def)

lemma checks_hash: "token_checks r \<Longrightarrow> length (tr_secret_hash r) = 32"
  by (simp add: token_checks_def)

section \<open>Properties\<close>

text \<open>
  C12: the parser of bearer values accepts exactly the values the generator can produce: the prefix, a
  canonical identifier without a dot, a dot and the encoding of 32 bytes; it returns that identifier
  with the digest of the whole value.
\<close>

theorem ParseAndHash_accepts:
  "ParseAndHash parse v = Some (i, h) \<longleftrightarrow>
    (\<exists>secret g. Generate (Some secret) (Some i) = Some g \<and> gn_Value g = v \<and> gn_SecretHash g = h
      \<and> isCanonicalUUID parse i \<and> CHR ''.'' \<notin> set i \<and> length secret = secretLength \<and> set secret \<subseteq> {..<256})"
  by (auto simp: ParseAndHash_iff Generate_def Let_def secretLength_def)

text \<open>
  C7: a presented token is accepted exactly when its row exists with the same digest, is not revoked and
  has not expired; the principal carries its expiry; and every rejection is the same error, whatever
  the reason, at every state the table can reach.
\<close>

theorem ValidateOpAMPToken_iff:
  assumes "token_run parse empty_token_db db" and "isCanonicalUUID parse i"
  shows "ValidateOpAMPToken parse True i h now db =
    (case find_token (db_tokens db) i of
       None \<Rightarrow> Inl InvalidToken
     | Some r \<Rightarrow> if h = tr_secret_hash r \<and> row_live now r then Inr \<lparr>pr_ID = i, pr_ExpiresAt = tr_expires_at r\<rparr>
                 else Inl InvalidToken)"
  using Validate_none Validate_eq [OF _ _ assms(2)] checks_hash find_checks [OF inv_run [OF assms(1) inv_empty]] assms(2)
  by (auto split: option.split)

definition demo_tid :: string where "demo_tid = ''t-1''"

definition demo_cred :: OpAMPTokenCredential where
  "demo_cred = \<lparr>cr_Token = \<lparr>tk_ID = demo_tid, tk_Name = ''prod'', tk_Description = [], tk_Team = [], tk_Environment = [],
      tk_CreatedAt = (10, True), tk_CreatedBy = ''admin'', tk_ExpiresAt = Some (20, True), tk_LastUsedAt = None,
      tk_RevokedAt = None, tk_RevokedBy = [], tk_Status = OpAMPTokenActive\<rparr>,
    cr_SecretHash = replicate 32 7\<rparr>"

definition demo_event :: "string \<Rightarrow> gotime \<Rightarrow> AuditEvent" where
  "demo_event action t = \<lparr>ev_EventID = ''e-'' @ action, ev_OccurredAt = (t, True), ev_Action = action, ev_UserID = ''admin'',
    ev_Email = ''a@b'', ev_Resource = ''opamp_token'', ev_ResourceID = demo_tid, ev_Detail = []\<rparr>"

definition demo_db1 :: token_db where
  "demo_db1 = snd (CreateOpAMPToken Some Committed demo_cred (demo_event ''opamp.token.create'' 10) empty_token_db)"

definition demo_db2 :: token_db where
  "demo_db2 = snd (RevokeOpAMPToken Some Committed demo_tid ''admin'' (12, True) (demo_event ''opamp.token.revoke'' 12) demo_db1)"

lemma demo_db1_run: "token_run Some empty_token_db demo_db1"
  unfolding demo_db1_def by (rule r_into_rtranclp, rule token_step.create)

lemma demo_db2_run: "token_run Some demo_db1 demo_db2"
  unfolding demo_db2_def by (rule r_into_rtranclp, rule token_step.revoke)

lemma demo_find: "map_option tr_secret_hash (find_token (db_tokens demo_db1) demo_tid) = Some (replicate 32 7)"
  "map_option (row_live 15) (find_token (db_tokens demo_db1) demo_tid) = Some True"
  by code_simp+

theorem ValidateOpAMPToken_iff_witness:
  "ValidateOpAMPToken Some True demo_tid (replicate 32 7) 15 demo_db1 \<noteq> Inl InvalidToken"
  using ValidateOpAMPToken_iff [OF demo_db1_run, of demo_tid "replicate 32 7" 15] demo_find
  by (auto simp: isCanonicalUUID_def)

text \<open>
  C3: a revocation is final: once a revocation was answered with a token, or was applied although its
  commit was not acknowledged, no later operation of any kind makes the token valid or usable again,
  whatever digest is presented and whenever.
\<close>

theorem revoked_forever:
  assumes "RevokeOpAMPToken parse cm i who now ev db = (res, db1)"
    and "res = Inl CommitOutcomeUnknown \<and> db1 \<noteq> db \<or> (\<exists>t. res = Inr t)"
    and "token_inv db" and "token_run parse db1 db2"
  shows "ValidateOpAMPToken parse True i h t db2 = Inl InvalidToken
    \<and> MarkOpAMPTokenUsed parse Committed i t db2 = (Some InvalidToken, db2)"
proof -
  have inv: "token_inv db1"
    using inv_revoke [OF assms(3)] assms(1) by (metis snd_conv)
  obtain r where "find_token (db_tokens db1) i = Some r" "tr_revoked_at r \<noteq> None"
    using assms(1,2) find_token_Some
    by (cases rule: RevokeOpAMPToken_effect [of parse cm i who now ev db]) (auto simp: find_put_token)
  with run_row [OF assms(4)] obtain r2 where r2: "find_token (db_tokens db2) i = Some r2" "tr_revoked_at r2 \<noteq> None"
    by (metis row_evolves_def)
  then have "length (tr_secret_hash r2) = 32"
    using checks_hash find_checks inv_run [OF assms(4) inv] by blast
  then have "ValidateOpAMPToken parse True i h t db2 = Inl InvalidToken"
    using r2 Validate_none Validate_eq [OF r2(1)] by (cases "isCanonicalUUID parse i") (auto simp: row_live_def)
  then show ?thesis
    using r2 by (simp add: MarkOpAMPTokenUsed_def)
qed

theorem revoked_forever_witness:
  "ValidateOpAMPToken Some True demo_tid (replicate 32 7) 15 demo_db2 = Inl InvalidToken"
proof -
  obtain res where R: "RevokeOpAMPToken Some Committed demo_tid ''admin'' (12, True) (demo_event ''opamp.token.revoke'' 12) demo_db1 = (res, demo_db2)"
    by (metis demo_db2_def prod.collapse)
  have "(case fst (RevokeOpAMPToken Some Committed demo_tid ''admin'' (12, True) (demo_event ''opamp.token.revoke'' 12) demo_db1) of
      Inl _ \<Rightarrow> False | Inr _ \<Rightarrow> True)"
    by code_simp
  then have "\<exists>t. res = Inr t"
    using R by (cases res) simp_all
  then show ?thesis
    using revoked_forever [OF R _ inv_run [OF demo_db1_run inv_empty] rtranclp.rtrancl_refl, of "replicate 32 7" 15] by blast
qed

text \<open>
  C6: the audit trail is complete and exact: at every state the database can reach, also when commits fail
  or are lost and while the outbox is being dispatched, the creation events in the outbox are exactly
  the tokens of the table, in order, each with its creator and creation time, and the revocation events
  are exactly the revoked tokens, each with its revoker and revocation time.
\<close>

theorem token_audit_exact:
  assumes "token_run parse empty_token_db db"
  shows "audit_trail ''opamp.token.create'' db = creations (db_tokens db)
    \<and> mset (audit_trail ''opamp.token.revoke'' db) = mset (revocations (db_tokens db))
    \<and> distinct (map tr_id (db_tokens db))"
  using inv_run [OF assms inv_empty] by (simp add: token_inv_def)

theorem token_audit_exact_witness:
  "mset (audit_trail ''opamp.token.revoke'' demo_db2) = {#(demo_tid, ''admin'', 12)#}"
proof -
  have "revocations (db_tokens demo_db2) = [(demo_tid, ''admin'', 12)]"
    by code_simp
  then show ?thesis
    using token_audit_exact [OF rtranclp_trans [OF demo_db1_run demo_db2_run]] by simp
qed










end
