(* ===== verification/Token_Sessions.thy ===== *)
theory Token_Sessions
  imports Go_Strings
begin

text \<open>
  The live sessions of managed tokens, \<open>internal/opamp/token_connections.go\<close>: which sessions are
  tracked, the leases that cover an operation on a session, the tombstone a disabled token leaves, and
  the disabling, removing and stopping that wait for the leases to be released. Every critical section
  of the manager's mutex is one operation below; the goroutines that wait and complete are steps of
  their own, so a run is an interleaving of these steps.

  Sessions, leases, removals and disablings are allocated objects, and their addresses are positions
  in the lists of the state. The read side of a session's gate is the number of its readers, the write
  side is only ever taken to wait until there are none. A timer may fire at any moment after it was
  armed, even when it was stopped; the callback decides by the generation whether it is current.
\<close>

section \<open>State\<close>

record tokenSession =
  ts_ID :: string
  ts_ExpiresAt :: "gotime option"
  ts_conn :: "nat option"
  ts_readers :: nat

record tokenLease =
  tl_session :: nat
  tl_released :: bool

record tokenRemoveState =
  rm_session :: nat
  rm_drained :: bool
  rm_cleanupDone :: bool
  rm_done :: bool

text \<open>
  Where the goroutine that completes a disabling or a stop is: waiting for sessions, calling back,
  releasing the removals it owns, joining removals, joining disablings, or done.
\<close>

datatype completion =
  Draining "nat list" | Calling | Completing | Joining "nat list" | Awaiting "nat list" | Finished

record tokenDisableState =
  ds_sessions :: "nat list"
  ds_removals :: "nat list"
  ds_ownedRemovals :: "nat list"
  ds_result :: "nat list"
  ds_phase :: completion

record tokenStopState =
  st_sessions :: "nat list"
  st_active :: "nat list"
  st_ownedRemovals :: "nat list"
  st_removals :: "nat list"
  st_disableDone :: "nat list"
  st_phase :: completion

record tokenExpiryTimer =
  et_expiresAt :: gotime
  et_generation :: nat

text \<open>\<open>ds_result\<close> is the local of the completing goroutine, which it returns.\<close>

text \<open>A goroutine counted by the expiry wait group: about to check, or waiting for a disabling.\<close>

datatype expirer = Checking string nat | AwaitDisable nat

type_synonym ('k, 'v) buckets = "(string, ('k, 'v) gomap) gomap"

record tokenConnections =
  tc_heap :: "tokenSession list"
  tc_leases :: "tokenLease list"
  tc_removes :: "tokenRemoveState list"
  tc_disables :: "tokenDisableState list"
  tc_sessions :: "(nat, unit) gomap"
  tc_sessionsByID :: "(nat, unit) buckets"
  tc_removals :: "(nat, nat) gomap"
  tc_removalsByID :: "(nat, nat) buckets"
  tc_disableStates :: "(string, nat) gomap"
  tc_expiryTimers :: "(string, tokenExpiryTimer) gomap"
  tc_nextTimerID :: nat
  tc_stopState :: "tokenStopState option"
  tc_expiry :: "expirer list"
  tc_callbacks :: "nat list"

definition newTokenConnections :: tokenConnections where
  "newTokenConnections =
    \<lparr>tc_heap = [], tc_leases = [], tc_removes = [], tc_disables = [], tc_sessions = [], tc_sessionsByID = [],
     tc_removals = [], tc_removalsByID = [], tc_disableStates = [], tc_expiryTimers = [], tc_nextTimerID = 0,
     tc_stopState = None, tc_expiry = [], tc_callbacks = []\<rparr>"

text \<open>\<open>stopped\<close> is set together with the stop state and never reset.\<close>

abbreviation tc_stopped :: "tokenConnections \<Rightarrow> bool" where
  "tc_stopped m \<equiv> tc_stopState m \<noteq> None"

abbreviation sess :: "tokenConnections \<Rightarrow> nat \<Rightarrow> tokenSession" where
  "sess m s \<equiv> tc_heap m ! s"

definition bucket :: "('k, 'v) buckets \<Rightarrow> string \<Rightarrow> ('k, 'v) gomap" where
  "bucket bs t = (case mget bs t of None \<Rightarrow> [] | Some b \<Rightarrow> b)"

definition expired :: "gotime \<Rightarrow> tokenSession \<Rightarrow> bool" where
  "expired now s = (case ts_ExpiresAt s of None \<Rightarrow> False | Some t \<Rightarrow> \<not> t > now)"

section \<open>Operations under the mutex\<close>

text \<open>A deletion from a bucket that drops the bucket when it becomes empty.\<close>

definition bucket_del :: "string \<Rightarrow> nat \<Rightarrow> (nat, 'v) buckets \<Rightarrow> (nat, 'v) buckets" where
  "bucket_del t s bs =
    (let b = mdel s (bucket bs t) in if mlen b = 0 then mdel t bs else mput t b bs)"

definition detachSessionLocked :: "nat \<Rightarrow> tokenConnections \<Rightarrow> tokenConnections" where
  "detachSessionLocked s m =
    m\<lparr>tc_sessions := mdel s (tc_sessions m), tc_sessionsByID := bucket_del (ts_ID (sess m s)) s (tc_sessionsByID m)\<rparr>"

definition registerRemoveLocked :: "nat \<Rightarrow> tokenConnections \<Rightarrow> nat \<times> bool \<times> tokenConnections" where
  "registerRemoveLocked s m =
    (case mget (tc_removals m) s of
       Some r \<Rightarrow> (r, False, m)
     | None \<Rightarrow>
         let r = length (tc_removes m); t = ts_ID (sess m s) in
         (r, True,
          m\<lparr>tc_removes := tc_removes m @ [\<lparr>rm_session = s, rm_drained = False, rm_cleanupDone = False, rm_done = False\<rparr>],
            tc_removals := mput s r (tc_removals m),
            tc_removalsByID := mput t (mput s r (bucket (tc_removalsByID m) t)) (tc_removalsByID m)\<rparr>))"

text \<open>The earliest expiry of the sessions of a token.\<close>

definition earliest :: "tokenConnections \<Rightarrow> string \<Rightarrow> gotime option" where
  "earliest m t =
    foldl (\<lambda>e (s, _). case ts_ExpiresAt (sess m s) of None \<Rightarrow> e
                      | Some x \<Rightarrow> (case e of None \<Rightarrow> Some x | Some y \<Rightarrow> if x < y then Some x else Some y))
      None (bucket (tc_sessionsByID m) t)"

definition scheduleExpiryLocked :: "string \<Rightarrow> tokenConnections \<Rightarrow> tokenConnections" where
  "scheduleExpiryLocked t m =
    (case earliest m t of
       None \<Rightarrow> m\<lparr>tc_expiryTimers := mdel t (tc_expiryTimers m)\<rparr>
     | Some x \<Rightarrow>
         if (case mget (tc_expiryTimers m) t of None \<Rightarrow> False | Some c \<Rightarrow> et_expiresAt c = x) then m
         else
           let g = (tc_nextTimerID m + 1) mod 2 ^ 64 in
           m\<lparr>tc_nextTimerID := g, tc_expiryTimers := mput t \<lparr>et_expiresAt = x, et_generation = g\<rparr> (tc_expiryTimers m)\<rparr>)"

text \<open>The loop of a disabling over the tracked sessions of its token.\<close>

fun disableLoop :: "nat list \<Rightarrow> tokenConnections \<times> tokenDisableState \<Rightarrow> tokenConnections \<times> tokenDisableState" where
  "disableLoop [] (m, st) = (m, st)"
| "disableLoop (s # ss) (m, st) =
    (case registerRemoveLocked s (m\<lparr>tc_sessions := mdel s (tc_sessions m)\<rparr>) of
       (r, created, m') \<Rightarrow>
         disableLoop ss (m', st\<lparr>ds_sessions := appendUnique (ds_sessions st) s, ds_removals := ds_removals st @ [r],
           ds_ownedRemovals := (if created then ds_ownedRemovals st @ [r] else ds_ownedRemovals st)\<rparr>))"

text \<open>The winner's completion starts by waiting for the sessions it collected.\<close>

definition beginDisableLocked :: "string \<Rightarrow> tokenConnections \<Rightarrow> nat \<times> bool \<times> tokenConnections" where
  "beginDisableLocked t m =
    (case mget (tc_disableStates m) t of
       Some d \<Rightarrow> (d, False, m)
     | None \<Rightarrow>
         let d = length (tc_disables m);
             removing = bucket (tc_removalsByID m) t;
             st0 = \<lparr>ds_sessions = mkeys removing, ds_removals = map snd removing, ds_ownedRemovals = [], ds_result = [], ds_phase = Calling\<rparr>
         in case disableLoop (mkeys (bucket (tc_sessionsByID m) t))
                   (m\<lparr>tc_disableStates := mput t d (tc_disableStates m), tc_expiryTimers := mdel t (tc_expiryTimers m)\<rparr>, st0) of
              (m', st) \<Rightarrow>
                (d, True, m'\<lparr>tc_disables := tc_disables m' @ [st\<lparr>ds_result := ds_sessions st, ds_phase := Draining (ds_sessions st)\<rparr>],
                             tc_sessionsByID := mdel t (tc_sessionsByID m')\<rparr>))"

definition Track :: "nat \<Rightarrow> nat option \<Rightarrow> gotime \<Rightarrow> tokenConnections \<Rightarrow> bool \<times> tokenConnections" where
  "Track s conn now m =
    (let t = ts_ID (sess m s) in
     if conn = None \<or> t = [] then (False, m)
     else if tc_stopped m then (False, m)
     else if mget (tc_disableStates m) t \<noteq> None then (False, m)
     else if expired now (sess m s) then (False, snd (snd (beginDisableLocked t m)))
     else if mget (tc_sessions m) s \<noteq> None then (False, m)
     else
       (True, scheduleExpiryLocked t
          (m\<lparr>tc_heap := (tc_heap m)[s := (sess m s)\<lparr>ts_conn := conn\<rparr>], tc_sessions := mput s () (tc_sessions m),
             tc_sessionsByID := mput t (mput s () (bucket (tc_sessionsByID m) t)) (tc_sessionsByID m)\<rparr>)))"

text \<open>Taking the read side of the gate and allocating the lease.\<close>

definition newLease :: "nat \<Rightarrow> tokenConnections \<Rightarrow> nat \<times> tokenConnections" where
  "newLease s m =
    (length (tc_leases m),
     m\<lparr>tc_heap := (tc_heap m)[s := (sess m s)\<lparr>ts_readers := ts_readers (sess m s) + 1\<rparr>],
       tc_leases := tc_leases m @ [\<lparr>tl_session = s, tl_released = False\<rparr>]\<rparr>)"

definition Acquire :: "nat \<Rightarrow> gotime \<Rightarrow> tokenConnections \<Rightarrow> nat option \<times> tokenConnections" where
  "Acquire s now m =
    (let t = ts_ID (sess m s) in
     if tc_stopped m then (None, m)
     else if mget (tc_disableStates m) t \<noteq> None then (None, m)
     else if mget (tc_sessions m) s = None then (None, m)
     else if expired now (sess m s) then
       (case beginDisableLocked t m of
          (d, winner, m') \<Rightarrow> (None, if winner then m'\<lparr>tc_expiry := tc_expiry m' @ [AwaitDisable d]\<rparr> else m'))
     else (case newLease s m of (l, m') \<Rightarrow> (Some l, m')))"

definition Release :: "nat \<Rightarrow> tokenConnections \<Rightarrow> tokenConnections" where
  "Release l m =
    (let lease = tc_leases m ! l; s = tl_session lease in
     if tl_released lease then m
     else m\<lparr>tc_leases := (tc_leases m)[l := lease\<lparr>tl_released := True\<rparr>],
            tc_heap := (tc_heap m)[s := (sess m s)\<lparr>ts_readers := ts_readers (sess m s) - 1\<rparr>]\<rparr>)"

definition Fork :: "nat \<Rightarrow> tokenConnections \<Rightarrow> nat option \<times> tokenConnections" where
  "Fork l m =
    (let s = tl_session (tc_leases m ! l) in
     if tc_stopped m \<or> mget (tc_disableStates m) (ts_ID (sess m s)) \<noteq> None then (None, m)
     else if mget (tc_sessions m) s = None then (None, m)
     else (case newLease s m of (l', m') \<Rightarrow> (Some l', m')))"

definition Remove :: "nat \<Rightarrow> tokenConnections \<Rightarrow> tokenConnections" where
  "Remove s m =
    (if mget (tc_removals m) s \<noteq> None then m
     else if tc_stopped m then m
     else if mget (tc_sessions m) s = None then m
     else scheduleExpiryLocked (ts_ID (sess m s)) (snd (snd (registerRemoveLocked s (detachSessionLocked s m)))))"

definition completeTokenRemove :: "nat \<Rightarrow> tokenConnections \<Rightarrow> tokenConnections" where
  "completeTokenRemove r m = m\<lparr>tc_removes := (tc_removes m)[r := (tc_removes m ! r)\<lparr>rm_cleanupDone := True\<rparr>]\<rparr>"

definition CompleteRemove :: "nat \<Rightarrow> tokenConnections \<Rightarrow> tokenConnections" where
  "CompleteRemove s m = (case mget (tc_removals m) s of None \<Rightarrow> m | Some r \<Rightarrow> completeTokenRemove r m)"

text \<open>Whether \<open>waitRemoveDrain\<close> returns at once.\<close>

definition removeDrained :: "nat \<Rightarrow> tokenConnections \<Rightarrow> bool" where
  "removeDrained s m = (case mget (tc_removals m) s of None \<Rightarrow> True | Some r \<Rightarrow> rm_drained (tc_removes m ! r))"

fun stopLoop :: "nat list \<Rightarrow> tokenConnections \<times> nat list \<Rightarrow> tokenConnections \<times> nat list" where
  "stopLoop [] (m, owned) = (m, owned)"
| "stopLoop (s # ss) (m, owned) =
    (case registerRemoveLocked s m of
       (r, created, m') \<Rightarrow> stopLoop ss (m', if created then owned @ [r] else owned))"

definition tokens_beginStop :: "tokenConnections \<Rightarrow> tokenConnections" where
  "tokens_beginStop m =
    (case tc_stopState m of
       Some _ \<Rightarrow> m
     | None \<Rightarrow>
         (case stopLoop (mkeys (tc_sessions m)) (m, []) of
            (m', owned) \<Rightarrow>
              m'\<lparr>tc_stopState := Some \<lparr>st_sessions = mkeys (tc_removals m'), st_active = mkeys (tc_sessions m), st_ownedRemovals = owned,
                   st_removals = map snd (tc_removals m'),
                   st_disableDone = filter (\<lambda>d. ds_phase (tc_disables m' ! d) \<noteq> Finished) (map snd (tc_disableStates m')),
                   st_phase = Draining (mkeys (tc_sessions m))\<rparr>,
                 tc_sessions := [], tc_sessionsByID := [], tc_expiryTimers := []\<rparr>))"

text \<open>\<open>Disable\<close> up to its wait, unless the manager was stopped.\<close>

definition Disable :: "string \<Rightarrow> tokenConnections \<Rightarrow> (nat \<times> bool) option \<times> tokenConnections" where
  "Disable t m =
    (if tc_stopped m then (None, m)
     else case beginDisableLocked t m of (d, winner, m') \<Rightarrow> (Some (d, winner), m'))"

section \<open>The goroutines\<close>

definition set_disable :: "nat \<Rightarrow> completion \<Rightarrow> tokenConnections \<Rightarrow> tokenConnections" where
  "set_disable d p m = m\<lparr>tc_disables := (tc_disables m)[d := (tc_disables m ! d)\<lparr>ds_phase := p\<rparr>]\<rparr>"

definition completeOwned :: "nat list \<Rightarrow> tokenConnections \<Rightarrow> tokenConnections" where
  "completeOwned rs m = foldl (\<lambda>m r. completeTokenRemove r m) m rs"

text \<open>One move of \<open>completeDisable\<close>; \<open>None\<close> while it is blocked or when it has returned.\<close>

definition completeDisable :: "nat \<Rightarrow> tokenConnections \<Rightarrow> tokenConnections option" where
  "completeDisable d m =
    (let st = tc_disables m ! d in
     case ds_phase st of
       Draining [] \<Rightarrow> Some (set_disable d Calling m)
     | Draining (s # ss) \<Rightarrow> if ts_readers (sess m s) = 0 then Some (set_disable d (Draining ss) m) else None
     | Calling \<Rightarrow> Some (set_disable d Completing (m\<lparr>tc_callbacks := tc_callbacks m @ ds_result st\<rparr>))
     | Completing \<Rightarrow> Some (set_disable d (Joining (ds_removals st)) (completeOwned (ds_ownedRemovals st) m))
     | Joining (r # rs) \<Rightarrow> if rm_done (tc_removes m ! r) then Some (set_disable d (Joining rs) m) else None
     | Joining [] \<Rightarrow>
         Some (m\<lparr>tc_disables := (tc_disables m)[d := st\<lparr>ds_sessions := [], ds_removals := [], ds_ownedRemovals := [], ds_phase := Finished\<rparr>]\<rparr>)
     | _ \<Rightarrow> None)"

definition finishRemove :: "nat \<Rightarrow> tokenConnections \<Rightarrow> tokenConnections option" where
  "finishRemove r m =
    (let st = tc_removes m ! r; s = rm_session st; t = ts_ID (sess m s) in
     if \<not> rm_drained st then
       (if ts_readers (sess m s) = 0 then Some (m\<lparr>tc_removes := (tc_removes m)[r := st\<lparr>rm_drained := True\<rparr>]\<rparr>) else None)
     else if rm_cleanupDone st \<and> \<not> rm_done st then
       (let m' = m\<lparr>tc_removes := (tc_removes m)[r := st\<lparr>rm_done := True\<rparr>]\<rparr>
        in Some (if mget (tc_removals m) s = Some r
                 then m'\<lparr>tc_removals := mdel s (tc_removals m), tc_removalsByID := bucket_del t s (tc_removalsByID m)\<rparr>
                 else m'))
     else None)"

definition set_stop :: "tokenStopState \<Rightarrow> completion \<Rightarrow> tokenConnections \<Rightarrow> tokenConnections" where
  "set_stop st p m = m\<lparr>tc_stopState := Some (st\<lparr>st_phase := p\<rparr>)\<rparr>"

text \<open>The wait groups count the expiry goroutines and the removals that are not done.\<close>

definition completeStop :: "tokenConnections \<Rightarrow> tokenConnections option" where
  "completeStop m =
    (case tc_stopState m of
       None \<Rightarrow> None
     | Some st \<Rightarrow>
         (case st_phase st of
            Draining [] \<Rightarrow> Some (set_stop st Calling m)
          | Draining (s # ss) \<Rightarrow> if ts_readers (sess m s) = 0 then Some (set_stop st (Draining ss) m) else None
          | Calling \<Rightarrow> Some (set_stop st Completing (m\<lparr>tc_callbacks := tc_callbacks m @ st_active st\<rparr>))
          | Completing \<Rightarrow> Some (set_stop st (Joining (st_removals st)) (completeOwned (st_ownedRemovals st) m))
          | Joining (r # rs) \<Rightarrow> if rm_done (tc_removes m ! r) then Some (set_stop st (Joining rs) m) else None
          | Joining [] \<Rightarrow> Some (set_stop st (Awaiting (st_disableDone st)) m)
          | Awaiting (d # ds) \<Rightarrow> if ds_phase (tc_disables m ! d) = Finished then Some (set_stop st (Awaiting ds) m) else None
          | Awaiting [] \<Rightarrow>
              if tc_expiry m = [] \<and> list_all rm_done (tc_removes m) then Some (set_stop st Finished m) else None
          | Finished \<Rightarrow> None))"

text \<open>\<open>expireToken\<close>: its first critical section, its second one, and its return.\<close>

definition expireEnter :: "string \<Rightarrow> nat \<Rightarrow> tokenConnections \<Rightarrow> tokenConnections" where
  "expireEnter t g m = (if tc_stopped m then m else m\<lparr>tc_expiry := tc_expiry m @ [Checking t g]\<rparr>)"

definition expirer_gone :: "nat \<Rightarrow> tokenConnections \<Rightarrow> tokenConnections" where
  "expirer_gone k m = m\<lparr>tc_expiry := take k (tc_expiry m) @ drop (Suc k) (tc_expiry m)\<rparr>"

definition expireCheck :: "nat \<Rightarrow> string \<Rightarrow> nat \<Rightarrow> gotime \<Rightarrow> tokenConnections \<Rightarrow> tokenConnections" where
  "expireCheck k t g now m =
    (if tc_stopped m then expirer_gone k m
     else case mget (tc_expiryTimers m) t of
       None \<Rightarrow> expirer_gone k m
     | Some c \<Rightarrow>
         if et_generation c \<noteq> g then expirer_gone k m
         else if et_expiresAt c > now
         then expirer_gone k (scheduleExpiryLocked t (m\<lparr>tc_expiryTimers := mdel t (tc_expiryTimers m)\<rparr>))
         else (case beginDisableLocked t m of
                 (d, _, m') \<Rightarrow> m'\<lparr>tc_expiry := (tc_expiry m')[k := AwaitDisable d]\<rparr>))"

text \<open>The interleavings. A new session is what an accepted connection request allocates.\<close>

inductive token_conn_step :: "tokenConnections \<Rightarrow> tokenConnections \<Rightarrow> bool" where
  new: "token_conn_step m (m\<lparr>tc_heap := tc_heap m @ [\<lparr>ts_ID = t, ts_ExpiresAt = x, ts_conn = None, ts_readers = 0\<rparr>]\<rparr>)"
| track: "s < length (tc_heap m) \<Longrightarrow> token_conn_step m (snd (Track s conn now m))"
| acquire: "s < length (tc_heap m) \<Longrightarrow> token_conn_step m (snd (Acquire s now m))"
| release: "l < length (tc_leases m) \<Longrightarrow> token_conn_step m (Release l m)"
| fork: "l < length (tc_leases m) \<Longrightarrow> token_conn_step m (snd (Fork l m))"
| remove: "s < length (tc_heap m) \<Longrightarrow> token_conn_step m (Remove s m)"
| complete_remove: "token_conn_step m (CompleteRemove s m)"
| disable: "token_conn_step m (snd (Disable t m))"
| stop: "token_conn_step m (tokens_beginStop m)"
| disable_goroutine: "d < length (tc_disables m) \<Longrightarrow> completeDisable d m = Some m' \<Longrightarrow> token_conn_step m m'"
| remove_goroutine: "r < length (tc_removes m) \<Longrightarrow> finishRemove r m = Some m' \<Longrightarrow> token_conn_step m m'"
| stop_goroutine: "completeStop m = Some m' \<Longrightarrow> token_conn_step m m'"
| expire_enter: "token_conn_step m (expireEnter t g m)"
| expire_check: "k < length (tc_expiry m) \<Longrightarrow> tc_expiry m ! k = Checking t g \<Longrightarrow> token_conn_step m (expireCheck k t g now m)"
| expire_done: "k < length (tc_expiry m) \<Longrightarrow> tc_expiry m ! k = AwaitDisable d \<Longrightarrow> ds_phase (tc_disables m ! d) = Finished
    \<Longrightarrow> token_conn_step m (expirer_gone k m)"

abbreviation token_conn_run :: "tokenConnections \<Rightarrow> tokenConnections \<Rightarrow> bool" where
  "token_conn_run \<equiv> token_conn_step\<^sup>*\<^sup>*"

inductive_cases token_conn_stepE: "token_conn_step m m'"

section \<open>Buckets and registrations\<close>

lemma bucket_mput [map_simps]: "bucket (mput t b bs) t' = (if t' = t then b else bucket bs t')"
  by (simp add: bucket_def map_simps)

lemma bucket_mdel [map_simps]: "bucket (mdel t bs) t' = (if t' = t then [] else bucket bs t')"
  by (simp add: bucket_def map_simps)

lemma bucket_Nil [map_simps]: "bucket [] t = []"
  by (simp add: bucket_def map_simps)

lemma bucket_bucket_del [map_simps]:
  "bucket (bucket_del t s bs) t' = (if t' = t then mdel s (bucket bs t) else bucket bs t')"
  by (auto simp: bucket_del_def Let_def map_simps)

lemma mem_mkeys: "s \<in> set (mkeys m) \<longleftrightarrow> mget m s \<noteq> None"
  using dom_mget [of m] by (metis domIff)

text \<open>What registering the sessions in a list does: everything else stays, and removals are only added.\<close>

definition same_rest :: "tokenConnections \<Rightarrow> tokenConnections \<Rightarrow> bool" where
  "same_rest m m' \<longleftrightarrow>
    tc_heap m' = tc_heap m \<and> tc_leases m' = tc_leases m \<and> tc_disables m' = tc_disables m
    \<and> tc_sessionsByID m' = tc_sessionsByID m \<and> tc_disableStates m' = tc_disableStates m
    \<and> tc_expiryTimers m' = tc_expiryTimers m \<and> tc_nextTimerID m' = tc_nextTimerID m \<and> tc_stopState m' = tc_stopState m
    \<and> tc_expiry m' = tc_expiry m \<and> tc_callbacks m' = tc_callbacks m"

definition fresh_removal :: "nat \<Rightarrow> tokenRemoveState" where
  "fresh_removal s = \<lparr>rm_session = s, rm_drained = False, rm_cleanupDone = False, rm_done = False\<rparr>"

definition registers :: "nat list \<Rightarrow> tokenConnections \<Rightarrow> tokenConnections \<Rightarrow> bool" where
  "registers ss m m' \<longleftrightarrow>
    (\<exists>ns. tc_removes m' = tc_removes m @ map fresh_removal ns \<and> set ns \<subseteq> set ss)
    \<and> (\<forall>x r. mget (tc_removals m) x = Some r \<longrightarrow> mget (tc_removals m') x = Some r)
    \<and> (\<forall>x r. mget (tc_removals m) x = None \<longrightarrow> mget (tc_removals m') x = Some r \<longrightarrow>
         x \<in> set ss \<and> length (tc_removes m) \<le> r \<and> r < length (tc_removes m') \<and> tc_removes m' ! r = fresh_removal x)
    \<and> (\<forall>x \<in> set ss. mget (tc_removals m') x \<noteq> None)"

definition removals_indexed :: "tokenConnections \<Rightarrow> bool" where
  "removals_indexed m \<longleftrightarrow>
    (\<forall>t s. mget (bucket (tc_removalsByID m) t) s = (if ts_ID (sess m s) = t then mget (tc_removals m) s else None))"

lemma same_rest_refl [simp]: "same_rest m m"
  by (simp add: same_rest_def)

lemma same_rest_trans: "same_rest a b \<Longrightarrow> same_rest b c \<Longrightarrow> same_rest a c"
  by (simp add: same_rest_def)

lemma registers_Nil [simp]: "registers [] m m"
  by (auto simp: registers_def)

lemma registers_old: "registers ss m m' \<Longrightarrow> mget (tc_removals m) x = Some r \<Longrightarrow> mget (tc_removals m') x = Some r"
  by (simp add: registers_def)

lemma registers_new:
  assumes "registers ss m m'" and "mget (tc_removals m) x = None" and "mget (tc_removals m') x = Some r"
  shows "x \<in> set ss" "length (tc_removes m) \<le> r" "r < length (tc_removes m')" "tc_removes m' ! r = fresh_removal x"
  using assms by (auto simp: registers_def)

lemma registers_all: "registers ss m m' \<Longrightarrow> x \<in> set ss \<Longrightarrow> \<exists>r. mget (tc_removals m') x = Some r"
  by (auto simp: registers_def)

lemma registers_heap:
  assumes "registers ss m m'"
  obtains ns where "tc_removes m' = tc_removes m @ map fresh_removal ns" "set ns \<subseteq> set ss"
  using assms by (auto simp: registers_def)

lemma registersI:
  assumes "tc_removes m' = tc_removes m @ map fresh_removal ns" "set ns \<subseteq> set ss"
    and "\<And>x r. mget (tc_removals m) x = Some r \<Longrightarrow> mget (tc_removals m') x = Some r"
    and "\<And>x r. mget (tc_removals m) x = None \<Longrightarrow> mget (tc_removals m') x = Some r \<Longrightarrow>
         x \<in> set ss \<and> length (tc_removes m) \<le> r \<and> r < length (tc_removes m') \<and> tc_removes m' ! r = fresh_removal x"
    and "\<And>x. x \<in> set ss \<Longrightarrow> \<exists>r. mget (tc_removals m') x = Some r"
  shows "registers ss m m'"
  using assms by (auto simp: registers_def)

lemma registers_trans:
  assumes "registers ss a b" and "registers ts b c"
  shows "registers (ss @ ts) a c"
proof -
  obtain ns ns' where ns: "tc_removes b = tc_removes a @ map fresh_removal ns" "set ns \<subseteq> set ss"
    "tc_removes c = tc_removes b @ map fresh_removal ns'" "set ns' \<subseteq> set ts"
    using registers_heap [OF assms(1)] registers_heap [OF assms(2)] by metis
  have le: "length (tc_removes a) \<le> length (tc_removes b)" "length (tc_removes b) \<le> length (tc_removes c)"
    using ns by simp_all
  show ?thesis
  proof (rule registersI [where ns = "ns @ ns'"])
    fix x r
    assume a: "mget (tc_removals a) x = None" and c: "mget (tc_removals c) x = Some r"
    show "x \<in> set (ss @ ts) \<and> length (tc_removes a) \<le> r \<and> r < length (tc_removes c) \<and> tc_removes c ! r = fresh_removal x"
    proof (cases "mget (tc_removals b) x")
      case None
      then show ?thesis
        using registers_new [OF assms(2) None c] le by simp
    next
      case (Some r')
      then have "r' = r"
        using registers_old [OF assms(2) Some] c by simp
      then show ?thesis
        using registers_new [OF assms(1) a Some] le ns(3) by (simp add: nth_append)
    qed
  next
    fix x
    assume "x \<in> set (ss @ ts)"
    then show "\<exists>r. mget (tc_removals c) x = Some r"
      using registers_all [OF assms(1), of x] registers_all [OF assms(2), of x] registers_old [OF assms(2), of x] by auto
  qed (use ns registers_old [OF assms(2)] registers_old [OF assms(1)] in auto)
qed

lemma register_registers:
  assumes "registerRemoveLocked s m = (r, c, m')"
  shows "registers [s] m m' \<and> same_rest m m' \<and> tc_sessions m' = tc_sessions m \<and> (removals_indexed m \<longrightarrow> removals_indexed m')"
proof (cases "mget (tc_removals m) s")
  case (Some r')
  then show ?thesis
    using assms by (auto simp: registerRemoveLocked_def registers_def)
next
  case None
  let ?n = "length (tc_removes m)"
  have m': "m' = m\<lparr>tc_removes := tc_removes m @ [fresh_removal s], tc_removals := mput s ?n (tc_removals m),
      tc_removalsByID := mput (ts_ID (sess m s)) (mput s ?n (bucket (tc_removalsByID m) (ts_ID (sess m s)))) (tc_removalsByID m)\<rparr>"
    using assms None by (auto simp: registerRemoveLocked_def Let_def fresh_removal_def)
  have "registers [s] m m'"
    using None unfolding registers_def m'
    by (auto simp: map_simps intro!: exI [of _ "[s]"])
  then show ?thesis
    by (auto simp: m' same_rest_def removals_indexed_def map_simps)
qed

lemma disableLoop_registers:
  assumes "disableLoop ss (m, st) = (m', st')"
  shows "registers ss m m' \<and> same_rest m m' \<and> (removals_indexed m \<longrightarrow> removals_indexed m')
    \<and> (\<forall>x. mget (tc_sessions m') x = (if x \<in> set ss then None else mget (tc_sessions m) x))
    \<and> set (ds_sessions st') = set (ds_sessions st) \<union> set ss"
  using assms
proof (induction ss arbitrary: m st)
  case (Cons s ss)
  let ?m0 = "m\<lparr>tc_sessions := mdel s (tc_sessions m)\<rparr>"
  obtain r c m1 where R: "registerRemoveLocked s ?m0 = (r, c, m1)"
    by (cases "registerRemoveLocked s ?m0") auto
  let ?st = "st\<lparr>ds_sessions := appendUnique (ds_sessions st) s, ds_removals := ds_removals st @ [r],
      ds_ownedRemovals := (if c then ds_ownedRemovals st @ [r] else ds_ownedRemovals st)\<rparr>"
  have L: "disableLoop ss (m1, ?st) = (m', st')"
    using Cons.prems R by simp
  note IH = Cons.IH [OF L]
  have one: "registers [s] m m1" "same_rest m m1" "tc_sessions m1 = mdel s (tc_sessions m)" "removals_indexed m \<Longrightarrow> removals_indexed m1"
    using register_registers [OF R] by (auto simp: registers_def same_rest_def removals_indexed_def)
  show ?case
    using IH one registers_trans [OF one(1), of ss m'] same_rest_trans [OF one(2), of m'] by (auto simp: map_simps)
qed simp

lemma stopLoop_registers:
  assumes "stopLoop ss (m, os) = (m', os')"
  shows "registers ss m m' \<and> same_rest m m' \<and> tc_sessions m' = tc_sessions m \<and> (removals_indexed m \<longrightarrow> removals_indexed m')"
  using assms
proof (induction ss arbitrary: m os)
  case (Cons s ss)
  obtain r c m1 where R: "registerRemoveLocked s m = (r, c, m1)"
    by (cases "registerRemoveLocked s m") auto
  have L: "stopLoop ss (m1, if c then os @ [r] else os) = (m', os')"
    using Cons.prems R by simp
  note IH = Cons.IH [OF L] and one = register_registers [OF R]
  then show ?case
    using registers_trans [of "[s]" m m1 ss m'] same_rest_trans [of m m1 m'] by auto
qed simp

section \<open>The invariant\<close>

text \<open>
  The four maps describe the same sessions and removals; a tombstoned token has no tracked session, and
  neither has a stopped manager.
\<close>

definition maps_ok :: "tokenConnections \<Rightarrow> bool" where
  "maps_ok m \<longleftrightarrow>
    (\<forall>s. mget (tc_sessions m) s \<noteq> None \<longrightarrow> s < length (tc_heap m) \<and> mget (tc_disableStates m) (ts_ID (sess m s)) = None \<and> \<not> tc_stopped m)
    \<and> (\<forall>t s. mget (bucket (tc_sessionsByID m) t) s \<noteq> None \<longleftrightarrow> mget (tc_sessions m) s \<noteq> None \<and> ts_ID (sess m s) = t)
    \<and> removals_indexed m
    \<and> (\<forall>s r. mget (tc_removals m) s = Some r \<longrightarrow>
         s < length (tc_heap m) \<and> r < length (tc_removes m) \<and> rm_session (tc_removes m ! r) = s \<and> \<not> rm_done (tc_removes m ! r))
    \<and> (\<forall>t d. mget (tc_disableStates m) t = Some d \<longrightarrow>
         d < length (tc_disables m) \<and> (\<forall>t'. mget (tc_disableStates m) t' = Some d \<longrightarrow> t' = t))"

lemma maps_okI:
  assumes "\<And>s. mget (tc_sessions m) s \<noteq> None \<Longrightarrow> s < length (tc_heap m) \<and> mget (tc_disableStates m) (ts_ID (sess m s)) = None \<and> \<not> tc_stopped m"
    and "\<And>t s. mget (bucket (tc_sessionsByID m) t) s \<noteq> None \<longleftrightarrow> mget (tc_sessions m) s \<noteq> None \<and> ts_ID (sess m s) = t"
    and "removals_indexed m"
    and "\<And>s r. mget (tc_removals m) s = Some r \<Longrightarrow>
       s < length (tc_heap m) \<and> r < length (tc_removes m) \<and> rm_session (tc_removes m ! r) = s \<and> \<not> rm_done (tc_removes m ! r)"
    and "\<And>t d. mget (tc_disableStates m) t = Some d \<Longrightarrow>
       d < length (tc_disables m) \<and> (\<forall>t'. mget (tc_disableStates m) t' = Some d \<longrightarrow> t' = t)"
  shows "maps_ok m"
  using assms unfolding maps_ok_def by blast

lemma maps_okD:
  assumes "maps_ok m"
  shows "mget (tc_sessions m) s \<noteq> None \<Longrightarrow> s < length (tc_heap m) \<and> mget (tc_disableStates m) (ts_ID (sess m s)) = None \<and> \<not> tc_stopped m"
    and "mget (bucket (tc_sessionsByID m) t) s \<noteq> None \<longleftrightarrow> mget (tc_sessions m) s \<noteq> None \<and> ts_ID (sess m s) = t"
    and "removals_indexed m"
    and "mget (tc_removals m) s = Some r \<Longrightarrow>
       s < length (tc_heap m) \<and> r < length (tc_removes m) \<and> rm_session (tc_removes m ! r) = s \<and> \<not> rm_done (tc_removes m ! r)"
    and "mget (tc_disableStates m) t = Some d \<Longrightarrow>
       d < length (tc_disables m) \<and> (\<forall>t'. mget (tc_disableStates m) t' = Some d \<longrightarrow> t' = t)"
  using assms unfolding maps_ok_def by blast+

lemma disable_lt: "maps_ok m \<Longrightarrow> mget (tc_disableStates m) t = Some d \<Longrightarrow> d < length (tc_disables m)"
  using maps_okD(5) by blast

lemma disable_uniq: "maps_ok m \<Longrightarrow> mget (tc_disableStates m) t = Some d \<Longrightarrow> mget (tc_disableStates m) t' = Some d \<Longrightarrow> t' = t"
  using maps_okD(5) by blast

text \<open>The sessions a completion still has to wait for.\<close>

fun draining :: "completion \<Rightarrow> nat list" where
  "draining (Draining ss) = ss"
| "draining _ = []"

definition stop_draining :: "tokenConnections \<Rightarrow> nat list" where
  "stop_draining m = (case tc_stopState m of None \<Rightarrow> [] | Some st \<Rightarrow> draining (st_phase st))"

text \<open>
  A session with an open lease is always one that somebody will wait for: once its token is disabled,
  the disabling does; otherwise it is still tracked, or its removal or the stop waits for it.
\<close>

definition covered :: "tokenConnections \<Rightarrow> nat \<Rightarrow> bool" where
  "covered m s \<longleftrightarrow>
    (case mget (tc_disableStates m) (ts_ID (sess m s)) of
       Some d \<Rightarrow> s \<in> set (draining (ds_phase (tc_disables m ! d)))
     | None \<Rightarrow> mget (tc_sessions m) s \<noteq> None
         \<or> (\<exists>r. mget (tc_removals m) s = Some r \<and> \<not> rm_drained (tc_removes m ! r))
         \<or> s \<in> set (stop_draining m))"

lemma covered_cong:
  assumes "ts_ID (sess m' s) = ts_ID (sess m s)" "tc_disableStates m' = tc_disableStates m" "tc_disables m' = tc_disables m"
    "tc_sessions m' = tc_sessions m" "tc_removals m' = tc_removals m" "tc_removes m' = tc_removes m" "tc_stopState m' = tc_stopState m"
  shows "covered m' s \<longleftrightarrow> covered m s"
  unfolding covered_def stop_draining_def by (simp only: assms)

definition open_leases :: "tokenConnections \<Rightarrow> nat \<Rightarrow> nat" where
  "open_leases m s = length (filter (\<lambda>l. tl_session l = s \<and> \<not> tl_released l) (tc_leases m))"

definition gates_ok :: "tokenConnections \<Rightarrow> bool" where
  "gates_ok m \<longleftrightarrow>
    (\<forall>l \<in> set (tc_leases m). tl_session l < length (tc_heap m))
    \<and> (\<forall>s < length (tc_heap m). ts_readers (sess m s) = open_leases m s \<and> (0 < ts_readers (sess m s) \<longrightarrow> covered m s))"

lemma gates_okI:
  assumes "\<And>l. l \<in> set (tc_leases m) \<Longrightarrow> tl_session l < length (tc_heap m)"
    and "\<And>s. s < length (tc_heap m) \<Longrightarrow> ts_readers (sess m s) = open_leases m s"
    and "\<And>s. s < length (tc_heap m) \<Longrightarrow> 0 < ts_readers (sess m s) \<Longrightarrow> covered m s"
  shows "gates_ok m"
  using assms unfolding gates_ok_def by blast

lemma gates_okD:
  assumes "gates_ok m"
  shows "l \<in> set (tc_leases m) \<Longrightarrow> tl_session l < length (tc_heap m)"
    and "s < length (tc_heap m) \<Longrightarrow> ts_readers (sess m s) = open_leases m s"
    and "s < length (tc_heap m) \<Longrightarrow> 0 < ts_readers (sess m s) \<Longrightarrow> covered m s"
  using assms unfolding gates_ok_def by blast+

text \<open>A step that leaves sessions and leases alone only has to keep the covering.\<close>

lemma gates_frame_gen:
  assumes "gates_ok m" and "length (tc_heap m') = length (tc_heap m)" and "\<And>s. ts_readers (sess m' s) = ts_readers (sess m s)"
    and "tc_leases m' = tc_leases m"
    and "\<And>s. s < length (tc_heap m) \<Longrightarrow> 0 < ts_readers (sess m s) \<Longrightarrow> covered m s \<Longrightarrow> covered m' s"
  shows "gates_ok m'"
proof (rule gates_okI)
  fix l
  assume "l \<in> set (tc_leases m')"
  then show "tl_session l < length (tc_heap m')"
    using gates_okD(1) [OF assms(1)] assms(2,4) by simp
next
  fix s
  assume s: "s < length (tc_heap m')"
  show "ts_readers (sess m' s) = open_leases m' s"
    using gates_okD(2) [OF assms(1), of s] s assms(2-4) by (simp add: open_leases_def)
  show "covered m' s" if "0 < ts_readers (sess m' s)"
    using gates_okD(3) [OF assms(1), of s] s assms(2,3) assms(5) [of s] that by (simp del: not_gr_zero)
qed

lemma gates_frame:
  assumes "gates_ok m" and "tc_heap m' = tc_heap m" and "tc_leases m' = tc_leases m"
    and "\<And>s. s < length (tc_heap m) \<Longrightarrow> 0 < ts_readers (sess m s) \<Longrightarrow> covered m s \<Longrightarrow> covered m' s"
  shows "gates_ok m'"
  using assms by (intro gates_frame_gen [OF assms(1)]) simp_all

lemma beginDisable_new:
  assumes "maps_ok m" and "mget (tc_disableStates m) t = None" and "beginDisableLocked t m = (d, w, m')"
  obtains st where "w" "d = length (tc_disables m)" "tc_disables m' = tc_disables m @ [st]" "ds_phase st = Draining (ds_sessions st)"
    "ds_result st = ds_sessions st"
    "\<And>s. s \<in> set (ds_sessions st) \<longleftrightarrow> ts_ID (sess m s) = t \<and> (mget (tc_sessions m) s \<noteq> None \<or> mget (tc_removals m) s \<noteq> None)"
    "tc_heap m' = tc_heap m" "tc_leases m' = tc_leases m" "tc_stopState m' = tc_stopState m" "tc_expiry m' = tc_expiry m"
    "tc_disableStates m' = mput t d (tc_disableStates m)" "tc_expiryTimers m' = mdel t (tc_expiryTimers m)"
    "\<And>s. mget (tc_sessions m') s = (if ts_ID (sess m s) = t then None else mget (tc_sessions m) s)"
    "tc_sessionsByID m' = mdel t (tc_sessionsByID m)"
    "registers (mkeys (bucket (tc_sessionsByID m) t)) m m'" "removals_indexed m'"
proof -
  let ?removing = "bucket (tc_removalsByID m) t"
  let ?m0 = "m\<lparr>tc_disableStates := mput t (length (tc_disables m)) (tc_disableStates m), tc_expiryTimers := mdel t (tc_expiryTimers m)\<rparr>"
  let ?st0 = "\<lparr>ds_sessions = mkeys ?removing, ds_removals = map snd ?removing, ds_ownedRemovals = [], ds_result = [], ds_phase = Calling\<rparr>"
  let ?ss = "mkeys (bucket (tc_sessionsByID m) t)"
  obtain m1 st1 where L: "disableLoop ?ss (?m0, ?st0) = (m1, st1)"
    by (cases "disableLoop ?ss (?m0, ?st0)") auto
  let ?st = "st1\<lparr>ds_result := ds_sessions st1, ds_phase := Draining (ds_sessions st1)\<rparr>"
  have eq: "d = length (tc_disables m)" "w" "m' = m1\<lparr>tc_disables := tc_disables m1 @ [?st], tc_sessionsByID := mdel t (tc_sessionsByID m1)\<rparr>"
    using assms(2,3) L by (auto simp: beginDisableLocked_def Let_def)
  have ss: "s \<in> set ?ss \<longleftrightarrow> mget (tc_sessions m) s \<noteq> None \<and> ts_ID (sess m s) = t" for s
    using maps_okD(2) [OF assms(1), of t s] by (simp add: mem_mkeys)
  have rs: "s \<in> set (mkeys ?removing) \<longleftrightarrow> ts_ID (sess m s) = t \<and> mget (tc_removals m) s \<noteq> None" for s
    using maps_okD(3) [OF assms(1)] by (simp add: mem_mkeys removals_indexed_def)
  have "removals_indexed ?m0"
    using maps_okD(3) [OF assms(1)] by (simp add: removals_indexed_def)
  then have R: "registers ?ss ?m0 m1" "same_rest ?m0 m1" "removals_indexed m1"
    "\<And>x. mget (tc_sessions m1) x = (if x \<in> set ?ss then None else mget (tc_sessions m) x)"
    "set (ds_sessions st1) = set (mkeys ?removing) \<union> set ?ss"
    using disableLoop_registers [OF L] by simp_all
  show thesis
  proof (rule that [of ?st])
    show "registers ?ss m m'"
      using R(1) by (simp add: registers_def eq(3))
    show "removals_indexed m'"
      using R(3) by (simp add: removals_indexed_def eq(3))
  next
    fix s
    show "s \<in> set (ds_sessions ?st) \<longleftrightarrow> ts_ID (sess m s) = t \<and> (mget (tc_sessions m) s \<noteq> None \<or> mget (tc_removals m) s \<noteq> None)"
      using R(5) ss rs by auto
    show "mget (tc_sessions m') s = (if ts_ID (sess m s) = t then None else mget (tc_sessions m) s)"
      using R(4) [of s] ss [of s] by (auto simp: eq(3))
  qed (use R(2) eq in \<open>simp_all add: same_rest_def\<close>)
qed

definition conn_inv :: "tokenConnections \<Rightarrow> bool" where
  "conn_inv m \<longleftrightarrow> maps_ok m \<and> gates_ok m"

lemma conn_invD: "conn_inv m \<Longrightarrow> maps_ok m" "conn_inv m \<Longrightarrow> gates_ok m"
  by (simp_all add: conn_inv_def)

lemma registers_nth: "registers ss m m' \<Longrightarrow> r < length (tc_removes m) \<Longrightarrow> tc_removes m' ! r = tc_removes m ! r"
  by (elim registers_heap) (simp add: nth_append)

lemma registers_len: "registers ss m m' \<Longrightarrow> length (tc_removes m) \<le> length (tc_removes m')"
  by (elim registers_heap) simp

lemma registers_removals_ok:
  assumes "registers ss m m'" and "maps_ok m" and "tc_heap m' = tc_heap m"
    and "\<And>s. s \<in> set ss \<Longrightarrow> s < length (tc_heap m)" and r: "mget (tc_removals m') s = Some r"
  shows "s < length (tc_heap m') \<and> r < length (tc_removes m') \<and> rm_session (tc_removes m' ! r) = s \<and> \<not> rm_done (tc_removes m' ! r)"
proof (cases "mget (tc_removals m) s")
  case None
  then show ?thesis
    using registers_new [OF assms(1) None r] assms(3,4) by (simp add: fresh_removal_def)
next
  case (Some r')
  then have "r' = r"
    using registers_old [OF assms(1) Some] r by simp
  then show ?thesis
    using maps_okD(4) [OF assms(2) Some] registers_nth [OF assms(1)] registers_len [OF assms(1)] assms(3) by auto
qed

lemma registers_keeps_undrained:
  assumes "registers ss m m'" and "maps_ok m" and "mget (tc_removals m) s = Some r" and "\<not> rm_drained (tc_removes m ! r)"
  shows "mget (tc_removals m') s = Some r \<and> \<not> rm_drained (tc_removes m' ! r)"
  using registers_old [OF assms(1,3)] registers_nth [OF assms(1)] maps_okD(4) [OF assms(2,3)] assms(4) by simp

lemma inv_beginDisable:
  assumes inv: "conn_inv m" and "\<not> tc_stopped m" and B: "beginDisableLocked t m = (d, w, m')"
  shows "conn_inv m' \<and> tc_heap m' = tc_heap m \<and> tc_stopState m' = tc_stopState m"
proof (cases "mget (tc_disableStates m) t")
  case (Some d')
  then show ?thesis
    using assms by (simp add: beginDisableLocked_def)
next
  case None
  note M = conn_invD(1) [OF inv]
  obtain st where st: "d = length (tc_disables m)" "tc_disables m' = tc_disables m @ [st]" "ds_phase st = Draining (ds_sessions st)"
    and mem: "\<And>s. s \<in> set (ds_sessions st) \<longleftrightarrow> ts_ID (sess m s) = t \<and> (mget (tc_sessions m) s \<noteq> None \<or> mget (tc_removals m) s \<noteq> None)"
    and same: "tc_heap m' = tc_heap m" "tc_leases m' = tc_leases m" "tc_stopState m' = tc_stopState m"
    and dS: "tc_disableStates m' = mput t d (tc_disableStates m)"
    and S: "\<And>s. mget (tc_sessions m') s = (if ts_ID (sess m s) = t then None else mget (tc_sessions m) s)"
    and I: "tc_sessionsByID m' = mdel t (tc_sessionsByID m)"
    and R: "registers (mkeys (bucket (tc_sessionsByID m) t)) m m'" "removals_indexed m'"
    by (rule beginDisable_new [OF M None B]) (rule that; assumption)
  have key: "s < length (tc_heap m)" if "s \<in> set (mkeys (bucket (tc_sessionsByID m) t))" for s
    using that maps_okD(1) [OF M, of s] maps_okD(2) [OF M, of t s] by (simp add: mem_mkeys)
  have "maps_ok m'"
  proof (rule maps_okI)
    fix s
    assume "mget (tc_sessions m') s \<noteq> None"
    then show "s < length (tc_heap m') \<and> mget (tc_disableStates m') (ts_ID (sess m' s)) = None \<and> \<not> tc_stopped m'"
      using maps_okD(1) [OF M, of s] by (simp add: S same dS map_simps split: if_splits)
  next
    fix t' s
    show "mget (bucket (tc_sessionsByID m') t') s \<noteq> None \<longleftrightarrow> mget (tc_sessions m') s \<noteq> None \<and> ts_ID (sess m' s) = t'"
      using maps_okD(2) [OF M, of t' s] by (auto simp: I S same map_simps)
  next
    fix s r
    assume "mget (tc_removals m') s = Some r"
    then show "s < length (tc_heap m') \<and> r < length (tc_removes m') \<and> rm_session (tc_removes m' ! r) = s \<and> \<not> rm_done (tc_removes m' ! r)"
      using key by (intro registers_removals_ok [OF R(1) M same(1)])
  next
    fix t' d'
    assume a: "mget (tc_disableStates m') t' = Some d'"
    have old: "mget (tc_disableStates m) x = Some d' \<Longrightarrow> d' < length (tc_disables m)" for x
      using maps_okD(5) [OF M, of x d'] by simp
    have uniq: "mget (tc_disableStates m) x = Some d' \<Longrightarrow> \<forall>y. (if y = t then Some (length (tc_disables m)) else mget (tc_disableStates m) y) = Some d' \<longrightarrow> y = x" for x
      using maps_okD(5) [OF M, of x d'] by (metis less_irrefl option.inject)
    show "d' < length (tc_disables m') \<and> (\<forall>t''. mget (tc_disableStates m') t'' = Some d' \<longrightarrow> t'' = t')"
    proof (cases "t' = t")
      case True
      then show ?thesis
        using a old by (auto simp: dS st map_simps)
    next
      case False
      then show ?thesis
        using a old [of t'] uniq [of t'] by (simp add: dS st map_simps)
    qed
  qed (rule R(2))
  moreover have "gates_ok m'"
  proof (rule gates_frame [OF conn_invD(2) [OF inv] same(1,2)])
    fix s
    assume c: "covered m s"
    show "covered m' s"
    proof (cases "ts_ID (sess m s) = t")
      case True
      then show ?thesis
        using c None mem assms(2) by (auto simp: covered_def same dS st map_simps stop_draining_def nth_append)
    next
      case False
      then show ?thesis
        using c disable_lt [OF M, of "ts_ID (sess m s)"] registers_keeps_undrained [OF R(1) M, of s]
        by (auto simp: covered_def same dS st S map_simps stop_draining_def nth_append split: option.splits)
    qed
  qed
  ultimately show ?thesis
    by (simp add: conn_inv_def same)
qed

text \<open>A change of timers, expiry goroutines and callbacks only.\<close>

lemma inv_frame:
  assumes "conn_inv m" and "tc_heap m' = tc_heap m" "tc_leases m' = tc_leases m" "tc_removes m' = tc_removes m"
    "tc_disables m' = tc_disables m" "tc_sessions m' = tc_sessions m" "tc_sessionsByID m' = tc_sessionsByID m"
    "tc_removals m' = tc_removals m" "tc_removalsByID m' = tc_removalsByID m" "tc_disableStates m' = tc_disableStates m"
    "tc_stopState m' = tc_stopState m"
  shows "conn_inv m'"
proof -
  have "conn_inv m' = conn_inv m"
    unfolding conn_inv_def maps_ok_def gates_ok_def covered_def open_leases_def stop_draining_def removals_indexed_def
    by (simp only: assms(2-))
  with assms(1) show ?thesis
    by simp
qed

lemma inv_schedule: "conn_inv m \<Longrightarrow> conn_inv (scheduleExpiryLocked t m)"
  by (erule inv_frame) (auto simp: scheduleExpiryLocked_def Let_def split: option.split)

lemma inv_track:
  assumes inv: "conn_inv m" and s: "s < length (tc_heap m)"
  shows "conn_inv (snd (Track s conn now m))"
proof -
  let ?t = "ts_ID (sess m s)"
  let ?m = "m\<lparr>tc_heap := (tc_heap m)[s := (sess m s)\<lparr>ts_conn := conn\<rparr>], tc_sessions := mput s () (tc_sessions m),
             tc_sessionsByID := mput ?t (mput s () (bucket (tc_sessionsByID m) ?t)) (tc_sessionsByID m)\<rparr>"
  note M = conn_invD(1) [OF inv] and G = conn_invD(2) [OF inv]
  have id: "ts_ID (sess ?m x) = ts_ID (sess m x)" "ts_readers (sess ?m x) = ts_readers (sess m x)" for x
    by (simp_all add: nth_update_if)
  have "conn_inv ?m" if "mget (tc_disableStates m) ?t = None" "\<not> tc_stopped m"
  proof -
    have "maps_ok ?m"
    proof (rule maps_okI)
      fix x
      assume "mget (tc_sessions ?m) x \<noteq> None"
      then show "x < length (tc_heap ?m) \<and> mget (tc_disableStates ?m) (ts_ID (sess ?m x)) = None \<and> \<not> tc_stopped ?m"
        using maps_okD(1) [OF M, of x] that s unfolding id by (auto simp: map_simps split: if_splits)
    next
      fix t' x
      show "mget (bucket (tc_sessionsByID ?m) t') x \<noteq> None \<longleftrightarrow> mget (tc_sessions ?m) x \<noteq> None \<and> ts_ID (sess ?m x) = t'"
        using maps_okD(2) [OF M, of t' x] unfolding id by (auto simp: map_simps)
    next
      show "removals_indexed ?m"
        using maps_okD(3) [OF M] unfolding removals_indexed_def id by simp
    next
      fix x r
      assume "mget (tc_removals ?m) x = Some r"
      then show "x < length (tc_heap ?m) \<and> r < length (tc_removes ?m) \<and> rm_session (tc_removes ?m ! r) = x \<and> \<not> rm_done (tc_removes ?m ! r)"
        using maps_okD(4) [OF M, of x r] by simp
    qed (use maps_okD(5) [OF M] in simp)
    moreover have "gates_ok ?m"
    proof (rule gates_frame_gen [OF G])
      show "covered ?m x" if "covered m x" for x
        using that unfolding covered_def id by (auto simp: map_simps stop_draining_def split: option.splits)
    qed (simp_all add: nth_update_if)
    ultimately show ?thesis
      by (simp add: conn_inv_def)
  qed
  then have ok: "conn_inv (scheduleExpiryLocked ?t ?m)" if "mget (tc_disableStates m) ?t = None" "\<not> tc_stopped m"
    using that by (intro inv_schedule) blast
  obtain d w m1 where B: "beginDisableLocked ?t m = (d, w, m1)"
    by (cases "beginDisableLocked ?t m") auto
  have dis: "conn_inv m1" if "\<not> tc_stopped m"
    using inv_beginDisable [OF inv that B] by simp
  show ?thesis
    unfolding Track_def Let_def B by (simp only: snd_conv if_distrib [of snd]) (use inv ok dis in auto)
qed

lemma inv_newLease:
  assumes inv: "conn_inv m" and s: "mget (tc_sessions m) s \<noteq> None" and N: "newLease s m = (l, m')"
  shows "conn_inv m'"
proof -
  note M = conn_invD(1) [OF inv] and G = conn_invD(2) [OF inv]
  have m': "m' = m\<lparr>tc_heap := (tc_heap m)[s := (sess m s)\<lparr>ts_readers := ts_readers (sess m s) + 1\<rparr>],
       tc_leases := tc_leases m @ [\<lparr>tl_session = s, tl_released = False\<rparr>]\<rparr>"
    using N by (simp add: newLease_def)
  have len: "s < length (tc_heap m)" "length (tc_heap m') = length (tc_heap m)"
    using maps_okD(1) [OF M s] by (simp_all add: m')
  have id: "ts_ID (sess m' x) = ts_ID (sess m x)" for x
    by (simp add: m' nth_update_if)
  have rd: "ts_readers (sess m' x) = ts_readers (sess m x) + (if x = s then 1 else 0)" for x
    using len(1) by (simp add: m' nth_update_if)
  have "maps_ok m'"
    using M unfolding maps_ok_def removals_indexed_def id by (simp add: m')
  moreover have cov: "covered m' x \<longleftrightarrow> covered m x" for x
    by (rule covered_cong) (simp_all add: id, simp_all add: m')
  have "covered m s"
    using maps_okD(1) [OF M s] s by (simp add: covered_def)
  then have "gates_ok m'"
    using gates_okD [OF G] len unfolding gates_ok_def cov rd len(2) by (auto simp: m' open_leases_def)
  ultimately show ?thesis
    by (simp add: conn_inv_def)
qed

lemma inv_acquire:
  assumes inv: "conn_inv m"
  shows "conn_inv (snd (Acquire s now m))"
proof -
  obtain d w m1 where B: "beginDisableLocked (ts_ID (sess m s)) m = (d, w, m1)"
    by (cases "beginDisableLocked (ts_ID (sess m s)) m") auto
  obtain l m2 where N: "newLease s m = (l, m2)"
    by fastforce
  have "conn_inv (m1\<lparr>tc_expiry := tc_expiry m1 @ [AwaitDisable d]\<rparr>)" "conn_inv m1" if "\<not> tc_stopped m"
    using inv_beginDisable [OF inv that B] by (auto intro: inv_frame)
  then show ?thesis
    using inv inv_newLease [OF inv _ N] by (auto simp: Acquire_def Let_def B N)
qed

lemma inv_fork:
  assumes inv: "conn_inv m"
  shows "conn_inv (snd (Fork l m))"
proof -
  obtain l' m2 where N: "newLease (tl_session (tc_leases m ! l)) m = (l', m2)"
    by fastforce
  show ?thesis
    using inv inv_newLease [OF inv _ N] by (auto simp: Fork_def Let_def N)
qed

lemma inv_release:
  assumes inv: "conn_inv m" and l: "l < length (tc_leases m)"
  shows "conn_inv (Release l m)"
proof (cases "tl_released (tc_leases m ! l)")
  case True
  then show ?thesis
    using inv by (simp add: Release_def)
next
  case False
  let ?s = "tl_session (tc_leases m ! l)"
  let ?m = "Release l m"
  note M = conn_invD(1) [OF inv] and G = conn_invD(2) [OF inv]
  have m': "?m = m\<lparr>tc_leases := (tc_leases m)[l := (tc_leases m ! l)\<lparr>tl_released := True\<rparr>],
            tc_heap := (tc_heap m)[?s := (sess m ?s)\<lparr>ts_readers := ts_readers (sess m ?s) - 1\<rparr>]\<rparr>"
    using False by (simp add: Release_def Let_def)
  have s: "?s < length (tc_heap m)"
    using gates_okD(1) [OF G] l by simp
  have id: "ts_ID (sess ?m x) = ts_ID (sess m x)" for x
    by (simp add: m' nth_update_if)
  have rd: "ts_readers (sess ?m x) = ts_readers (sess m x) - (if x = ?s then 1 else 0)" for x
    using s by (simp add: m' nth_update_if)
  have op: "open_leases ?m x = open_leases m x - (if x = ?s then 1 else 0)" for x
    using length_filter_update [OF l, of "\<lambda>k. tl_session k = x \<and> \<not> tl_released k" "(tc_leases m ! l)\<lparr>tl_released := True\<rparr>"] False
    by (auto simp: open_leases_def m' split: if_splits)
  have cov: "covered ?m x \<longleftrightarrow> covered m x" for x
    by (rule covered_cong) (simp_all add: id, simp_all add: m')
  have "maps_ok ?m"
    using M unfolding maps_ok_def removals_indexed_def id by (simp add: m')
  moreover have "gates_ok ?m"
  proof (rule gates_okI)
    fix k
    assume "k \<in> set (tc_leases ?m)"
    then show "tl_session k < length (tc_heap ?m)"
      using gates_okD(1) [OF G] s by (auto simp: m' dest!: set_update_subset_insert [THEN subsetD])
  next
    fix x
    assume x: "x < length (tc_heap ?m)"
    then have "ts_readers (sess m x) = open_leases m x"
      using gates_okD(2) [OF G, of x] by (simp add: m')
    then show "ts_readers (sess ?m x) = open_leases ?m x"
      unfolding rd op by simp
    show "covered ?m x" if "0 < ts_readers (sess ?m x)"
      using gates_okD(3) [OF G, of x] x that unfolding rd cov by (simp add: m' del: not_gr_zero)
  qed
  ultimately show ?thesis
    by (simp add: conn_inv_def)
qed

lemma inv_remove:
  assumes inv: "conn_inv m"
  shows "conn_inv (Remove s m)"
proof (cases "mget (tc_removals m) s = None \<and> \<not> tc_stopped m \<and> mget (tc_sessions m) s \<noteq> None")
  case False
  then show ?thesis
    using inv by (auto simp: Remove_def)
next
  case True
  note M = conn_invD(1) [OF inv] and G = conn_invD(2) [OF inv]
  let ?t = "ts_ID (sess m s)"
  let ?m1 = "detachSessionLocked s m"
  obtain r c m2 where R: "registerRemoveLocked s ?m1 = (r, c, m2)"
    by (cases "registerRemoveLocked s ?m1") auto
  have reg: "registers [s] m m2" "same_rest ?m1 m2" "tc_sessions m2 = mdel s (tc_sessions m)" "removals_indexed m2"
    using register_registers [OF R] maps_okD(3) [OF M] by (auto simp: detachSessionLocked_def registers_def removals_indexed_def)
  have rest: "tc_heap m2 = tc_heap m" "tc_leases m2 = tc_leases m" "tc_disables m2 = tc_disables m" "tc_disableStates m2 = tc_disableStates m"
    "tc_stopState m2 = tc_stopState m" "tc_sessionsByID m2 = bucket_del ?t s (tc_sessionsByID m)"
    using reg(2) by (simp_all add: same_rest_def detachSessionLocked_def)
  have s: "s < length (tc_heap m)" "mget (tc_disableStates m) ?t = None"
    using maps_okD(1) [OF M] True by blast+
  have "maps_ok m2"
  proof (rule maps_okI)
    fix x
    assume "mget (tc_sessions m2) x \<noteq> None"
    then show "x < length (tc_heap m2) \<and> mget (tc_disableStates m2) (ts_ID (sess m2 x)) = None \<and> \<not> tc_stopped m2"
      using maps_okD(1) [OF M, of x] by (simp add: reg(3) rest map_simps split: if_splits)
  next
    fix t' x
    show "mget (bucket (tc_sessionsByID m2) t') x \<noteq> None \<longleftrightarrow> mget (tc_sessions m2) x \<noteq> None \<and> ts_ID (sess m2 x) = t'"
      using maps_okD(2) [OF M, of t' x] by (auto simp: reg(3) rest map_simps)
  next
    fix x q
    assume "mget (tc_removals m2) x = Some q"
    then show "x < length (tc_heap m2) \<and> q < length (tc_removes m2) \<and> rm_session (tc_removes m2 ! q) = x \<and> \<not> rm_done (tc_removes m2 ! q)"
      using s(1) by (intro registers_removals_ok [OF reg(1) M rest(1)]) simp_all
  next
    fix t d
    assume "mget (tc_disableStates m2) t = Some d"
    then show "d < length (tc_disables m2) \<and> (\<forall>t'. mget (tc_disableStates m2) t' = Some d \<longrightarrow> t' = t)"
      unfolding rest by (rule maps_okD(5) [OF M])
  qed (rule reg(4))
  moreover have "gates_ok m2"
  proof (rule gates_frame [OF G rest(1,2)])
    fix x
    assume c: "covered m x"
    obtain q where q: "mget (tc_removals m2) s = Some q"
      using registers_all [OF reg(1), of s] by auto
    then have "tc_removes m2 ! q = fresh_removal s"
      using registers_new [OF reg(1) _ q] True by simp
    then show "covered m2 x"
      using c q registers_keeps_undrained [OF reg(1) M, of x] s(2)
      by (auto simp: covered_def rest reg(3) map_simps stop_draining_def fresh_removal_def split: option.splits)
  qed
  ultimately have "conn_inv m2"
    by (simp add: conn_inv_def)
  then show ?thesis
    using True by (simp add: Remove_def R inv_schedule)
qed

text \<open>A completed cleanup is not something the invariant looks at.\<close>

lemma inv_completeTokenRemove:
  assumes inv: "conn_inv m"
  shows "conn_inv (completeTokenRemove r m)"
proof -
  let ?m = "completeTokenRemove r m"
  have f: "rm_session (tc_removes ?m ! x) = rm_session (tc_removes m ! x)" "rm_done (tc_removes ?m ! x) = rm_done (tc_removes m ! x)"
    "rm_drained (tc_removes ?m ! x) = rm_drained (tc_removes m ! x)" "length (tc_removes ?m) = length (tc_removes m)" for x
    by (simp_all add: completeTokenRemove_def nth_update_if)
  have g: "tc_heap ?m = tc_heap m" "tc_leases ?m = tc_leases m" "tc_disables ?m = tc_disables m" "tc_sessions ?m = tc_sessions m"
    "tc_sessionsByID ?m = tc_sessionsByID m" "tc_removals ?m = tc_removals m" "tc_removalsByID ?m = tc_removalsByID m"
    "tc_disableStates ?m = tc_disableStates m" "tc_stopState ?m = tc_stopState m"
    by (simp_all add: completeTokenRemove_def)
  have "conn_inv ?m = conn_inv m"
    unfolding conn_inv_def maps_ok_def gates_ok_def covered_def open_leases_def stop_draining_def removals_indexed_def
    by (simp only: f g)
  with inv show ?thesis
    by simp
qed

lemma inv_completeOwned: "conn_inv m \<Longrightarrow> conn_inv (completeOwned rs m)"
  by (induction rs arbitrary: m) (simp_all add: completeOwned_def inv_completeTokenRemove)

lemma inv_completeRemove: "conn_inv m \<Longrightarrow> conn_inv (CompleteRemove s m)"
  by (simp add: CompleteRemove_def inv_completeTokenRemove split: option.split)

lemma inv_beginStop:
  assumes inv: "conn_inv m"
  shows "conn_inv (tokens_beginStop m)"
proof (cases "tc_stopState m")
  case (Some st)
  then show ?thesis
    using inv by (simp add: tokens_beginStop_def)
next
  case None
  note M = conn_invD(1) [OF inv] and G = conn_invD(2) [OF inv]
  let ?ss = "mkeys (tc_sessions m)"
  let ?m = "tokens_beginStop m"
  obtain m1 os where L: "stopLoop ?ss (m, []) = (m1, os)"
    by (cases "stopLoop ?ss (m, [])") auto
  have reg: "registers ?ss m m1" "same_rest m m1" "removals_indexed m1"
    using stopLoop_registers [OF L] maps_okD(3) [OF M] by auto
  have m': "tc_heap ?m = tc_heap m" "tc_leases ?m = tc_leases m" "tc_disables ?m = tc_disables m" "tc_disableStates ?m = tc_disableStates m"
    "tc_sessions ?m = []" "tc_sessionsByID ?m = []" "tc_removals ?m = tc_removals m1" "tc_removalsByID ?m = tc_removalsByID m1"
    "tc_removes ?m = tc_removes m1" "stop_draining ?m = ?ss"
    using None L reg(2) by (simp_all add: tokens_beginStop_def same_rest_def stop_draining_def)
  have reg': "registers ?ss m ?m"
    using reg(1) by (simp add: registers_def m')
  have "maps_ok ?m"
  proof (rule maps_okI)
    show "removals_indexed ?m"
      using reg(3) reg(2) by (simp add: removals_indexed_def m' same_rest_def)
  next
    fix x q
    assume "mget (tc_removals ?m) x = Some q"
    then show "x < length (tc_heap ?m) \<and> q < length (tc_removes ?m) \<and> rm_session (tc_removes ?m ! q) = x \<and> \<not> rm_done (tc_removes ?m ! q)"
      using maps_okD(1) [OF M] by (intro registers_removals_ok [OF reg' M m'(1)]) (simp_all add: mem_mkeys)
  next
    fix t d
    assume "mget (tc_disableStates ?m) t = Some d"
    then show "d < length (tc_disables ?m) \<and> (\<forall>t'. mget (tc_disableStates ?m) t' = Some d \<longrightarrow> t' = t)"
      unfolding m' by (rule maps_okD(5) [OF M])
  qed (simp_all add: m' map_simps)
  moreover have "gates_ok ?m"
  proof (rule gates_frame [OF G m'(1,2)])
    fix x
    assume "covered m x"
    then show "covered ?m x"
      using registers_keeps_undrained [OF reg' M, of x] None unfolding covered_def m'
      by (auto simp: mem_mkeys map_simps stop_draining_def split: option.splits)
  qed
  ultimately show ?thesis
    by (simp add: conn_inv_def)
qed

text \<open>A disabling that moves on without losing a session somebody still holds.\<close>

lemma inv_set_disable:
  assumes inv: "conn_inv m" and d: "d < length (tc_disables m)"
    and dis: "tc_disables m' = (tc_disables m)[d := st]"
    and keep: "\<And>s. s \<in> set (draining (ds_phase (tc_disables m ! d))) \<Longrightarrow> 0 < ts_readers (sess m s) \<Longrightarrow> s \<in> set (draining (ds_phase st))"
    and g: "tc_heap m' = tc_heap m" "tc_leases m' = tc_leases m" "tc_sessions m' = tc_sessions m"
      "tc_sessionsByID m' = tc_sessionsByID m" "tc_removals m' = tc_removals m" "tc_removalsByID m' = tc_removalsByID m"
      "tc_disableStates m' = tc_disableStates m" "tc_stopState m' = tc_stopState m" "tc_removes m' = tc_removes m"
  shows "conn_inv m'"
proof -
  have len: "length (tc_disables m') = length (tc_disables m)"
    by (simp add: dis)
  have "maps_ok m' = maps_ok m"
    unfolding maps_ok_def removals_indexed_def by (simp only: g len)
  moreover have "gates_ok m'"
  proof (rule gates_frame [OF conn_invD(2) [OF inv] g(1,2)])
    fix s
    assume "0 < ts_readers (sess m s)" "covered m s"
    then show "covered m' s"
      using keep [of s] unfolding covered_def stop_draining_def g dis
      by (auto simp: nth_update_if split: option.splits)
  qed
  ultimately show ?thesis
    using inv by (simp add: conn_inv_def)
qed

lemma inv_phase:
  assumes "conn_inv m" and "d < length (tc_disables m)"
    and "\<And>s. s \<in> set (draining (ds_phase (tc_disables m ! d))) \<Longrightarrow> 0 < ts_readers (sess m s) \<Longrightarrow> s \<in> set (draining p)"
  shows "conn_inv (set_disable d p m)"
  using assms by (intro inv_set_disable [OF assms(1,2), where st = "(tc_disables m ! d)\<lparr>ds_phase := p\<rparr>"])
    (simp_all add: set_disable_def)

lemma disables_completeOwned [simp]: "tc_disables (completeOwned rs m) = tc_disables m"
  by (induction rs arbitrary: m) (simp_all add: completeOwned_def completeTokenRemove_def)

lemma inv_completeDisable:
  assumes inv: "conn_inv m" and d: "d < length (tc_disables m)" and C: "completeDisable d m = Some m'"
  shows "conn_inv m'"
proof -
  let ?st = "tc_disables m ! d"
  show ?thesis
  proof (cases "ds_phase ?st")
    case (Draining ss)
    show ?thesis
    proof (cases ss)
      case Nil
      then show ?thesis
        using C Draining inv_phase [OF inv d, of Calling] by (simp add: completeDisable_def Let_def)
    next
      case (Cons x xs)
      then have m': "m' = set_disable d (Draining xs) m" and z: "ts_readers (sess m x) = 0"
        using C Draining by (auto simp: completeDisable_def Let_def split: if_splits)
      show ?thesis
        unfolding m' by (rule inv_phase [OF inv d]) (use Draining Cons z in auto)
    qed
  next
    case Calling
    have "conn_inv (m\<lparr>tc_callbacks := tc_callbacks m @ ds_result ?st\<rparr>)"
      by (rule inv_frame [OF inv]) simp_all
    from inv_phase [OF this, of d Completing] show ?thesis
      using C Calling d by (simp add: completeDisable_def Let_def)
  next
    case Completing
    then show ?thesis
      using C d inv_phase [OF inv_completeOwned [OF inv, of "ds_ownedRemovals ?st"], of d "Joining (ds_removals ?st)"]
      by (simp add: completeDisable_def Let_def)
  next
    case (Joining rs)
    show ?thesis
    proof (cases rs)
      case Nil
      then have "m' = m\<lparr>tc_disables := (tc_disables m)[d := ?st\<lparr>ds_sessions := [], ds_removals := [], ds_ownedRemovals := [], ds_phase := Finished\<rparr>]\<rparr>"
        using C Joining by (simp add: completeDisable_def Let_def)
      then show ?thesis
        using Joining by (intro inv_set_disable [OF inv d, where st = "?st\<lparr>ds_sessions := [], ds_removals := [], ds_ownedRemovals := [], ds_phase := Finished\<rparr>"]) simp_all
    next
      case (Cons x xs)
      then show ?thesis
        using C Joining inv_phase [OF inv d, of "Joining xs"] by (auto simp: completeDisable_def Let_def split: if_splits)
    qed
  qed (use C in \<open>simp_all add: completeDisable_def Let_def\<close>)
qed

lemma inv_finishRemove:
  assumes inv: "conn_inv m" and r: "r < length (tc_removes m)" and F: "finishRemove r m = Some m'"
  shows "conn_inv m'"
proof -
  note M = conn_invD(1) [OF inv] and G = conn_invD(2) [OF inv]
  let ?st = "tc_removes m ! r"
  let ?s = "rm_session ?st"
  show ?thesis
  proof (cases "rm_drained ?st")
    case False
    then have m': "m' = m\<lparr>tc_removes := (tc_removes m)[r := ?st\<lparr>rm_drained := True\<rparr>]\<rparr>" and z: "ts_readers (sess m ?s) = 0"
      using F by (simp_all add: finishRemove_def Let_def split: if_splits)
    have f: "rm_session (tc_removes m' ! x) = rm_session (tc_removes m ! x)" "rm_done (tc_removes m' ! x) = rm_done (tc_removes m ! x)"
      "length (tc_removes m') = length (tc_removes m)" for x
      by (simp_all add: m' nth_update_if)
    have g: "tc_heap m' = tc_heap m" "tc_leases m' = tc_leases m" "tc_disables m' = tc_disables m" "tc_sessions m' = tc_sessions m"
      "tc_sessionsByID m' = tc_sessionsByID m" "tc_removals m' = tc_removals m" "tc_removalsByID m' = tc_removalsByID m"
      "tc_disableStates m' = tc_disableStates m" "tc_stopState m' = tc_stopState m"
      by (simp_all add: m')
    have "maps_ok m' = maps_ok m"
      unfolding maps_ok_def removals_indexed_def by (simp only: f g)
    moreover have "gates_ok m'"
    proof (rule gates_frame [OF G g(1,2)])
      fix x
      assume p: "0 < ts_readers (sess m x)" and c: "covered m x"
      have "q \<noteq> r" if "mget (tc_removals m) x = Some q" for q
        using maps_okD(4) [OF M that] z p by auto
      then show "covered m' x"
        using c unfolding covered_def g stop_draining_def by (auto simp: m' nth_update_if split: option.splits)
    qed
    ultimately show ?thesis
      using M by (simp add: conn_inv_def)
  next
    case True
    let ?m0 = "m\<lparr>tc_removes := (tc_removes m)[r := ?st\<lparr>rm_done := True\<rparr>]\<rparr>"
    let ?t = "ts_ID (sess m ?s)"
    have m': "m' = (if mget (tc_removals m) ?s = Some r
        then ?m0\<lparr>tc_removals := mdel ?s (tc_removals m), tc_removalsByID := bucket_del ?t ?s (tc_removalsByID m)\<rparr> else ?m0)"
      using F True by (auto simp: finishRemove_def Let_def split: if_splits)
    have g: "tc_heap m' = tc_heap m" "tc_leases m' = tc_leases m" "tc_disables m' = tc_disables m" "tc_sessions m' = tc_sessions m"
      "tc_sessionsByID m' = tc_sessionsByID m" "tc_disableStates m' = tc_disableStates m" "tc_stopState m' = tc_stopState m"
      by (simp_all add: m')
    have own: "x = ?s" if "mget (tc_removals m) x = Some r" for x
      using maps_okD(4) [OF M that] by simp
    have rem: "mget (tc_removals m') x = (if mget (tc_removals m) x = Some r then None else mget (tc_removals m) x)" for x
    proof (cases "mget (tc_removals m) ?s = Some r")
      case True
      then show ?thesis
        using own [of x] by (cases "x = ?s") (auto simp: m' map_simps)
    next
      case False
      then have "mget (tc_removals m) x \<noteq> Some r"
        using own [of x] by blast
      then show ?thesis
        using False by (simp add: m')
    qed
    have f: "rm_session (tc_removes m' ! x) = rm_session (tc_removes m ! x)" "x \<noteq> r \<Longrightarrow> tc_removes m' ! x = tc_removes m ! x"
      "length (tc_removes m') = length (tc_removes m)" for x
      by (simp_all add: m' nth_update_if)
    have "maps_ok m'"
    proof (rule maps_okI)
      have "mget (bucket (tc_removalsByID m') t) x = (if mget (tc_removals m) x = Some r then None else mget (bucket (tc_removalsByID m) t) x)" for t x
      proof (cases "mget (tc_removals m) ?s = Some r")
        case True
        then show ?thesis
          using own [of x] maps_okD(3) [OF M] unfolding removals_indexed_def by (cases "x = ?s") (auto simp: m' map_simps)
      next
        case False
        then have "mget (tc_removals m) x \<noteq> Some r"
          using own [of x] by blast
        then show ?thesis
          using False by (simp add: m')
      qed
      then show "removals_indexed m'"
        using maps_okD(3) [OF M] unfolding removals_indexed_def g rem by simp
    next
      fix x q
      assume "mget (tc_removals m') x = Some q"
      then have "mget (tc_removals m) x = Some q" "q \<noteq> r"
        by (auto simp: rem split: if_splits)
      then show "x < length (tc_heap m') \<and> q < length (tc_removes m') \<and> rm_session (tc_removes m' ! q) = x \<and> \<not> rm_done (tc_removes m' ! q)"
        using maps_okD(4) [OF M, of x q] f by (simp add: g)
    next
      fix t d
      assume "mget (tc_disableStates m') t = Some d"
      then show "d < length (tc_disables m') \<and> (\<forall>t'. mget (tc_disableStates m') t' = Some d \<longrightarrow> t' = t)"
        unfolding g by (rule maps_okD(5) [OF M])
    next
      fix x
      assume "mget (tc_sessions m') x \<noteq> None"
      then show "x < length (tc_heap m') \<and> mget (tc_disableStates m') (ts_ID (sess m' x)) = None \<and> \<not> tc_stopped m'"
        unfolding g by (rule maps_okD(1) [OF M])
    next
      fix t x
      show "mget (bucket (tc_sessionsByID m') t) x \<noteq> None \<longleftrightarrow> mget (tc_sessions m') x \<noteq> None \<and> ts_ID (sess m' x) = t"
        unfolding g by (rule maps_okD(2) [OF M])
    qed
    moreover have "gates_ok m'"
    proof (rule gates_frame [OF G g(1,2)])
      fix x
      assume c: "covered m x"
      have "mget (tc_removals m') x = Some q \<and> \<not> rm_drained (tc_removes m' ! q)"
        if "mget (tc_removals m) x = Some q" "\<not> rm_drained (tc_removes m ! q)" for q
      proof -
        have "q \<noteq> r"
          using that(2) True by auto
        then show ?thesis
          using that f(2) by (simp add: rem)
      qed
      then show "covered m' x"
        using c unfolding covered_def g stop_draining_def by (auto split: option.splits)
    qed
    ultimately show ?thesis
      by (simp add: conn_inv_def)
  qed
qed

lemma inv_set_stop:
  assumes inv: "conn_inv m" and st: "tc_stopState m = Some st"
    and keep: "\<And>s. s \<in> set (draining (st_phase st)) \<Longrightarrow> 0 < ts_readers (sess m s) \<Longrightarrow> s \<in> set (draining p)"
  shows "conn_inv (set_stop st p m)"
proof -
  let ?m = "set_stop st p m"
  have g: "tc_heap ?m = tc_heap m" "tc_leases ?m = tc_leases m" "tc_disables ?m = tc_disables m" "tc_sessions ?m = tc_sessions m"
    "tc_sessionsByID ?m = tc_sessionsByID m" "tc_removals ?m = tc_removals m" "tc_removalsByID ?m = tc_removalsByID m"
    "tc_disableStates ?m = tc_disableStates m" "tc_removes ?m = tc_removes m" "tc_stopped ?m = tc_stopped m"
    using st by (simp_all add: set_stop_def)
  have "maps_ok ?m = maps_ok m"
    unfolding maps_ok_def removals_indexed_def by (simp only: g)
  moreover have "gates_ok ?m"
  proof (rule gates_frame [OF conn_invD(2) [OF inv] g(1,2)])
    fix s
    assume "0 < ts_readers (sess m s)" "covered m s"
    then show "covered ?m s"
      using keep [of s] st unfolding covered_def g
      by (auto simp: stop_draining_def set_stop_def split: option.splits)
  qed
  ultimately show ?thesis
    using inv by (simp add: conn_inv_def)
qed

lemma stopState_completeOwned [simp]: "tc_stopState (completeOwned rs m) = tc_stopState m"
  by (induction rs arbitrary: m) (simp_all add: completeOwned_def completeTokenRemove_def)

lemma inv_completeStop:
  assumes inv: "conn_inv m" and C: "completeStop m = Some m'"
  shows "conn_inv m'"
proof -
  obtain st where st: "tc_stopState m = Some st"
    using C by (auto simp: completeStop_def split: option.splits)
  note go = inv_set_stop [OF inv st]
  show ?thesis
  proof (cases "st_phase st")
    case (Draining ss)
    show ?thesis
    proof (cases ss)
      case Nil
      then show ?thesis
        using C st Draining go [of Calling] by (simp add: completeStop_def)
    next
      case (Cons x xs)
      then have m': "m' = set_stop st (Draining xs) m" and z: "ts_readers (sess m x) = 0"
        using C st Draining by (auto simp: completeStop_def split: if_splits)
      show ?thesis
        unfolding m' by (rule go) (use Draining Cons z in auto)
    qed
  next
    case Calling
    have "conn_inv (m\<lparr>tc_callbacks := tc_callbacks m @ st_active st\<rparr>)"
      by (rule inv_frame [OF inv]) simp_all
    from inv_set_stop [OF this, of st Completing] show ?thesis
      using C st Calling by (simp add: completeStop_def)
  next
    case Completing
    then show ?thesis
      using C st inv_set_stop [OF inv_completeOwned [OF inv, of "st_ownedRemovals st"], of st "Joining (st_removals st)"]
      by (simp add: completeStop_def)
  next
    case (Joining rs)
    then show ?thesis
      using C st go by (cases rs) (auto simp: completeStop_def split: if_splits)
  next
    case (Awaiting ds)
    then show ?thesis
      using C st go by (cases ds) (auto simp: completeStop_def split: if_splits)
  next
    case Finished
    then show ?thesis
      using C st by (simp add: completeStop_def)
  qed
qed

lemma inv_expirer_gone: "conn_inv m \<Longrightarrow> conn_inv (expirer_gone k m)"
  by (erule inv_frame) (simp_all add: expirer_gone_def)

lemma inv_expireCheck:
  assumes inv: "conn_inv m"
  shows "conn_inv (expireCheck k t g now m)"
proof -
  obtain d w m1 where B: "beginDisableLocked t m = (d, w, m1)"
    by (cases "beginDisableLocked t m") auto
  have "conn_inv (m1\<lparr>tc_expiry := (tc_expiry m1)[k := AwaitDisable d]\<rparr>)" if "\<not> tc_stopped m"
    using inv_beginDisable [OF inv that B] by (auto intro: inv_frame)
  moreover have "conn_inv (m\<lparr>tc_expiryTimers := mdel t (tc_expiryTimers m)\<rparr>)"
    by (rule inv_frame [OF inv]) simp_all
  ultimately show ?thesis
    using inv by (auto simp: expireCheck_def B inv_expirer_gone inv_schedule split: option.split)
qed

lemma inv_new:
  assumes inv: "conn_inv m"
  shows "conn_inv (m\<lparr>tc_heap := tc_heap m @ [\<lparr>ts_ID = t, ts_ExpiresAt = x, ts_conn = None, ts_readers = 0\<rparr>]\<rparr>)"
    (is "conn_inv ?m")
proof -
  note M = conn_invD(1) [OF inv] and G = conn_invD(2) [OF inv]
  have old: "sess ?m s = sess m s" if "s < length (tc_heap m)" for s
    using that by (simp add: nth_append)
  have S: "s < length (tc_heap m)" if "mget (tc_sessions m) s \<noteq> None" for s
    using maps_okD(1) [OF M that] by simp
  have R: "s < length (tc_heap m)" if "mget (tc_removals m) s \<noteq> None" for s
    using maps_okD(4) [OF M, of s] that by auto
  have maps: "maps_ok ?m"
  proof (rule maps_okI)
    fix s
    assume "mget (tc_sessions ?m) s \<noteq> None"
    then show "s < length (tc_heap ?m) \<and> mget (tc_disableStates ?m) (ts_ID (sess ?m s)) = None \<and> \<not> tc_stopped ?m"
      using maps_okD(1) [OF M, of s] old [of s] by simp
  next
    fix t' s
    show "mget (bucket (tc_sessionsByID ?m) t') s \<noteq> None \<longleftrightarrow> mget (tc_sessions ?m) s \<noteq> None \<and> ts_ID (sess ?m s) = t'"
      using maps_okD(2) [OF M, of t' s] old [of s] S [of s] by auto
  next
    show "removals_indexed ?m"
      unfolding removals_indexed_def
    proof (intro allI)
      fix t' s
      show "mget (bucket (tc_removalsByID ?m) t') s = (if ts_ID (sess ?m s) = t' then mget (tc_removals ?m) s else None)"
        using maps_okD(3) [OF M] old [of s] R [of s] unfolding removals_indexed_def by (cases "mget (tc_removals m) s") auto
    qed
  next
    fix s r
    assume "mget (tc_removals ?m) s = Some r"
    then show "s < length (tc_heap ?m) \<and> r < length (tc_removes ?m) \<and> rm_session (tc_removes ?m ! r) = s \<and> \<not> rm_done (tc_removes ?m ! r)"
      using maps_okD(4) [OF M, of s r] by simp
  next
    fix t' d
    assume "mget (tc_disableStates ?m) t' = Some d"
    then show "d < length (tc_disables ?m) \<and> (\<forall>t''. mget (tc_disableStates ?m) t'' = Some d \<longrightarrow> t'' = t')"
      using maps_okD(5) [OF M, of t' d] by simp
  qed
  have none: "open_leases m (length (tc_heap m)) = 0"
    using gates_okD(1) [OF G] by (fastforce simp: open_leases_def filter_empty_conv)
  have "gates_ok ?m"
  proof (intro gates_okI)
    fix s
    assume s: "s < length (tc_heap ?m)"
    show "ts_readers (sess ?m s) = open_leases ?m s"
      using gates_okD(2) [OF G, of s] old [of s] s none by (cases "s = length (tc_heap m)") (simp_all add: open_leases_def)
    show "covered ?m s" if "0 < ts_readers (sess ?m s)"
    proof -
      have "s < length (tc_heap m)"
        using that s by (cases "s = length (tc_heap m)") simp_all
      then show ?thesis
        using gates_okD(3) [OF G, of s] old [of s] that covered_cong [of ?m s m] by simp
    qed
  qed (use gates_okD(1) [OF G] in fastforce)
  with maps show ?thesis
    by (simp add: conn_inv_def)
qed

lemma inv_Disable:
  assumes inv: "conn_inv m"
  shows "conn_inv (snd (Disable t m))"
proof -
  obtain d w m1 where B: "beginDisableLocked t m = (d, w, m1)"
    by (cases "beginDisableLocked t m") auto
  show ?thesis
    using inv inv_beginDisable [OF inv _ B] by (cases "tc_stopped m") (simp_all add: Disable_def B)
qed

lemma inv_expireEnter: "conn_inv m \<Longrightarrow> conn_inv (expireEnter t g m)"
  by (erule inv_frame) (simp_all add: expireEnter_def)

lemma inv_token_conn_step: "token_conn_step m m' \<Longrightarrow> conn_inv m \<Longrightarrow> conn_inv m'"
  by (induction rule: token_conn_step.induct)
     (rule inv_new inv_track inv_acquire inv_release inv_fork inv_remove inv_completeRemove inv_Disable inv_beginStop
       inv_expireEnter inv_expireCheck inv_expirer_gone inv_completeDisable inv_finishRemove inv_completeStop; assumption)+

lemma inv_token_conn_run: "token_conn_run m m' \<Longrightarrow> conn_inv m \<Longrightarrow> conn_inv m'"
  by (induction rule: rtranclp_induct) (auto intro: inv_token_conn_step)

lemma inv_newTokenConnections: "conn_inv newTokenConnections"
  by (simp add: conn_inv_def maps_ok_def gates_ok_def newTokenConnections_def removals_indexed_def map_simps)

section \<open>Tombstones are final\<close>

text \<open>The disabling of a token exists and has no session left to wait for.\<close>

definition quiet :: "string \<Rightarrow> nat \<Rightarrow> tokenConnections \<Rightarrow> bool" where
  "quiet t d m \<longleftrightarrow> mget (tc_disableStates m) t = Some d \<and> draining (ds_phase (tc_disables m ! d)) = []"

lemma quiet_frame:
  "quiet t d m \<Longrightarrow> tc_disableStates m' = tc_disableStates m \<Longrightarrow> tc_disables m' = tc_disables m \<Longrightarrow> quiet t d m'"
  by (simp add: quiet_def)

lemma quiet_beginDisable:
  assumes "conn_inv m" and "quiet t d m" and B: "beginDisableLocked t' m = (d', w, m')"
  shows "quiet t d m'"
proof (cases "mget (tc_disableStates m) t'")
  case (Some d'')
  then show ?thesis
    using assms by (simp add: beginDisableLocked_def)
next
  case None
  have "d < length (tc_disables m)" and "t \<noteq> t'"
    using disable_lt [OF conn_invD(1) [OF assms(1)]] assms(2) None by (auto simp: quiet_def)
  moreover obtain st where "tc_disables m' = tc_disables m @ [st]" "tc_disableStates m' = mput t' d' (tc_disableStates m)"
    by (rule beginDisable_new [OF conn_invD(1) [OF assms(1)] None B]) (rule that; assumption)
  ultimately show ?thesis
    using assms(2) by (simp add: quiet_def nth_append map_simps)
qed

lemma schedule_disables [simp]:
  "tc_disables (scheduleExpiryLocked t m) = tc_disables m" "tc_disableStates (scheduleExpiryLocked t m) = tc_disableStates m"
  by (auto simp: scheduleExpiryLocked_def Let_def split: option.split)

lemma disableStates_completeOwned [simp]: "tc_disableStates (completeOwned rs m) = tc_disableStates m"
  by (induction rs arbitrary: m) (simp_all add: completeOwned_def completeTokenRemove_def)

lemma register_disables:
  "tc_disables (snd (snd (registerRemoveLocked s m))) = tc_disables m" "tc_disableStates (snd (snd (registerRemoveLocked s m))) = tc_disableStates m"
  by (auto simp: registerRemoveLocked_def Let_def split: option.split)

lemma quiet_completeDisable:
  assumes "quiet t d m" and C: "completeDisable d' m = Some m'"
  shows "quiet t d m'"
proof -
  have st: "tc_disableStates m' = tc_disableStates m"
    using C by (auto simp: completeDisable_def Let_def set_disable_def split: completion.splits list.splits if_splits)
  have ph: "\<exists>st. tc_disables m' = (tc_disables m)[d' := st] \<and> (draining (ds_phase (tc_disables m ! d')) = [] \<longrightarrow> draining (ds_phase st) = [])"
    using C by (auto simp: completeDisable_def Let_def set_disable_def split: completion.splits list.splits if_splits)
  then show ?thesis
    using assms(1) st by (auto simp: quiet_def nth_update_if)
qed

lemma stopLoop_disables:
  "stopLoop ss (m, os) = (m', os') \<Longrightarrow> tc_disables m' = tc_disables m \<and> tc_disableStates m' = tc_disableStates m"
  using stopLoop_registers [of ss m os m' os'] by (simp add: same_rest_def)

lemma quiet_step:
  assumes "token_conn_step m m'" and inv: "conn_inv m" and q: "quiet t d m"
  shows "quiet t d m'"
  using assms(1)
proof cases
  case (track s conn now)
  obtain d' w m1 where B: "beginDisableLocked (ts_ID (sess m s)) m = (d', w, m1)"
    by (cases "beginDisableLocked (ts_ID (sess m s)) m") auto
  then show ?thesis
    using track q quiet_beginDisable [OF inv q B] by (auto simp: Track_def Let_def intro: quiet_frame)
next
  case (acquire s now)
  obtain d' w m1 where B: "beginDisableLocked (ts_ID (sess m s)) m = (d', w, m1)"
    by (cases "beginDisableLocked (ts_ID (sess m s)) m") auto
  then show ?thesis
    using acquire q quiet_beginDisable [OF inv q B] by (auto simp: Acquire_def newLease_def Let_def intro: quiet_frame)
next
  case (disable t')
  obtain d' w m1 where B: "beginDisableLocked t' m = (d', w, m1)"
    by (cases "beginDisableLocked t' m") auto
  then show ?thesis
    using disable q quiet_beginDisable [OF inv q B] by (auto simp: Disable_def)
next
  case (expire_check k t' g now)
  obtain d' w m1 where B: "beginDisableLocked t' m = (d', w, m1)"
    by (cases "beginDisableLocked t' m") auto
  then show ?thesis
    using expire_check q quiet_beginDisable [OF inv q B]
    by (auto simp: expireCheck_def expirer_gone_def intro: quiet_frame split: option.split)
next
  case stop
  then show ?thesis
    using q stopLoop_disables [of "mkeys (tc_sessions m)" m "[]"]
    by (cases "stopLoop (mkeys (tc_sessions m)) (m, [])") (auto simp: tokens_beginStop_def quiet_def split: option.split)
next
  case (disable_goroutine d')
  then show ?thesis
    using q quiet_completeDisable by blast
next
  case (remove_goroutine r)
  then show ?thesis
    using q by (auto simp: finishRemove_def Let_def quiet_def split: if_splits)
next
  case stop_goroutine
  then show ?thesis
    using q by (auto simp: completeStop_def set_stop_def quiet_def split: option.splits completion.splits list.splits if_splits)
qed (use q register_disables in \<open>auto simp: quiet_def Release_def Fork_def newLease_def Remove_def detachSessionLocked_def CompleteRemove_def
    completeTokenRemove_def expireEnter_def expirer_gone_def Let_def split: option.split\<close>)

lemma quiet_run:
  assumes "token_conn_run m m'" and "conn_inv m" and "quiet t d m"
  shows "quiet t d m' \<and> conn_inv m'"
  using assms by (induction rule: rtranclp_induct) (auto intro: quiet_step inv_token_conn_step)

text \<open>
  C4: disabling a token is final and complete. From the moment its disabling has waited for the open
  leases, in particular once it calls back to close the connections and when \<open>Disable\<close> has
  returned, no operation is in progress on any session of the token, none is tracked, and no session of
  it, old or new, is ever admitted again: tracking, acquiring and forking fail, whatever else happens
  concurrently.
\<close>

theorem disabled_token_stays_out:
  assumes "token_conn_run newTokenConnections m" and "mget (tc_disableStates m) t = Some d"
    and "draining (ds_phase (tc_disables m ! d)) = []" and "token_conn_run m m'"
    and "s < length (tc_heap m')" and "ts_ID (sess m' s) = t"
  shows "open_leases m' s = 0 \<and> mget (tc_sessions m') s = None
    \<and> \<not> fst (Track s conn now m') \<and> fst (Acquire s now m') = None
    \<and> (l < length (tc_leases m') \<and> tl_session (tc_leases m' ! l) = s \<longrightarrow> fst (Fork l m') = None)"
proof -
  have "quiet t d m' \<and> conn_inv m'"
    using quiet_run [OF assms(4) inv_token_conn_run [OF assms(1) inv_newTokenConnections]] assms(2,3) by (simp add: quiet_def)
  then have q: "mget (tc_disableStates m') t = Some d" "draining (ds_phase (tc_disables m' ! d)) = []" and inv: "conn_inv m'"
    by (simp_all add: quiet_def)
  have "\<not> covered m' s"
    using q assms(6) by (simp add: covered_def)
  then have "open_leases m' s = 0"
    using gates_okD(2,3) [OF conn_invD(2) [OF inv] assms(5)] by auto
  moreover have "mget (tc_sessions m') s = None"
    using maps_okD(1) [OF conn_invD(1) [OF inv], of s] q(1) assms(6) by (cases "mget (tc_sessions m') s") auto
  ultimately show ?thesis
    using q(1) assms(6) by (simp add: Track_def Acquire_def Fork_def Let_def)
qed

definition demo_c1 :: tokenConnections where
  "demo_c1 = newTokenConnections\<lparr>tc_heap := tc_heap newTokenConnections @ [\<lparr>ts_ID = ''t'', ts_ExpiresAt = Some 9, ts_conn = None, ts_readers = 0\<rparr>]\<rparr>"

definition demo_c2 :: tokenConnections where "demo_c2 = snd (Track 0 (Some 7) 5 demo_c1)"
definition demo_c3 :: tokenConnections where "demo_c3 = snd (Disable ''t'' demo_c2)"
definition demo_c4 :: tokenConnections where "demo_c4 = the (completeDisable 0 demo_c3)"

lemma demo_conn_run: "token_conn_run newTokenConnections demo_c2" "token_conn_run demo_c2 demo_c4"
proof -
  have "token_conn_step newTokenConnections demo_c1"
    unfolding demo_c1_def by (rule token_conn_step.new)
  moreover have "token_conn_step demo_c1 demo_c2"
    unfolding demo_c2_def by (rule token_conn_step.track) (simp add: demo_c1_def newTokenConnections_def)
  ultimately show "token_conn_run newTokenConnections demo_c2"
    by auto
  have "length (tc_disables demo_c3) = 1" "completeDisable 0 demo_c3 \<noteq> None"
    by code_simp+
  then have "token_conn_step demo_c3 demo_c4"
    unfolding demo_c4_def by (intro token_conn_step.disable_goroutine [of 0]) auto
  moreover have "token_conn_step demo_c2 demo_c3"
    unfolding demo_c3_def by (rule token_conn_step.disable)
  ultimately show "token_conn_run demo_c2 demo_c4"
    by auto
qed

theorem disabled_token_stays_out_witness:
  "fst (Track 0 (Some 7) 5 demo_c1) \<and> fst (Acquire 0 6 demo_c2) \<noteq> None \<and> fst (Acquire 0 6 demo_c4) = None"
proof -
  have "mget (tc_disableStates demo_c4) ''t'' = Some 0" "draining (ds_phase (tc_disables demo_c4 ! 0)) = []"
    "length (tc_heap demo_c4) = 1" "ts_ID (sess demo_c4 0) = ''t''"
    by code_simp+
  then have "fst (Acquire 0 6 demo_c4) = None"
    using disabled_token_stays_out [OF rtranclp_trans [OF demo_conn_run], of "''t''" 0 demo_c4 0] by simp
  moreover have "fst (Track 0 (Some 7) 5 demo_c1)" "fst (Acquire 0 6 demo_c2) \<noteq> None"
    by code_simp+
  ultimately show ?thesis
    by simp
qed

section \<open>Stopping\<close>

text \<open>The removals and disablings the stop still has to join.\<close>

definition joins :: "tokenStopState \<Rightarrow> nat list" where
  "joins st = (case st_phase st of Joining rs \<Rightarrow> rs | Awaiting _ \<Rightarrow> [] | Finished \<Rightarrow> [] | _ \<Rightarrow> st_removals st)"

definition awaits :: "tokenStopState \<Rightarrow> nat list" where
  "awaits st = (case st_phase st of Awaiting ds \<Rightarrow> ds | Finished \<Rightarrow> [] | _ \<Rightarrow> st_disableDone st)"

definition stop_ok :: "tokenConnections \<Rightarrow> bool" where
  "stop_ok m \<longleftrightarrow>
    (case tc_stopState m of
       None \<Rightarrow> True
     | Some st \<Rightarrow>
         (\<forall>s r. mget (tc_removals m) s = Some r \<longrightarrow> r \<in> set (joins st))
         \<and> (\<forall>t d. mget (tc_disableStates m) t = Some d \<longrightarrow> ds_phase (tc_disables m ! d) = Finished \<or> d \<in> set (awaits st)))"

lemma stop_okI:
  assumes "\<And>st s r. tc_stopState m = Some st \<Longrightarrow> mget (tc_removals m) s = Some r \<Longrightarrow> r \<in> set (joins st)"
    and "\<And>st t d. tc_stopState m = Some st \<Longrightarrow> mget (tc_disableStates m) t = Some d \<Longrightarrow>
      ds_phase (tc_disables m ! d) = Finished \<or> d \<in> set (awaits st)"
  shows "stop_ok m"
  using assms by (auto simp: stop_ok_def split: option.split)

lemma stop_okD:
  assumes "stop_ok m" and "tc_stopState m = Some st"
  shows "mget (tc_removals m) s = Some r \<Longrightarrow> r \<in> set (joins st)"
    and "mget (tc_disableStates m) t = Some d \<Longrightarrow> ds_phase (tc_disables m ! d) = Finished \<or> d \<in> set (awaits st)"
  using assms by (auto simp: stop_ok_def)

lemma stop_ok_frame:
  assumes "stop_ok m" and "tc_stopState m' = tc_stopState m" and "tc_disableStates m' = tc_disableStates m"
    and "\<And>s r. mget (tc_removals m') s = Some r \<Longrightarrow> mget (tc_removals m) s = Some r"
    and "\<And>d. ds_phase (tc_disables m ! d) = Finished \<Longrightarrow> ds_phase (tc_disables m' ! d) = Finished"
  shows "stop_ok m'"
proof (rule stop_okI)
  fix st s r
  assume "tc_stopState m' = Some st" "mget (tc_removals m') s = Some r"
  then show "r \<in> set (joins st)"
    using stop_okD(1) [OF assms(1), of st s r] assms(2) assms(4) [of s r] by simp
next
  fix st t d
  assume "tc_stopState m' = Some st" "mget (tc_disableStates m') t = Some d"
  then show "ds_phase (tc_disables m' ! d) = Finished \<or> d \<in> set (awaits st)"
    using stop_okD(2) [OF assms(1), of st t d] assms(2,3) assms(5) [of d] by auto
qed

lemma removals_completeOwned [simp]: "tc_removals (completeOwned rs m) = tc_removals m"
  by (induction rs arbitrary: m) (simp_all add: completeOwned_def completeTokenRemove_def)

lemma stop_ok_completeDisable:
  assumes "stop_ok m" and C: "completeDisable d m = Some m'"
  shows "stop_ok m'"
proof (rule stop_ok_frame [OF assms(1)])
  fix d'
  assume "ds_phase (tc_disables m ! d') = Finished"
  then show "ds_phase (tc_disables m' ! d') = Finished"
    using C by (auto simp: completeDisable_def Let_def set_disable_def nth_update_if split: completion.splits list.splits if_splits)
qed (use C in \<open>auto simp: completeDisable_def Let_def set_disable_def split: completion.splits list.splits if_splits\<close>)

lemma stop_ok_finishRemove:
  assumes "stop_ok m" and C: "finishRemove r m = Some m'"
  shows "stop_ok m'"
  by (rule stop_ok_frame [OF assms(1)])
     (use C in \<open>auto simp: finishRemove_def Let_def map_simps split: if_splits\<close>)

lemma stop_ok_completeStop:
  assumes inv: "conn_inv m" and ok: "stop_ok m" and C: "completeStop m = Some m'"
  shows "stop_ok m'"
proof -
  obtain st where st: "tc_stopState m = Some st"
    using C by (auto simp: completeStop_def split: option.splits)
  note D = stop_okD [OF ok st]
  have nd: "mget (tc_removals m) s = Some r \<Longrightarrow> \<not> rm_done (tc_removes m ! r)" for s r
    using maps_okD(4) [OF conn_invD(1) [OF inv]] by blast
  have same: "tc_removals m' = tc_removals m" "tc_disableStates m' = tc_disableStates m" "tc_disables m' = tc_disables m"
    using C st by (auto simp: completeStop_def set_stop_def split: completion.splits list.splits if_splits)
  define p where "p = st_phase (the (tc_stopState m'))"
  note cases = completeStop_def set_stop_def joins_def awaits_def p_def
  have p: "tc_stopState m' = Some (st\<lparr>st_phase := p\<rparr>)"
    using C st by (auto simp: cases split: completion.splits list.splits if_splits)
  have j: "rm_done (tc_removes m ! r) \<or> r \<in> set (joins (st\<lparr>st_phase := p\<rparr>))" if "r \<in> set (joins st)" for r
    using C st that by (auto simp: cases split: completion.splits list.splits if_splits)
  have a: "ds_phase (tc_disables m ! d) = Finished \<or> d \<in> set (awaits (st\<lparr>st_phase := p\<rparr>))" if "d \<in> set (awaits st)" for d
    using C st that by (auto simp: cases split: completion.splits list.splits if_splits)
  show ?thesis
  proof (rule stop_okI)
    fix st' s r
    assume "tc_stopState m' = Some st'" and r: "mget (tc_removals m') s = Some r"
    then have "st' = st\<lparr>st_phase := p\<rparr>" "r \<in> set (joins st)" "\<not> rm_done (tc_removes m ! r)"
      using p D(1) [of s r] nd [of s r] same by simp_all
    then show "r \<in> set (joins st')"
      using j by blast
  next
    fix st' t d
    assume "tc_stopState m' = Some st'" and d: "mget (tc_disableStates m') t = Some d"
    then have "st' = st\<lparr>st_phase := p\<rparr>" "ds_phase (tc_disables m ! d) = Finished \<or> d \<in> set (awaits st)"
      using p D(2) [of t d] same by simp_all
    then show "ds_phase (tc_disables m' ! d) = Finished \<or> d \<in> set (awaits st')"
      using a same by auto
  qed
qed

lemma mget_snd: "mget b k = Some v \<Longrightarrow> v \<in> snd ` set b"
  by (force dest: mget_in_set)

lemma stop_ok_beginStop:
  assumes "stop_ok m"
  shows "stop_ok (tokens_beginStop m)"
proof (cases "tc_stopState m")
  case None
  obtain m1 os where L: "stopLoop (mkeys (tc_sessions m)) (m, []) = (m1, os)"
    by (cases "stopLoop (mkeys (tc_sessions m)) (m, [])") auto
  show ?thesis
    by (rule stop_okI)
       (use None L in \<open>auto simp: tokens_beginStop_def joins_def awaits_def dest: mget_snd\<close>)
qed (use assms in \<open>simp add: tokens_beginStop_def\<close>)

lemma stopped_noops:
  assumes "tc_stopped m"
  shows "snd (Track s conn now m) = m" "snd (Acquire s now m) = m" "snd (Fork l m) = m" "Remove s m = m" "snd (Disable t m) = m"
    "expireEnter t g m = m" "expireCheck k t g now m = expirer_gone k m"
  using assms by (auto simp: Track_def Acquire_def Fork_def Remove_def Disable_def expireEnter_def expireCheck_def Let_def)

lemma stopState_kept:
  "\<not> tc_stopped m \<Longrightarrow> conn_inv m \<Longrightarrow> token_conn_step m m' \<Longrightarrow> m' = tokens_beginStop m \<or> \<not> tc_stopped m'"
proof -
  assume n: "\<not> tc_stopped m" and inv: "conn_inv m" and step: "token_conn_step m m'"
  have B: "tc_stopState (snd (snd (beginDisableLocked t m))) = None" for t
    using inv_beginDisable [OF inv n, of t] n by (cases "beginDisableLocked t m") auto
  have S: "tc_stopState (scheduleExpiryLocked t x) = tc_stopState x" for t x
    by (auto simp: scheduleExpiryLocked_def Let_def split: option.split)
  have R: "tc_stopState (snd (snd (registerRemoveLocked s x))) = tc_stopState x" for s x
    by (auto simp: registerRemoveLocked_def Let_def split: option.split)
  from step show "m' = tokens_beginStop m \<or> \<not> tc_stopped m'"
  proof cases
    case (acquire s now)
    then show ?thesis
      using n B [of "ts_ID (sess m s)"] by (cases "beginDisableLocked (ts_ID (sess m s)) m") (auto simp: Acquire_def newLease_def Let_def)
  next
    case (disable t)
    then show ?thesis
      using n B [of t] by (cases "beginDisableLocked t m") (auto simp: Disable_def)
  next
    case (expire_check k t g now)
    then show ?thesis
      using n B [of t] by (cases "beginDisableLocked t m") (auto simp: expireCheck_def expirer_gone_def S split: option.split)
  next
    case (disable_goroutine d)
    then show ?thesis
      using n by (auto simp: completeDisable_def Let_def set_disable_def split: completion.splits list.splits if_splits)
  next
    case (remove_goroutine r)
    then show ?thesis
      using n by (auto simp: finishRemove_def Let_def split: if_splits)
  next
    case stop_goroutine
    then show ?thesis
      using n by (simp add: completeStop_def)
  qed (use n B S R in \<open>auto simp: Track_def Release_def Fork_def newLease_def Remove_def detachSessionLocked_def CompleteRemove_def
      completeTokenRemove_def expireEnter_def expirer_gone_def Let_def split: option.split\<close>)
qed

lemma stop_ok_step:
  assumes step: "token_conn_step m m'" and inv: "conn_inv m" and ok: "stop_ok m"
  shows "stop_ok m'"
proof (cases "tc_stopped m")
  case False
  then show ?thesis
    using stopState_kept [OF False inv step] stop_ok_beginStop [OF ok] by (auto simp: stop_ok_def)
next
  case True
  note fr = stop_ok_frame [OF ok]
  from step show ?thesis
  proof cases
    case stop
    then show ?thesis
      using stop_ok_beginStop [OF ok] by simp
  next
    case (disable_goroutine d)
    then show ?thesis
      using stop_ok_completeDisable [OF ok] by blast
  next
    case (remove_goroutine r)
    then show ?thesis
      using stop_ok_finishRemove [OF ok] by blast
  next
    case stop_goroutine
    then show ?thesis
      using stop_ok_completeStop [OF inv ok] by blast
  qed (use ok stopped_noops [OF True] in \<open>auto simp: Release_def CompleteRemove_def completeTokenRemove_def expirer_gone_def Let_def
      intro!: fr split: option.split\<close>)
qed

text \<open>A finished stop stays finished.\<close>

definition all_stopped :: "tokenConnections \<Rightarrow> bool" where
  "all_stopped m \<longleftrightarrow> (\<exists>st. tc_stopState m = Some st \<and> st_phase st = Finished)"

lemma all_stopped_step:
  assumes "token_conn_step m m'" and "all_stopped m"
  shows "all_stopped m'"
proof -
  have st: "tc_stopped m"
    using assms(2) by (auto simp: all_stopped_def)
  from assms(1) have "tc_stopState m' = tc_stopState m"
  proof cases
    case (disable_goroutine d)
    then show ?thesis
      by (auto simp: completeDisable_def Let_def set_disable_def split: completion.splits list.splits if_splits)
  next
    case (remove_goroutine r)
    then show ?thesis
      by (auto simp: finishRemove_def Let_def split: if_splits)
  next
    case stop_goroutine
    then show ?thesis
      using assms(2) by (auto simp: all_stopped_def completeStop_def)
  qed (use st stopped_noops [OF st] in \<open>auto simp: Release_def CompleteRemove_def completeTokenRemove_def expirer_gone_def tokens_beginStop_def
      Let_def split: option.split\<close>)
  then show ?thesis
    using assms(2) by (simp add: all_stopped_def)
qed

lemma conn_run_ok:
  assumes "token_conn_run newTokenConnections m"
  shows "conn_inv m \<and> stop_ok m"
  using assms
proof (induction rule: rtranclp_induct)
  case base
  then show ?case
    using inv_newTokenConnections by (simp add: stop_ok_def newTokenConnections_def)
next
  case (step y z)
  then show ?case
    using inv_token_conn_step stop_ok_step by blast
qed

text \<open>
  C5: a stop that has returned leaves nothing behind: no session is tracked and no removal or disabling
  is pending, no operation is in progress on any session, and none is ever admitted again, in every
  later state.
\<close>

theorem stopped_manager_is_idle:
  assumes "token_conn_run newTokenConnections m" and "tc_stopState m = Some st" and "st_phase st = Finished"
    and "token_conn_run m m'" and "s < length (tc_heap m')"
  shows "open_leases m' s = 0 \<and> mget (tc_sessions m') s = None \<and> mget (tc_removals m') s = None
    \<and> (mget (tc_disableStates m') t = Some d \<longrightarrow> ds_phase (tc_disables m' ! d) = Finished)
    \<and> \<not> fst (Track s conn now m') \<and> fst (Acquire s now m') = None"
proof -
  have "all_stopped m'"
    using assms(4) by (induction rule: rtranclp_induct) (use assms(2,3) all_stopped_step in \<open>auto simp: all_stopped_def\<close>)
  then obtain st' where st': "tc_stopState m' = Some st'" "st_phase st' = Finished"
    by (auto simp: all_stopped_def)
  have inv: "conn_inv m'" and ok: "stop_ok m'"
    using conn_run_ok [OF rtranclp_trans [OF assms(1,4)]] by simp_all
  have rem: "mget (tc_removals m') s = None"
    using stop_okD(1) [OF ok st'(1), of s] st'(2) by (cases "mget (tc_removals m') s") (auto simp: joins_def)
  have dis: "mget (tc_disableStates m') x = Some y \<Longrightarrow> ds_phase (tc_disables m' ! y) = Finished" for x y
    using stop_okD(2) [OF ok st'(1), of x y] st'(2) by (simp add: awaits_def)
  have ses: "mget (tc_sessions m') s = None"
    using maps_okD(1) [OF conn_invD(1) [OF inv], of s] st'(1) by (cases "mget (tc_sessions m') s") auto
  have "\<not> covered m' s"
    using rem ses st' dis by (auto simp: covered_def stop_draining_def split: option.splits)
  then have "open_leases m' s = 0"
    using gates_okD(2,3) [OF conn_invD(2) [OF inv] assms(5)] by auto
  then show ?thesis
    using rem ses dis st'(1) by (simp add: Track_def Acquire_def Let_def)
qed

definition demo_stopping :: "nat \<Rightarrow> tokenConnections" where
  "demo_stopping n = ((\<lambda>m. the (completeStop m)) ^^ n) (tokens_beginStop demo_c1)"

lemma demo_stop_run: "token_conn_run newTokenConnections (demo_stopping 5)"
proof -
  have "token_conn_step (demo_stopping n) (demo_stopping (Suc n))" if "n < 5" for n
  proof -
    have "list_all (\<lambda>k. completeStop (demo_stopping k) \<noteq> None) [0..<5]"
      by code_simp
    then have "completeStop (demo_stopping n) \<noteq> None"
      using that by (auto simp: list_all_iff)
    then show ?thesis
      by (intro token_conn_step.stop_goroutine) (auto simp: demo_stopping_def)
  qed
  then have "token_conn_run (demo_stopping 0) (demo_stopping n)" if "n \<le> 5" for n
    using that by (induction n) (auto intro: rtranclp.rtrancl_into_rtrancl)
  moreover have "token_conn_step demo_c1 (demo_stopping 0)"
    unfolding demo_stopping_def by (simp add: token_conn_step.stop)
  moreover have "token_conn_step newTokenConnections demo_c1"
    unfolding demo_c1_def by (rule token_conn_step.new)
  ultimately show ?thesis
    by (meson converse_rtranclp_into_rtranclp order_refl)
qed

theorem stopped_manager_is_idle_witness: "fst (Acquire 0 0 (demo_stopping 5)) = None \<and> \<not> fst (Track 0 (Some 1) 0 (demo_stopping 5))"
proof -
  have "map_option st_phase (tc_stopState (demo_stopping 5)) = Some Finished" "length (tc_heap (demo_stopping 5)) = 1"
    by code_simp+
  then show ?thesis
    using stopped_manager_is_idle [OF demo_stop_run _ _ rtranclp.rtrancl_refl, of _ 0] by auto
qed

end
