(* ===== verification/Sql_Rebind.thy ===== *)
theory Sql_Rebind
  imports Go_Strings
begin

text \<open>
  The translation of question-mark placeholders to PostgreSQL parameters, \<open>rebind\<close> in
  \<open>internal/store/db.go\<close>. The program scans the query once with four flags; it is proved equal
  to a reference that first cuts the query into quoted texts, comments, placeholders and other
  characters and then numbers the placeholders.
\<close>

section \<open>The program\<close>

record rebind_state =
  rb_out :: string
  rb_placeholder :: nat
  rb_inSingleQuote :: bool
  rb_inDoubleQuote :: bool
  rb_inLineComment :: bool
  rb_inBlockComment :: bool

definition WriteByte :: "char \<Rightarrow> rebind_state \<Rightarrow> rebind_state" where
  "WriteByte c s = s\<lparr>rb_out := rb_out s @ [c]\<rparr>"

text \<open>
  One iteration of the loop on the character \<open>ch\<close>, with \<open>next\<close> the following one (the zero
  byte at the end). The result tells whether the iteration also consumed \<open>next\<close>.
\<close>

definition rebind_iter :: "char \<Rightarrow> char \<Rightarrow> rebind_state \<Rightarrow> bool \<times> rebind_state" where
  "rebind_iter ch nxt s =
    (if rb_inLineComment s then
       (False, let s = WriteByte ch s in if ch = CHR 0x0A then s\<lparr>rb_inLineComment := False\<rparr> else s)
     else if rb_inBlockComment s then
       (let s = WriteByte ch s in
        if ch = CHR ''*'' \<and> nxt = CHR ''/'' then (True, (WriteByte nxt s)\<lparr>rb_inBlockComment := False\<rparr>) else (False, s))
     else if rb_inSingleQuote s then
       (let s = WriteByte ch s in
        if ch = CHR 0x27 then
          (if nxt = CHR 0x27 then (True, WriteByte nxt s) else (False, s\<lparr>rb_inSingleQuote := False\<rparr>))
        else (False, s))
     else if rb_inDoubleQuote s then
       (let s = WriteByte ch s in
        if ch = CHR 0x22 then
          (if nxt = CHR 0x22 then (True, WriteByte nxt s) else (False, s\<lparr>rb_inDoubleQuote := False\<rparr>))
        else (False, s))
     else if ch = CHR ''-'' \<and> nxt = CHR ''-'' then
       (True, (WriteByte nxt (WriteByte ch s))\<lparr>rb_inLineComment := True\<rparr>)
     else if ch = CHR ''/'' \<and> nxt = CHR ''*'' then
       (True, (WriteByte nxt (WriteByte ch s))\<lparr>rb_inBlockComment := True\<rparr>)
     else if ch = CHR 0x27 then (False, (WriteByte ch s)\<lparr>rb_inSingleQuote := True\<rparr>)
     else if ch = CHR 0x22 then (False, (WriteByte ch s)\<lparr>rb_inDoubleQuote := True\<rparr>)
     else if ch = CHR ''?'' then
       (False, s\<lparr>rb_out := rb_out s @ ''$'' @ Itoa (int (rb_placeholder s)), rb_placeholder := rb_placeholder s + 1\<rparr>)
     else (False, WriteByte ch s))"

text \<open>The loop on the rest of the query.\<close>

fun rebind_loop :: "string \<Rightarrow> rebind_state \<Rightarrow> rebind_state" where
  "rebind_loop [] s = s"
| "rebind_loop [ch] s = snd (rebind_iter ch (CHR 0x00) s)"
| "rebind_loop (ch # nxt # rest) s =
    (case rebind_iter ch nxt s of
       (True, s') \<Rightarrow> rebind_loop rest s'
     | (False, s') \<Rightarrow> rebind_loop (nxt # rest) s')"

definition rebind :: "string \<Rightarrow> string" where
  "rebind query =
    rb_out (rebind_loop query
      \<lparr>rb_out = [], rb_placeholder = 1, rb_inSingleQuote = False, rb_inDoubleQuote = False,
       rb_inLineComment = False, rb_inBlockComment = False\<rparr>)"

section \<open>The reference\<close>

text \<open>
  The tokens: a placeholder, or a stretch of text that is copied. The three scanners split off the
  rest of a quoted text, of a line comment and of a block comment.
\<close>

datatype sql_token = Placeholder | Copied string

fun token_text :: "sql_token \<Rightarrow> string" where
  "token_text Placeholder = ''?''"
| "token_text (Copied s) = s"

fun scan_quoted :: "char \<Rightarrow> string \<Rightarrow> string \<times> string" where
  "scan_quoted q [] = ([], [])"
| "scan_quoted q [c] = ([c], [])"
| "scan_quoted q (c # d # s) =
    (if c = q then
       (if d = q then (case scan_quoted q s of (a, b) \<Rightarrow> (c # d # a, b)) else ([c], d # s))
     else (case scan_quoted q (d # s) of (a, b) \<Rightarrow> (c # a, b)))"

fun scan_line :: "string \<Rightarrow> string \<times> string" where
  "scan_line [] = ([], [])"
| "scan_line (c # s) = (if c = CHR 0x0A then ([c], s) else (case scan_line s of (a, b) \<Rightarrow> (c # a, b)))"

fun scan_block :: "string \<Rightarrow> string \<times> string" where
  "scan_block [] = ([], [])"
| "scan_block [c] = ([c], [])"
| "scan_block (c # d # s) =
    (if c = CHR ''*'' \<and> d = CHR ''/'' then ([c, d], s)
     else (case scan_block (d # s) of (a, b) \<Rightarrow> (c # a, b)))"

lemma scan_quoted_split: "scan_quoted q s = (a, b) \<Longrightarrow> s = a @ b"
  by (induction q s arbitrary: a b rule: scan_quoted.induct) (auto split: if_splits prod.splits)

lemma scan_line_split: "scan_line s = (a, b) \<Longrightarrow> s = a @ b"
  by (induction s arbitrary: a b rule: scan_line.induct) (auto split: if_splits prod.splits)

lemma scan_block_split: "scan_block s = (a, b) \<Longrightarrow> s = a @ b"
  by (induction s arbitrary: a b rule: scan_block.induct) (auto split: if_splits prod.splits)

lemma scan_shorter:
  "length (snd (scan_quoted q s)) \<le> length s"
  "length (snd (scan_line s)) \<le> length s"
  "length (snd (scan_block s)) \<le> length s"
  using scan_quoted_split [of q s] scan_line_split [of s] scan_block_split [of s]
  by (metis length_append le_add2 prod.collapse)+

function sql_lex :: "string \<Rightarrow> sql_token list" where
  "sql_lex s =
    (case s of
       [] \<Rightarrow> []
     | c # t \<Rightarrow>
         if prefix ''--'' s then
           Copied (''--'' @ fst (scan_line (drop 2 s))) # sql_lex (snd (scan_line (drop 2 s)))
         else if prefix ''/*'' s then
           Copied (''/*'' @ fst (scan_block (drop 2 s))) # sql_lex (snd (scan_block (drop 2 s)))
         else if c = CHR 0x27 \<or> c = CHR 0x22 then
           Copied (c # fst (scan_quoted c t)) # sql_lex (snd (scan_quoted c t))
         else if c = CHR ''?'' then Placeholder # sql_lex t
         else Copied [c] # sql_lex t)"
  by auto
termination
proof (relation "measure length", goal_cases)
  case (2 s c t)
  then show ?case
    using scan_shorter(2) [of "drop 2 s"] by (auto simp: prefix_def)
next
  case (3 s c t)
  then show ?case
    using scan_shorter(3) [of "drop 2 s"] by (auto simp: prefix_def)
next
  case (4 s c t)
  then show ?case
    using scan_shorter(1) [of c t] by auto
qed auto

declare sql_lex.simps [simp del]

fun render :: "nat \<Rightarrow> sql_token list \<Rightarrow> string" where
  "render n [] = []"
| "render n (Placeholder # ts) = ''$'' @ Itoa (int n) @ render (Suc n) ts"
| "render n (Copied s # ts) = s @ render n ts"

section \<open>Correctness\<close>

text \<open>The five states the four flags can be in.\<close>

definition plain :: "string \<Rightarrow> nat \<Rightarrow> rebind_state" where
  "plain out n = \<lparr>rb_out = out, rb_placeholder = n, rb_inSingleQuote = False, rb_inDoubleQuote = False,
     rb_inLineComment = False, rb_inBlockComment = False\<rparr>"

definition quoted :: "char \<Rightarrow> string \<Rightarrow> nat \<Rightarrow> rebind_state" where
  "quoted q out n = (plain out n)\<lparr>rb_inSingleQuote := q = CHR 0x27, rb_inDoubleQuote := q = CHR 0x22\<rparr>"

definition line_comment :: "string \<Rightarrow> nat \<Rightarrow> rebind_state" where
  "line_comment out n = (plain out n)\<lparr>rb_inLineComment := True\<rparr>"

definition block_comment :: "string \<Rightarrow> nat \<Rightarrow> rebind_state" where
  "block_comment out n = (plain out n)\<lparr>rb_inBlockComment := True\<rparr>"

lemmas rebind_modes = plain_def quoted_def line_comment_def block_comment_def

lemma rb_out_modes [simp]:
  "rb_out (plain w n) = w" "rb_out (quoted q w n) = w"
  "rb_out (line_comment w n) = w" "rb_out (block_comment w n) = w"
  by (simp_all add: rebind_modes)

lemma iter_quoted:
  assumes "q = CHR 0x27 \<or> q = CHR 0x22"
  shows "rebind_iter c d (quoted q w n) =
    (if c = q then (if d = q then (True, quoted q (w @ [c, d]) n) else (False, plain (w @ [c]) n))
     else (False, quoted q (w @ [c]) n))"
  using assms by (auto simp: rebind_iter_def rebind_modes WriteByte_def Let_def)

lemma iter_line:
  "rebind_iter c d (line_comment w n) =
    (False, if c = CHR 0x0A then plain (w @ [c]) n else line_comment (w @ [c]) n)"
  by (simp add: rebind_iter_def rebind_modes WriteByte_def Let_def)

lemma iter_block:
  "rebind_iter c d (block_comment w n) =
    (if c = CHR ''*'' \<and> d = CHR ''/'' then (True, plain (w @ [c, d]) n) else (False, block_comment (w @ [c]) n))"
  by (simp add: rebind_iter_def rebind_modes WriteByte_def Let_def)

lemma iter_plain:
  "rebind_iter c d (plain w n) =
    (if c = CHR ''-'' \<and> d = CHR ''-'' then (True, line_comment (w @ [c, d]) n)
     else if c = CHR ''/'' \<and> d = CHR ''*'' then (True, block_comment (w @ [c, d]) n)
     else if c = CHR 0x27 \<or> c = CHR 0x22 then (False, quoted c (w @ [c]) n)
     else if c = CHR ''?'' then (False, plain (w @ ''$'' @ Itoa (int n)) (Suc n))
     else (False, plain (w @ [c]) n))"
  by (simp add: rebind_iter_def rebind_modes WriteByte_def Let_def)

lemma loop_quoted:
  "q = CHR 0x27 \<or> q = CHR 0x22 \<Longrightarrow>
    rb_out (rebind_loop s (quoted q w n)) = rb_out (rebind_loop (snd (scan_quoted q s)) (plain (w @ fst (scan_quoted q s)) n))"
proof (induction q s arbitrary: w rule: scan_quoted.induct)
  case (2 q c)
  then show ?case
    by (auto simp: iter_quoted)
next
  case (3 q c d s)
  then show ?case
    by (simp add: iter_quoted split: prod.splits)
qed simp

lemma rebind_loop_Cons:
  "rebind_loop (c # s) st =
    (case rebind_iter c (case s of [] \<Rightarrow> CHR 0x00 | d # _ \<Rightarrow> d) st of
       (True, st') \<Rightarrow> rebind_loop (tl s) st' | (False, st') \<Rightarrow> rebind_loop s st')"
  by (cases s) (auto split: prod.splits bool.splits)

lemma loop_line:
  "rb_out (rebind_loop s (line_comment w n)) = rb_out (rebind_loop (snd (scan_line s)) (plain (w @ fst (scan_line s)) n))"
  by (induction s arbitrary: w rule: scan_line.induct) (auto simp: rebind_loop_Cons iter_line split: prod.splits)

lemma loop_block:
  "rb_out (rebind_loop s (block_comment w n)) = rb_out (rebind_loop (snd (scan_block s)) (plain (w @ fst (scan_block s)) n))"
proof (induction s arbitrary: w rule: scan_block.induct)
  case (3 c d s)
  then show ?case
    by (simp add: iter_block split: prod.splits)
qed (simp_all add: iter_block)

lemma loop_plain: "rb_out (rebind_loop s (plain w n)) = w @ render n (sql_lex s)"
proof (induction s arbitrary: w n rule: sql_lex.induct)
  case (1 s)
  show ?case
  proof (cases s)
    case Nil
    then show ?thesis
      by (simp add: sql_lex.simps)
  next
    case s: (Cons c t)
    consider (line) "prefix ''--'' s" | (block) "\<not> prefix ''--'' s" "prefix ''/*'' s"
      | (quote) "\<not> prefix ''--'' s" "\<not> prefix ''/*'' s" "c = CHR 0x27 \<or> c = CHR 0x22"
      | (mark) "\<not> prefix ''--'' s" "\<not> prefix ''/*'' s" "c = CHR ''?''"
      | (other) "\<not> prefix ''--'' s" "\<not> prefix ''/*'' s" "c \<noteq> CHR 0x27" "c \<noteq> CHR 0x22" "c \<noteq> CHR ''?''"
      by blast
    then show ?thesis
    proof cases
      case line
      then obtain u where u: "s = ''--'' @ u"
        by (auto simp: prefix_def)
      show ?thesis
        using "1.IH"(1) [OF s line] line by (simp add: u iter_plain loop_line sql_lex.simps [of "CHR ''-'' # CHR ''-'' # u"])
    next
      case block
      then obtain u where u: "s = ''/*'' @ u"
        by (auto simp: prefix_def)
      show ?thesis
        using "1.IH"(2) [OF s block] block by (simp add: u iter_plain loop_block sql_lex.simps [of "CHR ''/'' # CHR ''*'' # u"])
    next
      case quote
      then have lex: "sql_lex s = Copied (c # fst (scan_quoted c t)) # sql_lex (snd (scan_quoted c t))"
        by (subst sql_lex.simps) (auto simp: s)
      have "rebind_loop s (plain w n) = rebind_loop t (quoted c (w @ [c]) n)"
        unfolding s using quote(3) by (auto simp: rebind_loop_Cons iter_plain)
      then show ?thesis
        using "1.IH"(3) [OF s quote] quote(3) by (simp add: lex loop_quoted)
    next
      case mark
      then have lex: "sql_lex s = Placeholder # sql_lex t"
        by (subst sql_lex.simps) (auto simp: s)
      have "rebind_loop s (plain w n) = rebind_loop t (plain (w @ ''$'' @ Itoa (int n)) (Suc n))"
        unfolding s using mark(3) by (simp add: rebind_loop_Cons iter_plain)
      then show ?thesis
        using "1.IH"(4) [OF s mark(1,2)] mark(3) by (simp add: lex)
    next
      case other
      then have lex: "sql_lex s = Copied [c] # sql_lex t"
        by (subst sql_lex.simps) (auto simp: s)
      have no: "\<not> (c = CHR ''-'' \<and> (case t of [] \<Rightarrow> CHR 0x00 | d # _ \<Rightarrow> d) = CHR ''-'')"
        "\<not> (c = CHR ''/'' \<and> (case t of [] \<Rightarrow> CHR 0x00 | d # _ \<Rightarrow> d) = CHR ''*'')"
        using other(1,2) s by (auto split: list.splits)
      have "rebind_loop s (plain w n) = rebind_loop t (plain (w @ [c]) n)"
        unfolding s rebind_loop_Cons iter_plain using no other(3-5) by auto
      then show ?thesis
        using "1.IH"(5) [OF s other(1,2)] other(3-5) by (simp add: lex)
    qed
  qed
qed

lemma sql_lex_text: "concat (map token_text (sql_lex s)) = s"
proof (induction s rule: sql_lex.induct)
  case (1 s)
  show ?case
  proof (cases s)
    case s: (Cons c t)
    show ?thesis
      using 1 [OF s] s scan_quoted_split [of c t, OF surjective_pairing]
        scan_line_split [of "drop 2 s", OF surjective_pairing] scan_block_split [of "drop 2 s", OF surjective_pairing]
      by (subst sql_lex.simps) (auto simp: prefix_def)
  qed (simp add: sql_lex.simps)
qed

text \<open>
  C40: \<open>rebind\<close> is the reference translation: the query is cut into comments, quoted texts,
  placeholders and other characters, whose texts concatenate to the query; the question marks
  outside comments and quotes become \<open>$1\<close>, \<open>$2\<close> and so on from left to right, and
  everything else is copied.
\<close>

theorem rebind_reference:
  "rebind query = render 1 (sql_lex query) \<and> concat (map token_text (sql_lex query)) = query"
  using loop_plain [of query "[]" 1] by (simp add: rebind_def plain_def sql_lex_text)

end
