(* ===== verification/Store_Tables.thy ===== *)
theory Store_Tables
  imports Instance_Registry
begin

text \<open>
  The tables of the SQL store that hold workloads and their configurations, with the constraints the
  migrations declare, and the data types of \<open>pkg/models\<close> that are stored in them. A table is the
  list of its rows in insertion order. A statement is atomic; columns that hold JSON hold the decoded
  value. The operations on the tables are in the theories \<open>Workload_Store\<close>,
  \<open>Canary_Store\<close> and \<open>Config_History\<close>.
\<close>

section \<open>Statements on rows\<close>

text \<open>\<open>SELECT \<dots> WHERE key = ?\<close>, an upsert, \<open>DELETE\<close> and \<open>UPDATE\<close>.\<close>

definition row_get :: "('r \<Rightarrow> 'k) \<Rightarrow> 'k \<Rightarrow> 'r list \<Rightarrow> 'r option" where
  "row_get key k rows = find (\<lambda>r. key r = k) rows"

definition row_put :: "('r \<Rightarrow> 'k) \<Rightarrow> 'r \<Rightarrow> 'r list \<Rightarrow> 'r list" where
  "row_put key r rows =
    (if key r \<in> key ` set rows then map (\<lambda>x. if key x = key r then r else x) rows else rows @ [r])"

definition row_del :: "('r \<Rightarrow> bool) \<Rightarrow> 'r list \<Rightarrow> 'r list" where
  "row_del P rows = filter (\<lambda>r. \<not> P r) rows"

definition row_mod :: "('r \<Rightarrow> bool) \<Rightarrow> ('r \<Rightarrow> 'r) \<Rightarrow> 'r list \<Rightarrow> 'r list" where
  "row_mod P f rows = map (\<lambda>r. if P r then f r else r) rows"

definition row_count :: "('r \<Rightarrow> bool) \<Rightarrow> 'r list \<Rightarrow> nat" where
  "row_count P rows = length (filter P rows)"

definition keyed :: "('r \<Rightarrow> 'k) \<Rightarrow> 'r list \<Rightarrow> bool" where
  "keyed key rows \<longleftrightarrow> distinct (map key rows)"

text \<open>
  \<open>ORDER BY t DESC LIMIT 1\<close>. Among rows with the same time the order is not specified; the
  model takes the first one.
\<close>

fun newest :: "('r \<Rightarrow> gotime) \<Rightarrow> 'r list \<Rightarrow> 'r option" where
  "newest t [] = None"
| "newest t (r # rs) = (case newest t rs of None \<Rightarrow> Some r | Some x \<Rightarrow> if t x > t r then Some x else Some r)"

datatype db_error = NoRows | ConstraintViolated | DbMessage string

section \<open>Laws of the statements\<close>

lemma row_get_None: "row_get key k rows = None \<longleftrightarrow> k \<notin> key ` set rows"
  by (auto simp: row_get_def find_None_iff)

lemma row_get_Some: "row_get key k rows = Some r \<Longrightarrow> r \<in> set rows \<and> key r = k"
  by (metis (mono_tags, lifting) find_Some_iff nth_mem row_get_def)

lemma row_get_mem: "keyed key rows \<Longrightarrow> row_get key k rows = Some r \<longleftrightarrow> r \<in> set rows \<and> key r = k"
proof
  assume *: "keyed key rows" "r \<in> set rows \<and> key r = k"
  then obtain r' where "row_get key k rows = Some r'"
    by (metis image_eqI not_None_eq row_get_None)
  with * show "row_get key k rows = Some r"
    using row_get_Some [of key k rows r'] by (auto simp: keyed_def distinct_map dest: inj_onD)
qed (rule row_get_Some)

lemma find_snoc: "find P (xs @ [x]) = (case find P xs of None \<Rightarrow> if P x then Some x else None | Some y \<Rightarrow> Some y)"
  by (induction xs) auto

lemma row_get_put: "row_get key k (row_put key r rows) = (if k = key r then Some r else row_get key k rows)"
proof (cases "key r \<in> key ` set rows")
  case True
  have "find (\<lambda>x. key x = k) (map (\<lambda>x. if key x = key r then r else x) rows) =
      (if k = key r then (if key r \<in> key ` set rows then Some r else None) else find (\<lambda>x. key x = k) rows)"
    by (induction rows) auto
  with True show ?thesis
    by (simp add: row_get_def row_put_def)
next
  case False
  then have "find (\<lambda>x. key x = key r) rows = None"
    by (metis (mono_tags, lifting) find_None_iff image_eqI)
  with False show ?thesis
    by (auto simp: row_get_def row_put_def find_snoc split: option.splits)
qed

lemma keys_row_put: "key ` set (row_put key r rows) = insert (key r) (key ` set rows)"
  by (auto simp: row_put_def image_iff)

lemma set_row_put: "keyed key rows \<Longrightarrow> set (row_put key r rows) = insert r {x \<in> set rows. key x \<noteq> key r}"
  by (auto simp: row_put_def) (metis image_eqI)

lemma keyed_row_put: "keyed key rows \<Longrightarrow> keyed key (row_put key r rows)"
proof -
  have "map key (map (\<lambda>x. if key x = key r then r else x) rows) = map key rows"
    by simp
  then show "keyed key rows \<Longrightarrow> keyed key (row_put key r rows)"
    by (auto simp del: map_map simp: keyed_def row_put_def)
qed

lemma keyed_snoc: "keyed key (rows @ [r]) \<longleftrightarrow> keyed key rows \<and> key r \<notin> key ` set rows"
  by (auto simp: keyed_def)

lemma keyed_row_del [intro]: "keyed key rows \<Longrightarrow> keyed key (row_del P rows)"
  by (simp add: keyed_def row_del_def distinct_map_filter)

lemma set_row_del [simp]: "set (row_del P rows) = {r \<in> set rows. \<not> P r}"
  by (simp add: row_del_def)

lemma keys_row_mod: "(\<And>r. r \<in> set rows \<Longrightarrow> P r \<Longrightarrow> key (f r) = key r) \<Longrightarrow> map key (row_mod P f rows) = map key rows"
  by (simp add: row_mod_def)

lemma keyed_row_mod: "keyed key rows \<Longrightarrow> (\<And>r. r \<in> set rows \<Longrightarrow> P r \<Longrightarrow> key (f r) = key r) \<Longrightarrow> keyed key (row_mod P f rows)"
  by (simp add: keyed_def keys_row_mod)

lemma set_row_mod: "set (row_mod P f rows) = (\<lambda>r. if P r then f r else r) ` set rows"
  by (simp add: row_mod_def)

lemma row_get_mod:
  "(\<And>r. key (f r) = key r) \<Longrightarrow>
    row_get key k (row_mod P f rows) = map_option (\<lambda>r. if P r then f r else r) (row_get key k rows)"
  by (induction rows) (auto simp: row_get_def row_mod_def)

lemma newest_None: "newest t rs = None \<longleftrightarrow> rs = []"
  by (cases rs) (auto split: option.splits)

lemma newest_Some: "newest t rs = Some r \<Longrightarrow> r \<in> set rs \<and> (\<forall>x \<in> set rs. t x \<le> t r)"
  by (induction rs arbitrary: r) (fastforce simp: newest_None split: option.splits if_splits)+

lemma newest_ex: "rs \<noteq> [] \<Longrightarrow> \<exists>r. newest t rs = Some r"
  by (metis newest_None not_None_eq)

section \<open>Rows\<close>

record AvailableComponents =
  ac_Components :: "(string, string list) gomap"
  ac_Hash :: string

record Workload =
  wl_ID :: string
  wl_FingerprintSource :: string
  wl_FingerprintKeys :: "(string, string) gomap"
  wl_DisplayName :: string
  wl_Type :: string
  wl_Version :: string
  wl_Status :: string
  wl_LastSeenAt :: gotime
  wl_Labels :: "(string, string) gomap"
  wl_ActiveConfigID :: "string option"
  wl_ActiveConfigHash :: string
  wl_RemoteConfigStatus :: "RemoteConfigStatus option"
  wl_CurrentConfigPush :: "WorkloadConfig option"
  wl_AvailableComponents :: "AvailableComponents option"
  wl_AcceptsRemoteConfig :: bool
  wl_RetentionUntil :: "gotime option"
  wl_ArchivedAt :: "gotime option"

record WorkloadEvent =
  ev_ID :: nat
  ev_WorkloadID :: string
  ev_InstanceUID :: string
  ev_PodName :: string
  ev_EventType :: string
  ev_Version :: string
  ev_PrevVersion :: string
  ev_OccurredAt :: gotime

record ConfigVariable =
  cv_Name :: string
  cv_Label :: string
  cv_Type :: string
  cv_Required :: bool
  cv_Description :: string
  cv_Placeholder :: string

record Config =
  cf_ID :: string
  cf_Name :: string
  cf_Content :: string
  cf_CreatedAt :: gotime
  cf_CreatedBy :: string
  cf_Kind :: string
  cf_Status :: string
  cf_Category :: string
  cf_Stack :: string
  cf_Description :: string
  cf_Variables :: "ConfigVariable list"
  cf_Tags :: "string list"
  cf_BuiltIn :: bool
  cf_SourceType :: string
  cf_GitURL :: string
  cf_GitProvider :: string
  cf_GitRef :: string
  cf_GitPath :: string
  cf_CommitSHA :: string
  cf_ImportedAt :: "gotime option"

text \<open>A row of \<open>workload_attributes\<close>.\<close>

record attribute_row =
  at_workload_id :: string
  at_source :: string
  at_key :: string
  at_value :: string

text \<open>A row of \<open>workload_configs\<close>; a column that may be NULL is an option.\<close>

record history_row =
  hr_workload_id :: string
  hr_config_id :: string
  hr_applied_at :: gotime
  hr_status :: string
  hr_error_message :: "string option"
  hr_pushed_by :: "string option"
  hr_label :: "string option"
  hr_push_id :: string
  hr_submitted_at :: "gotime option"
  hr_sent_at :: "gotime option"
  hr_timeout_at :: "gotime option"
  hr_rollback_of :: string
  hr_instances :: "WorkloadConfigInstanceStatus list"

text \<open>A row of \<open>workload_known_good_configs\<close>.\<close>

record known_good_row =
  kg_workload_id :: string
  kg_config_id :: string
  kg_marked_at :: gotime
  kg_marked_by :: "string option"
  kg_source_applied_at :: "gotime option"
  kg_replaced_config_id :: "string option"
  kg_replace_reason :: "string option"

record CanarySelection =
  sl_Strategy :: string
  sl_InstanceUID :: string
  sl_InstanceUIDs :: "string list"
  sl_Count :: int
  sl_Percentage :: int
  sl_Labels :: "(string, string) gomap"

record CanaryTarget =
  ct_InstanceUID :: string
  ct_PodName :: string
  ct_Status :: string
  ct_StopReason :: string
  ct_UpdatedAt :: gotime

record CanaryCounts =
  cc_Pending :: nat
  cc_Applying :: nat
  cc_Applied :: nat
  cc_Failed :: nat

record CanaryStatus =
  cs_ID :: string
  cs_WorkloadID :: string
  cs_ConfigHash :: string
  cs_Status :: string
  cs_Selection :: CanarySelection
  cs_Targets :: "CanaryTarget list"
  cs_Counts :: CanaryCounts
  cs_StopReasons :: "string list"
  cs_Actor :: string
  cs_CreatedAt :: gotime
  cs_UpdatedAt :: gotime
  cs_PromotedAt :: "gotime option"
  cs_AbortedAt :: "gotime option"
  cs_RolledBackAt :: "gotime option"

record Alert =
  al_ID :: string
  al_WorkloadID :: string
  al_Rule :: string
  al_Severity :: string
  al_Message :: string
  al_FiredAt :: gotime
  al_ResolvedAt :: "gotime option"

record ConfigApprovalRequest =
  ca_ID :: string
  ca_WorkloadID :: string
  ca_DraftYAML :: string
  ca_TargetGroup :: string
  ca_TargetEnv :: string
  ca_Requester :: string
  ca_RequestComment :: string
  ca_Approver :: string
  ca_ApprovalComment :: string
  ca_Status :: string
  ca_ApprovedBy :: "string option"
  ca_ApprovedAt :: "gotime option"
  ca_PushComment :: "string option"
  ca_ProdTarget :: bool
  ca_ProdConfirmation :: bool
  ca_ProdDoubleConfirmed :: bool
  ca_BreakGlass :: bool
  ca_BreakGlassReason :: "string option"
  ca_ConfigHash :: "string option"
  ca_CreatedAt :: gotime
  ca_UpdatedAt :: gotime
  ca_PushedAt :: "gotime option"

record store_db =
  sd_configs :: "Config list"
  sd_workloads :: "Workload list"
  sd_attributes :: "attribute_row list"
  sd_events :: "WorkloadEvent list"
  sd_next_event :: nat
  sd_history :: "history_row list"
  sd_known_good :: "known_good_row list"
  sd_canaries :: "CanaryStatus list"
  sd_approvals :: "ConfigApprovalRequest list"
  sd_alerts :: "Alert list"

definition empty_store :: store_db where
  "empty_store = \<lparr>sd_configs = [], sd_workloads = [], sd_attributes = [], sd_events = [], sd_next_event = 1,
     sd_history = [], sd_known_good = [], sd_canaries = [], sd_approvals = [], sd_alerts = []\<rparr>"

section \<open>Constraints\<close>

abbreviation has_config :: "store_db \<Rightarrow> string \<Rightarrow> bool" where
  "has_config d c \<equiv> c \<in> cf_ID ` set (sd_configs d)"

abbreviation has_workload :: "store_db \<Rightarrow> string \<Rightarrow> bool" where
  "has_workload d w \<equiv> w \<in> wl_ID ` set (sd_workloads d)"

text \<open>The CHECKs and the foreign key of \<open>workloads\<close>.\<close>

definition workload_checks :: "store_db \<Rightarrow> Workload \<Rightarrow> bool" where
  "workload_checks d w \<longleftrightarrow>
    wl_FingerprintSource w \<in> {''k8s'', ''host'', ''uid''} \<and> wl_Type w \<in> {''collector'', ''sdk''}
    \<and> wl_Status w \<in> {''connected'', ''disconnected'', ''degraded''}
    \<and> (case wl_ActiveConfigID w of None \<Rightarrow> True | Some c \<Rightarrow> has_config d c)"

text \<open>Those of \<open>workload_events\<close> and of \<open>workload_configs\<close>.\<close>

definition event_row_checks :: "store_db \<Rightarrow> WorkloadEvent \<Rightarrow> bool" where
  "event_row_checks d e \<longleftrightarrow>
    has_workload d (ev_WorkloadID e) \<and> ev_EventType e \<in> {''connected'', ''disconnected'', ''version_changed''}"

definition history_statuses :: "string list" where
  "history_statuses = [''pending'', ''submitted'', ''sent'', ''applying'', ''applied'', ''failed'',
     ''rollback_started'', ''rollback_applied'', ''rollback_failed'']"

definition history_key :: "history_row \<Rightarrow> string \<times> string \<times> gotime" where
  "history_key r = (hr_workload_id r, hr_config_id r, hr_applied_at r)"

definition history_checks :: "store_db \<Rightarrow> history_row \<Rightarrow> bool" where
  "history_checks d r \<longleftrightarrow>
    has_workload d (hr_workload_id r) \<and> has_config d (hr_config_id r) \<and> hr_status r \<in> set history_statuses"

lemma workload_checks_frame [simp]:
  "workload_checks (d\<lparr>sd_workloads := x1\<rparr>) = workload_checks d"
  "workload_checks (d\<lparr>sd_attributes := x2\<rparr>) = workload_checks d"
  "workload_checks (d\<lparr>sd_events := x3\<rparr>) = workload_checks d"
  "workload_checks (d\<lparr>sd_next_event := x4\<rparr>) = workload_checks d"
  "workload_checks (d\<lparr>sd_history := x5\<rparr>) = workload_checks d"
  "workload_checks (d\<lparr>sd_known_good := x6\<rparr>) = workload_checks d"
  "workload_checks (d\<lparr>sd_canaries := x7\<rparr>) = workload_checks d"
  "workload_checks (d\<lparr>sd_approvals := x8\<rparr>) = workload_checks d"
  "workload_checks (d\<lparr>sd_alerts := x9\<rparr>) = workload_checks d"
  by (simp_all add: workload_checks_def fun_eq_iff cong: option.case_cong)

lemma event_row_checks_frame [simp]:
  "event_row_checks (d\<lparr>sd_configs := x10\<rparr>) = event_row_checks d"
  "event_row_checks (d\<lparr>sd_attributes := x11\<rparr>) = event_row_checks d"
  "event_row_checks (d\<lparr>sd_events := x12\<rparr>) = event_row_checks d"
  "event_row_checks (d\<lparr>sd_next_event := x13\<rparr>) = event_row_checks d"
  "event_row_checks (d\<lparr>sd_history := x14\<rparr>) = event_row_checks d"
  "event_row_checks (d\<lparr>sd_known_good := x15\<rparr>) = event_row_checks d"
  "event_row_checks (d\<lparr>sd_canaries := x16\<rparr>) = event_row_checks d"
  "event_row_checks (d\<lparr>sd_approvals := x17\<rparr>) = event_row_checks d"
  "event_row_checks (d\<lparr>sd_alerts := x18\<rparr>) = event_row_checks d"
  by (simp_all add: event_row_checks_def fun_eq_iff)

lemma history_checks_frame [simp]:
  "history_checks (d\<lparr>sd_attributes := x19\<rparr>) = history_checks d"
  "history_checks (d\<lparr>sd_events := x20\<rparr>) = history_checks d"
  "history_checks (d\<lparr>sd_next_event := x21\<rparr>) = history_checks d"
  "history_checks (d\<lparr>sd_history := x22\<rparr>) = history_checks d"
  "history_checks (d\<lparr>sd_known_good := x23\<rparr>) = history_checks d"
  "history_checks (d\<lparr>sd_canaries := x24\<rparr>) = history_checks d"
  "history_checks (d\<lparr>sd_approvals := x25\<rparr>) = history_checks d"
  "history_checks (d\<lparr>sd_alerts := x26\<rparr>) = history_checks d"
  by (simp_all add: history_checks_def fun_eq_iff)

section \<open>The integrity of the database\<close>

text \<open>
  What the primary keys, foreign keys and CHECKs guarantee of every reachable database, together
  with the projection of the JSON maps of a workload into \<open>workload_attributes\<close>.
\<close>

definition attribute_rows :: "string \<Rightarrow> string \<Rightarrow> (string, string) gomap \<Rightarrow> attribute_row list" where
  "attribute_rows w source m =
    map (\<lambda>k. \<lparr>at_workload_id = w, at_source = source, at_key = k, at_value = mstr m k\<rparr>)
      (sort (filter (\<lambda>k. k \<noteq> []) (mkeys m)))"

definition workload_projection :: "Workload \<Rightarrow> attribute_row list" where
  "workload_projection w =
    attribute_rows (wl_ID w) ''fingerprint'' (wl_FingerprintKeys w) @ attribute_rows (wl_ID w) ''label'' (wl_Labels w)"

definition keys_ok :: "store_db \<Rightarrow> bool" where
  "keys_ok d \<longleftrightarrow>
    keyed cf_ID (sd_configs d) \<and> keyed wl_ID (sd_workloads d) \<and> keyed ev_ID (sd_events d)
    \<and> keyed history_key (sd_history d) \<and> keyed kg_workload_id (sd_known_good d) \<and> keyed cs_ID (sd_canaries d)
    \<and> keyed ca_ID (sd_approvals d) \<and> keyed al_ID (sd_alerts d)"

definition workloads_ok :: "store_db \<Rightarrow> bool" where
  "workloads_ok d \<longleftrightarrow> (\<forall>w \<in> set (sd_workloads d). workload_checks d w \<and> mwf (wl_FingerprintKeys w) \<and> mwf (wl_Labels w))"

definition refs_ok :: "store_db \<Rightarrow> bool" where
  "refs_ok d \<longleftrightarrow>
    (\<forall>e \<in> set (sd_events d). event_row_checks d e \<and> ev_ID e < sd_next_event d)
    \<and> (\<forall>r \<in> set (sd_history d). history_checks d r)
    \<and> (\<forall>k \<in> set (sd_known_good d). has_workload d (kg_workload_id k) \<and> has_config d (kg_config_id k))
    \<and> (\<forall>c \<in> set (sd_canaries d). has_workload d (cs_WorkloadID c) \<and> has_config d (cs_ConfigHash c))
    \<and> (\<forall>a \<in> set (sd_approvals d). has_workload d (ca_WorkloadID a))
    \<and> (\<forall>a \<in> set (sd_alerts d). has_workload d (al_WorkloadID a))"

definition attributes_ok :: "store_db \<Rightarrow> bool" where
  "attributes_ok d \<longleftrightarrow> mset (sd_attributes d) = mset (concat (map workload_projection (sd_workloads d)))"

definition store_inv :: "store_db \<Rightarrow> bool" where
  "store_inv d \<longleftrightarrow> keys_ok d \<and> workloads_ok d \<and> refs_ok d \<and> attributes_ok d"

lemma store_inv_empty: "store_inv empty_store"
  by (simp add: store_inv_def keys_ok_def workloads_ok_def refs_ok_def attributes_ok_def empty_store_def keyed_def)

text \<open>What a statement on another table leaves intact.\<close>

lemma workloads_ok_cong:
  "sd_workloads d' = sd_workloads d \<Longrightarrow> cf_ID ` set (sd_configs d) \<subseteq> cf_ID ` set (sd_configs d') \<Longrightarrow>
    workloads_ok d \<Longrightarrow> workloads_ok d'"
  by (auto simp: workloads_ok_def workload_checks_def split: option.splits)

lemma attributes_ok_cong:
  "sd_workloads d' = sd_workloads d \<Longrightarrow> sd_attributes d' = sd_attributes d \<Longrightarrow> attributes_ok d \<Longrightarrow> attributes_ok d'"
  by (simp add: attributes_ok_def)

lemma refs_ok_mono:
  assumes "refs_ok d" and "wl_ID ` set (sd_workloads d) \<subseteq> wl_ID ` set (sd_workloads d')"
    and "cf_ID ` set (sd_configs d) \<subseteq> cf_ID ` set (sd_configs d')"
    and "sd_events d' = sd_events d" and "sd_next_event d' = sd_next_event d" and "sd_history d' = sd_history d"
    and "sd_known_good d' = sd_known_good d" and "sd_canaries d' = sd_canaries d"
    and "sd_approvals d' = sd_approvals d" and "sd_alerts d' = sd_alerts d"
  shows "refs_ok d'"
  using assms by (simp add: refs_ok_def event_row_checks_def history_checks_def subset_iff)

lemma projection_ids: "a \<in> set (workload_projection w) \<Longrightarrow> at_workload_id a = wl_ID w"
  by (auto simp: workload_projection_def attribute_rows_def)

lemma filter_projection:
  "filter (\<lambda>a. at_workload_id a \<noteq> i) (concat (map workload_projection ws)) =
    concat (map workload_projection (filter (\<lambda>w. wl_ID w \<noteq> i) ws))"
proof (induction ws)
  case (Cons w ws)
  have "filter (\<lambda>a. at_workload_id a \<noteq> i) (workload_projection w) = (if wl_ID w \<noteq> i then workload_projection w else [])"
    using projection_ids [of _ w] by (auto simp: filter_empty_conv filter_id_conv)
  with Cons show ?case
    by simp
qed simp

lemma attributes_filter:
  assumes "attributes_ok d"
  shows "mset (filter (\<lambda>a. at_workload_id a \<noteq> i) (sd_attributes d)) =
    mset (concat (map workload_projection (filter (\<lambda>w. wl_ID w \<noteq> i) (sd_workloads d))))"
  using arg_cong [OF assms [unfolded attributes_ok_def], of "filter_mset (\<lambda>a. at_workload_id a \<noteq> i)"]
  by (simp only: mset_filter [symmetric] filter_projection)

lemma mset_concat_map_cong: "mset xs = mset ys \<Longrightarrow> mset (concat (map f xs)) = mset (concat (map f ys))"
proof -
  assume *: "mset xs = mset ys"
  have "mset (concat (map f zs)) = (\<Sum>z \<in># mset zs. mset (f z))" for zs
    by (induction zs) auto
  with * show ?thesis
    by simp
qed

lemma mset_row_put:
  "keyed key rows \<Longrightarrow> mset (row_put key r rows) = add_mset r (mset (filter (\<lambda>x. key x \<noteq> key r) rows))"
proof (cases "key r \<in> key ` set rows")
  case True
  assume "keyed key rows"
  then have "key r \<in> key ` set rows \<Longrightarrow> mset (map (\<lambda>x. if key x = key r then r else x) rows) =
      add_mset r (mset (filter (\<lambda>x. key x \<noteq> key r) rows))"
  proof (induction rows)
    case (Cons x rows)
    then have k: "keyed key rows" "key x \<notin> key ` set rows"
      by (auto simp: keyed_def)
    have same: "map (\<lambda>y. if key y = key r then r else y) rows = rows" "filter (\<lambda>y. key y \<noteq> key r) rows = rows"
      if "key r \<notin> key ` set rows"
      using that by (induction rows) auto
    show ?case
    proof (cases "key x = key r")
      case True
      then show ?thesis
        using k same by simp
    next
      case False
      then show ?thesis
        using Cons k by simp
    qed
  qed simp
  with True show ?thesis
    by (simp add: row_put_def)
next
  case False
  then have "filter (\<lambda>x. key x \<noteq> key r) rows = rows"
    by (auto simp: filter_id_conv image_iff)
  with False show ?thesis
    by (simp add: row_put_def)
qed

end
