(* ===== verification/Opamp_Message.thy ===== *)
theory Opamp_Message
  imports Store_Tables Go_Crypto
begin

text \<open>
  What the OpAMP server computes from one message of an agent, before it touches any state:
  \<open>internal/opamp/fingerprint.go\<close> and the pure functions of \<open>internal/opamp/server.go\<close> and
  \<open>rollback.go\<close>. A message is the decoded protobuf: a nil pointer is \<open>None\<close>, bytes are lists of
  numbers, the body of a configuration file is a string, and a bit set is the list of the named bits
  the server looks at.
\<close>

section \<open>Messages\<close>

datatype AnyValue = StringValue string | OtherValue

record KeyValue =
  kv_Key :: string
  kv_Value :: "AnyValue option"

record AgentDescription =
  ad_IdentifyingAttributes :: "KeyValue option list"
  ad_NonIdentifyingAttributes :: "KeyValue option list"

datatype AgentCapability = AcceptsRemoteConfig | ReportsAvailableComponents | OtherCapability

datatype RemoteConfigStatuses = UNSET | APPLYING | APPLIED | FAILED | Unrecognized

record RemoteConfigReport =
  rr_Status :: RemoteConfigStatuses
  rr_LastRemoteConfigHash :: "nat list"
  rr_ErrorMessage :: string

record ComponentReport =
  cr_Components :: "(string, string list option) gomap"
  cr_Hash :: "nat list"

record AgentToServer =
  as_InstanceUid :: "nat list"
  as_AgentDescription :: "AgentDescription option"
  as_Capabilities :: "AgentCapability list"
  as_Health :: "bool option"
  as_EffectiveConfig :: "(string, string) gomap option option"
  as_RemoteConfigStatus :: "RemoteConfigReport option"
  as_AvailableComponents :: "ComponentReport option"

datatype ServerToAgentFlags = NoFlags | ReportFullState | ReportAvailableComponents

record ServerToAgent =
  sa_InstanceUid :: "nat list"
  sa_Flags :: ServerToAgentFlags
  sa_RemoteConfig :: "(string \<times> nat list) option"

section \<open>Attributes\<close>

definition GetStringValue :: "AnyValue \<Rightarrow> string" where
  "GetStringValue v = (case v of StringValue s \<Rightarrow> s | OtherValue \<Rightarrow> [])"

definition flattenKV :: "(string, string) gomap \<Rightarrow> KeyValue option \<Rightarrow> (string, string) gomap" where
  "flattenKV out kv =
    (case kv of
       None \<Rightarrow> out
     | Some kv \<Rightarrow>
         (case kv_Value kv of
            None \<Rightarrow> out
          | Some v \<Rightarrow> let s = GetStringValue v in if s \<noteq> [] then mput (kv_Key kv) s out else out))"

definition flattenAttrs :: "KeyValue option list \<Rightarrow> KeyValue option list \<Rightarrow> (string, string) gomap" where
  "flattenAttrs identifying nonIdentifying = foldl flattenKV (foldl flattenKV [] identifying) nonIdentifying"

datatype agentMessageKind = agentMessageWithDescription | agentMessageHeartbeat

definition classifyAgentMessage :: "AgentToServer \<Rightarrow> agentMessageKind" where
  "classifyAgentMessage msg = (if as_AgentDescription msg \<noteq> None then agentMessageWithDescription else agentMessageHeartbeat)"

definition isCollectorName :: "string \<Rightarrow> bool" where
  "isCollectorName name =
    (let n = ToLower name in
     HasPrefix n ''otelcol'' \<or> Contains n ''opentelemetry-collector'' \<or> Contains n ''opentelemetry.collector'')"

definition classifyAgent :: "(string, string) gomap \<Rightarrow> string" where
  "classifyAgent attrs =
    (if mstr attrs ''otelcol.version'' \<noteq> [] then ''collector''
     else if Contains (ToLower (mstr attrs ''os.description'')) ''otelcol'' then ''collector''
     else if mstr attrs ''telemetry.sdk.language'' \<noteq> [] then ''sdk''
     else if isCollectorName (mstr attrs ''service.name'') then ''collector''
     else ''sdk'')"

definition or_fallback :: "string \<Rightarrow> string \<Rightarrow> string" where
  "or_fallback s def = (if s = [] then def else s)"

definition shortID :: "string \<Rightarrow> string" where
  "shortID ident = (if length ident < 8 then ident else take 8 ident)"

definition remoteConfigStatusString :: "RemoteConfigStatuses \<Rightarrow> string" where
  "remoteConfigStatusString s =
    (case s of UNSET \<Rightarrow> [] | APPLYING \<Rightarrow> ''applying'' | APPLIED \<Rightarrow> ''applied'' | FAILED \<Rightarrow> ''failed'' | Unrecognized \<Rightarrow> [])"

text \<open>Map iteration order does not matter: every category is written once.\<close>

definition flattenAvailableComponents :: "ComponentReport option \<Rightarrow> AvailableComponents option" where
  "flattenAvailableComponents ac =
    (case ac of
       None \<Rightarrow> None
     | Some ac \<Rightarrow>
         if mlen (cr_Components ac) = 0 then None
         else Some \<lparr>ac_Components =
                 foldl (\<lambda>out (category, details). case details of None \<Rightarrow> out | Some names \<Rightarrow> mput category (sort names) out)
                   [] (cr_Components ac),
               ac_Hash = hex_EncodeToString (cr_Hash ac)\<rparr>)"

definition reportFullStateReply :: "AgentToServer \<Rightarrow> ServerToAgent" where
  "reportFullStateReply msg = \<lparr>sa_InstanceUid = as_InstanceUid msg, sa_Flags = ReportFullState, sa_RemoteConfig = None\<rparr>"

definition replyToAgent :: "AgentToServer \<Rightarrow> bool \<Rightarrow> ServerToAgent" where
  "replyToAgent msg requestComponents =
    \<lparr>sa_InstanceUid = as_InstanceUid msg,
     sa_Flags = (if requestComponents then ReportAvailableComponents else NoFlags), sa_RemoteConfig = None\<rparr>"

section \<open>The workload of an agent\<close>

record FingerprintResult =
  fp_ID :: string
  fp_Source :: string
  fp_Keys :: "(string, string) gomap"

definition hash24 :: "string \<Rightarrow> string" where
  "hash24 s = take 24 (hex_EncodeToString (Sum256 s))"

definition k8sWorkloadAttrs :: "(string \<times> string) list" where
  "k8sWorkloadAttrs =
    [(''k8s.deployment.name'', ''deployment''), (''k8s.daemonset.name'', ''daemonset''),
     (''k8s.statefulset.name'', ''statefulset''), (''k8s.job.name'', ''job''), (''k8s.cronjob.name'', ''cronjob'')]"

text \<open>The loop over the kinds: the first attribute that is set.\<close>

definition k8sWorkload :: "(string, string) gomap \<Rightarrow> (string \<times> string) option" where
  "k8sWorkload attrs =
    map_option (\<lambda>(attr, kind). (kind, mstr attrs attr)) (find (\<lambda>(attr, kind). mstr attrs attr \<noteq> []) k8sWorkloadAttrs)"

definition Fingerprint :: "(string, string) gomap \<Rightarrow> string \<Rightarrow> FingerprintResult" where
  "Fingerprint attrs instanceUID =
    (let namespace = mstr attrs ''k8s.namespace.name'';
         serviceName = mstr attrs ''service.name'';
         host = mstr attrs ''host.name'';
         rest = (if host \<noteq> [] then
                   \<lparr>fp_ID = hash24 (''host|'' @ serviceName @ ''|'' @ host), fp_Source = ''host'',
                    fp_Keys = [(''service.name'', serviceName), (''host.name'', host)]\<rparr>
                 else
                   \<lparr>fp_ID = hash24 (''uid|'' @ instanceUID), fp_Source = ''uid'', fp_Keys = [(''instance_uid'', instanceUID)]\<rparr>)
     in if namespace = [] then rest
        else case k8sWorkload attrs of
          None \<Rightarrow> rest
        | Some (kind, name) \<Rightarrow>
            let cluster = (if mstr attrs ''k8s.cluster.name'' = [] then ''unknown'' else mstr attrs ''k8s.cluster.name'')
            in \<lparr>fp_ID = hash24 (''k8s|'' @ cluster @ ''|'' @ namespace @ ''|'' @ kind @ ''|'' @ name), fp_Source = ''k8s'',
                fp_Keys = [(''cluster'', cluster), (''namespace'', namespace), (''kind'', kind), (''name'', name)]\<rparr>)"

section \<open>The identity behind a fingerprint\<close>

datatype identity = K8sWorkload string string string string | HostService string string | SingleInstance string

definition identity_of :: "(string, string) gomap \<Rightarrow> string \<Rightarrow> identity" where
  "identity_of attrs uid =
    (case (mstr attrs ''k8s.namespace.name'', k8sWorkload attrs) of
       (n # ns, Some (kind, name)) \<Rightarrow>
         K8sWorkload (or_fallback (mstr attrs ''k8s.cluster.name'') ''unknown'') (n # ns) kind name
     | _ \<Rightarrow>
         if mstr attrs ''host.name'' \<noteq> [] then HostService (mstr attrs ''service.name'') (mstr attrs ''host.name'')
         else SingleInstance uid)"

fun raw_identity :: "identity \<Rightarrow> string" where
  "raw_identity (K8sWorkload c n k w) = ''k8s|'' @ c @ ''|'' @ n @ ''|'' @ k @ ''|'' @ w"
| "raw_identity (HostService s h) = ''host|'' @ s @ ''|'' @ h"
| "raw_identity (SingleInstance u) = ''uid|'' @ u"


lemma Fingerprint_ID: "fp_ID (Fingerprint attrs uid) = hash24 (raw_identity (identity_of attrs uid))"
  by (cases "mstr attrs ''k8s.namespace.name''"; cases "k8sWorkload attrs")
    (auto simp: Fingerprint_def identity_of_def Let_def or_fallback_def split: prod.split)





lemma hash24_nonempty: "hash24 s \<noteq> []"
proof -
  have "length (hex_EncodeToString (Sum256 s)) = 64"
    by (simp add: hex_EncodeToString_def length_concat comp_def sum_list_triv)
  then have "length (hash24 s) = 24"
    by (simp add: hash24_def)
  then show ?thesis
    by auto
qed

lemma fingerprint_nonempty: "fp_ID (Fingerprint attrs uid) \<noteq> []"
  by (simp add: Fingerprint_ID hash24_nonempty)

end
