(* ===== verification/Store_Calls.thy ===== *)
theory Store_Calls
  imports Store_Tables
begin

text \<open>
  How a call of the store ends for its caller. The database may execute the statement and answer; it may
  fail before it executed anything; or it may execute the statement and lose the answer, so that the
  caller sees an error although the change is there. The callers take the fate of each of their calls as
  an argument.
\<close>

datatype call_fate = Works | Fails | Unacked

definition exec_call :: "call_fate \<Rightarrow> (store_db \<Rightarrow> db_error + store_db) \<Rightarrow> store_db \<Rightarrow> bool \<times> store_db" where
  "exec_call f op d =
    (if f = Fails then (False, d)
     else case op d of Inl _ \<Rightarrow> (False, d) | Inr d' \<Rightarrow> (f = Works, d'))"

definition read_call :: "call_fate \<Rightarrow> 'a \<Rightarrow> 'a option" where
  "read_call f x = (if f = Works then Some x else None)"

lemma read_call_Works [simp]: "read_call Works x = Some x"
  by (simp add: read_call_def)

lemma read_call_Some: "read_call f x = Some y \<longleftrightarrow> f = Works \<and> y = x"
  by (auto simp: read_call_def)

lemma read_call_None: "read_call f x = None \<longleftrightarrow> f \<noteq> Works"
  by (auto simp: read_call_def)

lemma exec_call_inv:
  assumes "\<And>d'. op d = Inr d' \<Longrightarrow> P d'" and "P d"
  shows "P (snd (exec_call f op d))"
  using assms by (auto simp: exec_call_def split: sum.splits)

lemma exec_call_cases:
  obtains "exec_call f op d = (False, d)" | d' where "op d = Inr d'" "exec_call f op d = (f = Works, d')"
  by (cases "op d"; cases "f = Fails") (auto simp: exec_call_def)

end
