(* ===== verification/Workload_Store.thy ===== *)
theory Workload_Store
  imports Store_Tables
begin

text \<open>
  The operations of the store on workloads, their events and the configuration library,
  \<open>internal/store/workloads.go\<close>, \<open>workload_events.go\<close> and \<open>configs.go\<close>, and the
  janitor \<open>internal/workloads/janitor.go\<close>. Each gives the error or the new tables.
\<close>

section \<open>The program\<close>

definition RemoteConfigStatus_Sanitized :: "RemoteConfigStatus \<Rightarrow> RemoteConfigStatus" where
  "RemoteConfigStatus_Sanitized r =
    r\<lparr>rs_ErrorMessage := SanitizeRemoteConfigErrorMessage (rs_ErrorMessage r),
      rs_PushStatus := map_option SanitizeRemoteConfigErrors (rs_PushStatus r)\<rparr>"

subsection \<open>Configurations\<close>

definition ConfigKindSaved :: string where "ConfigKindSaved = ''saved''"
definition ConfigStatusReady :: string where "ConfigStatusReady = ''ready''"
definition ConfigSourceManual :: string where "ConfigSourceManual = ''manual''"

text \<open>\<open>built_in\<close> is not a column.\<close>

definition CreateConfig :: "Config \<Rightarrow> store_db \<Rightarrow> db_error + store_db" where
  "CreateConfig c d =
    (let row = c\<lparr>cf_Kind := (if cf_Kind c = [] then ConfigKindSaved else cf_Kind c),
                 cf_Status := (if cf_Status c = [] then ConfigStatusReady else cf_Status c),
                 cf_SourceType := (if cf_SourceType c = [] then ConfigSourceManual else cf_SourceType c),
                 cf_BuiltIn := False\<rparr>
     in if has_config d (cf_ID c) then Inl ConstraintViolated
        else Inr (d\<lparr>sd_configs := sd_configs d @ [row]\<rparr>))"

definition GetConfig :: "store_db \<Rightarrow> string \<Rightarrow> db_error + Config" where
  "GetConfig d ident = (case row_get cf_ID ident (sd_configs d) of None \<Rightarrow> Inl NoRows | Some c \<Rightarrow> Inr c)"

definition ListConfigs :: "store_db \<Rightarrow> Config list" where
  "ListConfigs d = map (\<lambda>c. c\<lparr>cf_Content := []\<rparr>) (sort_key (\<lambda>c. - cf_CreatedAt c) (sd_configs d))"

subsection \<open>Workloads\<close>

text \<open>The projection into \<open>workload_attributes\<close>, in the transaction of the upsert.\<close>

definition insertWorkloadAttributes :: "string \<Rightarrow> string \<Rightarrow> (string, string) gomap \<Rightarrow> attribute_row list \<Rightarrow> attribute_row list" where
  "insertWorkloadAttributes w source attrs rows =
    foldl (\<lambda>rows k. rows @ [\<lparr>at_workload_id = w, at_source = source, at_key = k, at_value = mstr attrs k\<rparr>]) rows
      (sort (filter (\<lambda>k. k \<noteq> []) (mkeys attrs)))"

definition replaceWorkloadAttributes :: "string \<Rightarrow> (string, string) gomap \<Rightarrow> (string, string) gomap \<Rightarrow> attribute_row list \<Rightarrow> attribute_row list" where
  "replaceWorkloadAttributes w fingerprintKeys labels rows =
    insertWorkloadAttributes w ''label'' labels
      (insertWorkloadAttributes w ''fingerprint'' fingerprintKeys (row_del (\<lambda>a. at_workload_id a = w) rows))"

text \<open>The row an upsert proposes, and the row it leaves when one exists (\<open>COALESCE\<close>).\<close>

definition workload_row :: "Workload \<Rightarrow> Workload" where
  "workload_row w =
    w\<lparr>wl_FingerprintSource := (if wl_FingerprintSource w = [] then ''uid'' else wl_FingerprintSource w),
      wl_RemoteConfigStatus := map_option RemoteConfigStatus_Sanitized (wl_RemoteConfigStatus w),
      wl_CurrentConfigPush := None\<rparr>"

definition coalesce_row :: "Workload option \<Rightarrow> Workload \<Rightarrow> Workload" where
  "coalesce_row old row =
    (case old of
       None \<Rightarrow> row
     | Some p \<Rightarrow>
         row\<lparr>wl_RemoteConfigStatus := (if wl_RemoteConfigStatus row = None then wl_RemoteConfigStatus p else wl_RemoteConfigStatus row),
             wl_AvailableComponents := (if wl_AvailableComponents row = None then wl_AvailableComponents p else wl_AvailableComponents row)\<rparr>)"

definition UpsertWorkload :: "Workload \<Rightarrow> store_db \<Rightarrow> db_error + store_db" where
  "UpsertWorkload w d =
    (let row = workload_row w in
     if \<not> workload_checks d row then Inl ConstraintViolated
     else Inr (d\<lparr>sd_workloads := row_put wl_ID (coalesce_row (row_get wl_ID (wl_ID w) (sd_workloads d)) row) (sd_workloads d),
                 sd_attributes := replaceWorkloadAttributes (wl_ID w) (wl_FingerprintKeys w) (wl_Labels w) (sd_attributes d)\<rparr>))"

text \<open>A row as the scanners decode it.\<close>

definition scan_workload :: "Workload \<Rightarrow> Workload" where
  "scan_workload w = w\<lparr>wl_RemoteConfigStatus := map_option RemoteConfigStatus_Sanitized (wl_RemoteConfigStatus w)\<rparr>"

definition GetWorkload :: "store_db \<Rightarrow> string \<Rightarrow> db_error + Workload" where
  "GetWorkload d ident =
    (case row_get wl_ID ident (sd_workloads d) of None \<Rightarrow> Inl NoRows | Some w \<Rightarrow> Inr (scan_workload w))"

text \<open>
  \<open>coll\<close> is the collation of the database, which \<open>ORDER BY\<close> and \<open>>\<close> on text use.
\<close>

definition ListWorkloads :: "(string \<Rightarrow> 'o :: linorder) \<Rightarrow> bool \<Rightarrow> store_db \<Rightarrow> Workload list" where
  "ListWorkloads coll includeArchived d =
    map scan_workload
      (sort_key (\<lambda>w. coll (wl_DisplayName w))
        (filter (\<lambda>w. includeArchived \<or> wl_ArchivedAt w = None) (sd_workloads d)))"

definition ListWorkloadsPage :: "(string \<Rightarrow> 'o :: linorder) \<Rightarrow> bool \<Rightarrow> string \<Rightarrow> int \<Rightarrow> store_db \<Rightarrow> Workload list" where
  "ListWorkloadsPage coll includeArchived afterID limit0 d =
    (let limit = (if limit0 \<le> 0 then 100 else limit0) in
     map scan_workload
       (take (nat limit)
         (sort_key (\<lambda>w. coll (wl_ID w))
           (filter (\<lambda>w. (includeArchived \<or> wl_ArchivedAt w = None) \<and> (afterID = [] \<or> coll afterID < coll (wl_ID w)))
             (sd_workloads d)))))"

definition MarkWorkloadDisconnected :: "string \<Rightarrow> gotime \<Rightarrow> store_db \<Rightarrow> db_error + store_db" where
  "MarkWorkloadDisconnected ident retentionUntil d =
    (if \<not> has_workload d ident then Inl NoRows
     else Inr (d\<lparr>sd_workloads := row_mod (\<lambda>w. wl_ID w = ident)
        (\<lambda>w. w\<lparr>wl_Status := ''disconnected'', wl_RetentionUntil := Some retentionUntil\<rparr>) (sd_workloads d)\<rparr>))"

definition ClearWorkloadRetention :: "string \<Rightarrow> store_db \<Rightarrow> store_db" where
  "ClearWorkloadRetention ident d =
    d\<lparr>sd_workloads := row_mod (\<lambda>w. wl_ID w = ident) (\<lambda>w. w\<lparr>wl_RetentionUntil := None\<rparr>) (sd_workloads d)\<rparr>"

definition retention_expired :: "gotime \<Rightarrow> Workload \<Rightarrow> bool" where
  "retention_expired now w \<longleftrightarrow>
    wl_ArchivedAt w = None \<and> (case wl_RetentionUntil w of None \<Rightarrow> False | Some t \<Rightarrow> t < now)"

definition ArchiveExpiredWorkloads :: "gotime \<Rightarrow> store_db \<Rightarrow> nat \<times> store_db" where
  "ArchiveExpiredWorkloads now d =
    (row_count (retention_expired now) (sd_workloads d),
     d\<lparr>sd_workloads := row_mod (retention_expired now) (\<lambda>w. w\<lparr>wl_ArchivedAt := Some now\<rparr>) (sd_workloads d)\<rparr>)"

definition ArchiveWorkload :: "string \<Rightarrow> gotime \<Rightarrow> store_db \<Rightarrow> db_error + store_db" where
  "ArchiveWorkload ident archivedAt d =
    (if \<not> has_workload d ident then Inl NoRows
     else Inr (d\<lparr>sd_workloads := row_mod (\<lambda>w. wl_ID w = ident)
        (\<lambda>w. w\<lparr>wl_Status := ''disconnected'', wl_RetentionUntil := Some archivedAt, wl_ArchivedAt := Some archivedAt\<rparr>)
        (sd_workloads d)\<rparr>))"

text \<open>The delete cascades to every table that references the workload.\<close>

definition DeleteWorkload :: "string \<Rightarrow> store_db \<Rightarrow> store_db" where
  "DeleteWorkload ident d =
    d\<lparr>sd_workloads := row_del (\<lambda>w. wl_ID w = ident) (sd_workloads d),
      sd_attributes := row_del (\<lambda>a. at_workload_id a = ident) (sd_attributes d),
      sd_events := row_del (\<lambda>e. ev_WorkloadID e = ident) (sd_events d),
      sd_history := row_del (\<lambda>r. hr_workload_id r = ident) (sd_history d),
      sd_known_good := row_del (\<lambda>k. kg_workload_id k = ident) (sd_known_good d),
      sd_canaries := row_del (\<lambda>c. cs_WorkloadID c = ident) (sd_canaries d),
      sd_approvals := row_del (\<lambda>a. ca_WorkloadID a = ident) (sd_approvals d),
      sd_alerts := row_del (\<lambda>a. al_WorkloadID a = ident) (sd_alerts d)\<rparr>"

subsection \<open>Events\<close>

definition InsertWorkloadEvent :: "gotime \<Rightarrow> WorkloadEvent \<Rightarrow> store_db \<Rightarrow> db_error + nat \<times> store_db" where
  "InsertWorkloadEvent clock e d =
    (let row = e\<lparr>ev_ID := sd_next_event d, ev_OccurredAt := (if timeIsZero (ev_OccurredAt e) then clock else ev_OccurredAt e)\<rparr>
     in if \<not> event_row_checks d row then Inl ConstraintViolated
        else Inr (sd_next_event d, d\<lparr>sd_events := sd_events d @ [row], sd_next_event := sd_next_event d + 1\<rparr>))"

text \<open>PostgreSQL refuses a negative limit.\<close>

definition ListWorkloadEvents :: "string \<Rightarrow> int \<Rightarrow> gotime \<Rightarrow> store_db \<Rightarrow> db_error + WorkloadEvent list" where
  "ListWorkloadEvents workloadID limit since d =
    (if limit < 0 then Inl (DbMessage ''LIMIT must not be negative'')
     else Inr (take (nat limit)
      (sort_key (\<lambda>e. (- ev_OccurredAt e, - int (ev_ID e)))
        (filter (\<lambda>e. ev_WorkloadID e = workloadID \<and> (timeIsZero since \<or> since < ev_OccurredAt e)) (sd_events d)))))"

definition PurgeOldWorkloadEvents :: "gotime \<Rightarrow> store_db \<Rightarrow> nat \<times> store_db" where
  "PurgeOldWorkloadEvents cutoff d =
    (row_count (\<lambda>e. ev_OccurredAt e < cutoff) (sd_events d),
     d\<lparr>sd_events := row_del (\<lambda>e. ev_OccurredAt e < cutoff) (sd_events d)\<rparr>)"

subsection \<open>The janitor\<close>

record janitor_options =
  jo_Interval :: duration
  jo_EventRetention :: duration

definition New_Janitor :: "janitor_options \<Rightarrow> janitor_options" where
  "New_Janitor opts =
    opts\<lparr>jo_Interval := (if jo_Interval opts \<le> 0 then 5 * minute else jo_Interval opts),
         jo_EventRetention := (if jo_EventRetention opts \<le> 0 then 30 * 24 * (60 * minute) else jo_EventRetention opts)\<rparr>"

text \<open>The two flags tell whether the database answered each statement.\<close>

definition RunOnce :: "bool \<Rightarrow> bool \<Rightarrow> janitor_options \<Rightarrow> gotime \<Rightarrow> store_db \<Rightarrow> store_db" where
  "RunOnce archiveOK purgeOK opts now d =
    (let d = (if archiveOK then snd (ArchiveExpiredWorkloads now d) else d);
         cutoff = timeAdd now (- jo_EventRetention opts)
     in if purgeOK then snd (PurgeOldWorkloadEvents cutoff d) else d)"

section \<open>The tables stay consistent\<close>

lemma insertWorkloadAttributes_rows: "insertWorkloadAttributes w src m rows = rows @ attribute_rows w src m"
proof -
  have "foldl (\<lambda>rows k. rows @ [f k]) rows ks = rows @ map f ks" for f :: "string \<Rightarrow> attribute_row" and ks
    by (induction ks arbitrary: rows) auto
  then show ?thesis
    by (simp add: insertWorkloadAttributes_def attribute_rows_def)
qed

lemma replaceWorkloadAttributes_rows:
  "replaceWorkloadAttributes (wl_ID w) (wl_FingerprintKeys w) (wl_Labels w) rows =
    row_del (\<lambda>a. at_workload_id a = wl_ID w) rows @ workload_projection w"
  by (simp add: replaceWorkloadAttributes_def insertWorkloadAttributes_rows workload_projection_def)

lemma workload_row_simps [simp]:
  "wl_ID (workload_row w) = wl_ID w" "wl_FingerprintKeys (workload_row w) = wl_FingerprintKeys w"
  "wl_Labels (workload_row w) = wl_Labels w" "wl_ActiveConfigHash (workload_row w) = wl_ActiveConfigHash w"
  "wl_ArchivedAt (workload_row w) = wl_ArchivedAt w" "wl_RetentionUntil (workload_row w) = wl_RetentionUntil w"
  by (simp_all add: workload_row_def)

lemma coalesce_row_simps [simp]:
  "wl_ID (coalesce_row p w) = wl_ID w" "wl_FingerprintKeys (coalesce_row p w) = wl_FingerprintKeys w"
  "wl_Labels (coalesce_row p w) = wl_Labels w" "wl_ActiveConfigHash (coalesce_row p w) = wl_ActiveConfigHash w"
  "wl_ArchivedAt (coalesce_row p w) = wl_ArchivedAt w" "wl_RetentionUntil (coalesce_row p w) = wl_RetentionUntil w"
  "workload_checks d (coalesce_row p w) = workload_checks d w"
  by (simp_all add: coalesce_row_def workload_checks_def split: option.splits)

lemma scan_workload_simps [simp]:
  "wl_ID (scan_workload w) = wl_ID w" "wl_FingerprintKeys (scan_workload w) = wl_FingerprintKeys w"
  "wl_Labels (scan_workload w) = wl_Labels w" "wl_ActiveConfigHash (scan_workload w) = wl_ActiveConfigHash w"
  "wl_ArchivedAt (scan_workload w) = wl_ArchivedAt w" "wl_RetentionUntil (scan_workload w) = wl_RetentionUntil w"
  "wl_DisplayName (scan_workload w) = wl_DisplayName w" "wl_LastSeenAt (scan_workload w) = wl_LastSeenAt w"
  "wl_Version (scan_workload w) = wl_Version w"
  by (simp_all add: scan_workload_def)

lemma projection_cong: 
  "wl_ID w = wl_ID w' \<Longrightarrow> wl_FingerprintKeys w = wl_FingerprintKeys w' \<Longrightarrow> wl_Labels w = wl_Labels w' \<Longrightarrow>
    workload_projection w = workload_projection w'"
  by (simp add: workload_projection_def)

lemma UpsertWorkload_inv [inv_intros]:
  assumes inv: "store_inv d" and "UpsertWorkload w d = Inr d'" and maps: "mwf (wl_FingerprintKeys w)" "mwf (wl_Labels w)"
  shows "store_inv d'"
proof -
  define row where "row = coalesce_row (row_get wl_ID (wl_ID w) (sd_workloads d)) (workload_row w)"
  have row: "wl_ID row = wl_ID w" "mwf (wl_FingerprintKeys row)" "mwf (wl_Labels row)"
    using maps by (simp_all add: row_def)
  have proj: "workload_projection row = workload_projection w"
    by (rule projection_cong) (simp_all add: row_def)
  have chk: "workload_checks d row"
    using assms(2) by (simp add: UpsertWorkload_def row_def Let_def split: if_splits)
  have d': "d' = d\<lparr>sd_workloads := row_put wl_ID row (sd_workloads d),
        sd_attributes := row_del (\<lambda>a. at_workload_id a = wl_ID w) (sd_attributes d) @ workload_projection w\<rparr>"
    using assms(2) by (simp add: UpsertWorkload_def row_def Let_def replaceWorkloadAttributes_rows split: if_splits)
  have keys: "keyed wl_ID (sd_workloads d)"
    using inv by (simp add: store_inv_def keys_ok_def)
  have "keys_ok d'"
    using inv by (simp add: d' store_inv_def keys_ok_def keyed_row_put)
  moreover have "workloads_ok d'"
    using inv row keys chk by (auto simp: d' store_inv_def workloads_ok_def set_row_put)
  moreover have "refs_ok d'"
    by (rule refs_ok_mono [of d]) (use inv keys in \<open>auto simp: d' store_inv_def keys_row_put\<close>)
  moreover have "attributes_ok d'"
  proof -
    let ?rest = "filter (\<lambda>x. wl_ID x \<noteq> wl_ID w) (sd_workloads d)"
    have "mset (filter (\<lambda>a. at_workload_id a \<noteq> wl_ID w) (sd_attributes d)) = mset (concat (map workload_projection ?rest))"
      using inv attributes_filter by (simp add: store_inv_def)
    moreover have "mset (row_put wl_ID row (sd_workloads d)) = mset (?rest @ [row])"
      using keys row by (simp add: mset_row_put)
    ultimately show ?thesis
      using mset_concat_map_cong [of "row_put wl_ID row (sd_workloads d)" "?rest @ [row]" workload_projection] proj
      by (simp add: d' attributes_ok_def row_del_def)
  qed
  ultimately show ?thesis
    by (simp add: store_inv_def)
qed

text \<open>An update that keeps the columns of the constraints.\<close>

lemma row_mod_inv:
  assumes inv: "store_inv d"
    and f: "\<And>w. wl_ID (f w) = wl_ID w \<and> wl_FingerprintKeys (f w) = wl_FingerprintKeys w \<and> wl_Labels (f w) = wl_Labels w"
    and ok: "\<And>w. workload_checks d w \<Longrightarrow> workload_checks d (f w)"
  shows "store_inv (d\<lparr>sd_workloads := row_mod P f (sd_workloads d)\<rparr>)"
proof -
  have ids: "map wl_ID (row_mod P f (sd_workloads d)) = map wl_ID (sd_workloads d)"
    using f by (simp add: keys_row_mod)
  then have sets: "wl_ID ` set (row_mod P f (sd_workloads d)) = wl_ID ` set (sd_workloads d)"
    by (metis list.set_map)
  have "workload_projection (f w) = workload_projection w" for w
    using f [of w] by (auto intro: projection_cong)
  then have proj: "map workload_projection (row_mod P f (sd_workloads d)) = map workload_projection (sd_workloads d)"
    by (simp add: row_mod_def)
  let ?d = "d\<lparr>sd_workloads := row_mod P f (sd_workloads d)\<rparr>"
  have "keys_ok ?d"
    using inv ids by (simp add: store_inv_def keys_ok_def keyed_def)
  moreover have "workloads_ok ?d"
    using inv f ok by (auto simp: store_inv_def workloads_ok_def set_row_mod)
  moreover have "refs_ok ?d"
    by (rule refs_ok_mono [of d]) (use inv sets in \<open>simp_all add: store_inv_def\<close>)
  moreover have "attributes_ok ?d"
    using inv proj by (simp add: store_inv_def attributes_ok_def)
  ultimately show ?thesis
    by (simp add: store_inv_def)
qed

lemma MarkWorkloadDisconnected_inv [inv_intros]:
  "store_inv d \<Longrightarrow> MarkWorkloadDisconnected i t d = Inr d' \<Longrightarrow> store_inv d'"
  by (auto simp: MarkWorkloadDisconnected_def workload_checks_def intro!: row_mod_inv split: if_splits)

lemma ClearWorkloadRetention_inv [inv_intros]: "store_inv d \<Longrightarrow> store_inv (ClearWorkloadRetention i d)"
  by (auto simp: ClearWorkloadRetention_def workload_checks_def intro!: row_mod_inv)

lemma ArchiveExpiredWorkloads_inv [inv_intros]: "store_inv d \<Longrightarrow> store_inv (snd (ArchiveExpiredWorkloads now d))"
  by (auto simp: ArchiveExpiredWorkloads_def workload_checks_def intro!: row_mod_inv)

lemma ArchiveWorkload_inv [inv_intros]: "store_inv d \<Longrightarrow> ArchiveWorkload i t d = Inr d' \<Longrightarrow> store_inv d'"
  by (auto simp: ArchiveWorkload_def workload_checks_def intro!: row_mod_inv split: if_splits)

lemma DeleteWorkload_inv [inv_intros]:
  assumes "store_inv d"
  shows "store_inv (DeleteWorkload i d)"
proof -
  have "mset (filter (\<lambda>a. at_workload_id a \<noteq> i) (sd_attributes d)) =
      mset (concat (map workload_projection (filter (\<lambda>w. wl_ID w \<noteq> i) (sd_workloads d))))"
    using assms attributes_filter by (simp add: store_inv_def)
  moreover have "keys_ok (DeleteWorkload i d)"
    using assms by (auto simp: store_inv_def keys_ok_def DeleteWorkload_def)
  moreover have "workloads_ok (DeleteWorkload i d)"
    using assms by (auto simp: store_inv_def workloads_ok_def DeleteWorkload_def workload_checks_def)
  moreover have "refs_ok (DeleteWorkload i d)"
    using assms by (auto simp: store_inv_def refs_ok_def DeleteWorkload_def event_row_checks_def history_checks_def)
  ultimately show ?thesis
    by (simp add: store_inv_def attributes_ok_def DeleteWorkload_def row_del_def)
qed

lemma InsertWorkloadEvent_inv [inv_intros]:
  assumes inv: "store_inv d" and "InsertWorkloadEvent clock e d = Inr (n, d')"
  shows "store_inv d'"
proof -
  obtain row where d': "d' = d\<lparr>sd_events := sd_events d @ [row], sd_next_event := Suc (sd_next_event d)\<rparr>"
    and row: "ev_ID row = sd_next_event d" "event_row_checks d row"
    using assms(2) by (auto simp: InsertWorkloadEvent_def Let_def split: if_splits)
  have "sd_next_event d \<notin> ev_ID ` set (sd_events d)"
    using inv by (auto simp: store_inv_def refs_ok_def)
  then have "keys_ok d'"
    using inv row by (simp add: d' store_inv_def keys_ok_def keyed_snoc)
  moreover have "refs_ok d'"
    using inv row by (simp add: d' store_inv_def refs_ok_def less_Suc_eq)
  ultimately show ?thesis
    using inv workloads_ok_cong [of d' d] attributes_ok_cong [of d' d] by (simp add: d' store_inv_def)
qed

lemma PurgeOldWorkloadEvents_inv [inv_intros]:
  assumes inv: "store_inv d"
  shows "store_inv (snd (PurgeOldWorkloadEvents c d))"
proof -
  let ?d = "snd (PurgeOldWorkloadEvents c d)"
  have "keys_ok ?d" "refs_ok ?d"
    using inv by (auto simp: PurgeOldWorkloadEvents_def store_inv_def keys_ok_def refs_ok_def)
  then show ?thesis
    using inv workloads_ok_cong [of ?d d] attributes_ok_cong [of ?d d] by (simp add: PurgeOldWorkloadEvents_def store_inv_def)
qed

lemma CreateConfig_inv [inv_intros]:
  assumes "store_inv d" and "CreateConfig c d = Inr d'"
  shows "store_inv d'"
proof -
  have "keys_ok d'" and "cf_ID ` set (sd_configs d) \<subseteq> cf_ID ` set (sd_configs d')"
    using assms by (auto simp: CreateConfig_def Let_def store_inv_def keys_ok_def keyed_snoc split: if_splits)
  moreover have "sd_workloads d' = sd_workloads d" "sd_attributes d' = sd_attributes d" "sd_events d' = sd_events d"
      "sd_next_event d' = sd_next_event d" "sd_history d' = sd_history d" "sd_known_good d' = sd_known_good d"
      "sd_canaries d' = sd_canaries d" "sd_approvals d' = sd_approvals d" "sd_alerts d' = sd_alerts d"
    using assms(2) by (auto simp: CreateConfig_def Let_def split: if_splits)
  ultimately show ?thesis
    using assms(1) workloads_ok_cong [of d' d] refs_ok_mono [of d d'] attributes_ok_cong [of d' d]
    by (simp add: store_inv_def)
qed

lemma RunOnce_inv [inv_intros]: "store_inv d \<Longrightarrow> store_inv (RunOnce a p opts now d)"
  by (simp add: RunOnce_def Let_def ArchiveExpiredWorkloads_inv PurgeOldWorkloadEvents_inv)

end
