(* ===== verification/Canary_Store.thy ===== *)
theory Canary_Store
  imports Workload_Store
begin

text \<open>
  Canary rollouts in the store, \<open>internal/store/workload_canaries.go\<close> and
  \<open>pkg/models/canary.go\<close>: the counts and stop reasons of a canary, and the reconciliation of
  the statuses collectors report into the canaries that are still active.
\<close>

section \<open>The program\<close>

definition CanaryStatusRunning :: string where "CanaryStatusRunning = ''running''"
definition CanaryStatusSucceeded :: string where "CanaryStatusSucceeded = ''succeeded''"
definition CanaryStatusPromoted :: string where "CanaryStatusPromoted = ''promoted''"
definition CanaryStatusAborted :: string where "CanaryStatusAborted = ''aborted''"
definition CanaryStatusRollback :: string where "CanaryStatusRollback = ''rollback_started''"
definition CanaryStatusStopped :: string where "CanaryStatusStopped = ''stopped''"
definition CanaryStatusFailed :: string where "CanaryStatusFailed = ''failed''"
definition CanaryStopRemoteConfigFailed :: string where "CanaryStopRemoteConfigFailed = ''remote_config_failed''"

lemmas canary_status_defs = CanaryStatusRunning_def CanaryStatusSucceeded_def CanaryStatusPromoted_def
  CanaryStatusAborted_def CanaryStatusRollback_def CanaryStatusStopped_def CanaryStatusFailed_def

definition count_target :: "CanaryCounts \<Rightarrow> CanaryTarget \<Rightarrow> CanaryCounts" where
  "count_target c t =
    (if ct_Status t = PushStatusApplied then c\<lparr>cc_Applied := cc_Applied c + 1\<rparr>
     else if ct_Status t = PushStatusApplying then c\<lparr>cc_Applying := cc_Applying c + 1\<rparr>
     else if ct_Status t = PushStatusFailed then c\<lparr>cc_Failed := cc_Failed c + 1\<rparr>
     else c\<lparr>cc_Pending := cc_Pending c + 1\<rparr>)"

text \<open>The stop reasons are the keys of a Go map; their order is not specified.\<close>

definition Recount :: "CanaryStatus \<Rightarrow> CanaryStatus" where
  "Recount c =
    c\<lparr>cs_Counts := foldl count_target \<lparr>cc_Pending = 0, cc_Applying = 0, cc_Applied = 0, cc_Failed = 0\<rparr> (cs_Targets c),
      cs_StopReasons := mkeys (foldl (\<lambda>m t. if ct_StopReason t \<noteq> [] then mput (ct_StopReason t) True m else m) [] (cs_Targets c))\<rparr>"

definition CreateCanaryStatus :: "gotime \<Rightarrow> CanaryStatus \<Rightarrow> store_db \<Rightarrow> db_error + store_db" where
  "CreateCanaryStatus clock s d =
    (let s = s\<lparr>cs_CreatedAt := (if timeIsZero (cs_CreatedAt s) then clock else cs_CreatedAt s)\<rparr>;
         s = Recount (s\<lparr>cs_UpdatedAt := (if timeIsZero (cs_UpdatedAt s) then cs_CreatedAt s else cs_UpdatedAt s)\<rparr>)
     in if cs_ID s \<in> cs_ID ` set (sd_canaries d) \<or> \<not> has_workload d (cs_WorkloadID s) \<or> \<not> has_config d (cs_ConfigHash s)
        then Inl ConstraintViolated
        else Inr (d\<lparr>sd_canaries := sd_canaries d @ [s]\<rparr>))"

text \<open>The update writes neither the configuration nor the creation time.\<close>

definition updateCanaryStatus :: "gotime \<Rightarrow> CanaryStatus \<Rightarrow> store_db \<Rightarrow> store_db" where
  "updateCanaryStatus clock s d =
    (let s = Recount (s\<lparr>cs_UpdatedAt := (if timeIsZero (cs_UpdatedAt s) then clock else cs_UpdatedAt s)\<rparr>)
     in d\<lparr>sd_canaries := row_mod (\<lambda>r. cs_ID r = cs_ID s \<and> cs_WorkloadID r = cs_WorkloadID s)
          (\<lambda>r. s\<lparr>cs_ConfigHash := cs_ConfigHash r, cs_CreatedAt := cs_CreatedAt r\<rparr>) (sd_canaries d)\<rparr>)"

definition GetCanaryStatus :: "store_db \<Rightarrow> string \<Rightarrow> string \<Rightarrow> CanaryStatus option" where
  "GetCanaryStatus d workloadID canaryID =
    map_option Recount (find (\<lambda>c. cs_WorkloadID c = workloadID \<and> cs_ID c = canaryID) (sd_canaries d))"

definition active_canary :: "string \<Rightarrow> string \<Rightarrow> CanaryStatus \<Rightarrow> bool" where
  "active_canary workloadID configID c \<longleftrightarrow>
    cs_WorkloadID c = workloadID \<and> cs_ConfigHash c = configID
    \<and> (cs_Status c = CanaryStatusRunning \<or> cs_Status c = CanaryStatusSucceeded)"

definition activeCanariesForConfig :: "store_db \<Rightarrow> string \<Rightarrow> string \<Rightarrow> CanaryStatus list" where
  "activeCanariesForConfig d workloadID configID =
    map Recount (sort_key cs_ID (filter (active_canary workloadID configID) (sd_canaries d)))"

text \<open>The first target of the instance is rewritten; \<open>None\<close> when there is no such target.\<close>

fun retarget :: "string \<Rightarrow> string \<Rightarrow> gotime \<Rightarrow> CanaryTarget list \<Rightarrow> CanaryTarget list option" where
  "retarget uid status at [] = None"
| "retarget uid status at (t # ts) =
    (if ct_InstanceUID t \<noteq> uid then map_option (\<lambda>ts'. t # ts') (retarget uid status at ts)
     else Some (t\<lparr>ct_Status := status, ct_UpdatedAt := at,
        ct_StopReason := (if status = PushStatusFailed then CanaryStopRemoteConfigFailed else [])\<rparr> # ts))"

definition settle :: "CanaryStatus \<Rightarrow> CanaryStatus" where
  "settle c =
    c\<lparr>cs_Status :=
        (if cc_Failed (cs_Counts c) > 0 then CanaryStatusStopped
         else if length (cs_Targets c) > 0 \<and> cc_Applied (cs_Counts c) = length (cs_Targets c) then CanaryStatusSucceeded
         else CanaryStatusRunning)\<rparr>"

definition reconcile_canary :: "string \<Rightarrow> string \<Rightarrow> gotime \<Rightarrow> CanaryStatus \<Rightarrow> CanaryStatus option" where
  "reconcile_canary uid status at c =
    map_option (\<lambda>ts. settle (Recount (c\<lparr>cs_Targets := ts, cs_UpdatedAt := at\<rparr>))) (retarget uid status at (cs_Targets c))"

definition UpdateCanaryTargetStatus :: "gotime \<Rightarrow> string \<Rightarrow> string \<Rightarrow> string \<Rightarrow> string \<Rightarrow> gotime \<Rightarrow> store_db \<Rightarrow> store_db" where
  "UpdateCanaryTargetStatus clock workloadID configID instanceUID status updatedAt0 d =
    (let updatedAt = (if timeIsZero updatedAt0 then clock else updatedAt0) in
     foldl (\<lambda>d c. case reconcile_canary instanceUID status updatedAt c of None \<Rightarrow> d | Some c' \<Rightarrow> updateCanaryStatus clock c' d)
       d (activeCanariesForConfig d workloadID configID))"

section \<open>Counts\<close>

lemma count_targets:
  "foldl count_target c ts =
    \<lparr>cc_Pending = cc_Pending c + length (filter (\<lambda>t. ct_Status t \<notin> {PushStatusApplied, PushStatusApplying, PushStatusFailed}) ts),
     cc_Applying = cc_Applying c + length (filter (\<lambda>t. ct_Status t = PushStatusApplying) ts),
     cc_Applied = cc_Applied c + length (filter (\<lambda>t. ct_Status t = PushStatusApplied) ts),
     cc_Failed = cc_Failed c + length (filter (\<lambda>t. ct_Status t = PushStatusFailed) ts)\<rparr>"
  by (induction ts arbitrary: c) (auto simp: count_target_def push_status_defs)

lemma length_filter_all: "length (filter P xs) = length xs \<longleftrightarrow> (\<forall>x \<in> set xs. P x)"
proof (induction xs)
  case (Cons x xs)
  then show ?case
    using length_filter_le [of P xs] by (auto simp del: length_filter_le)
qed simp

lemma Recount_Failed: "cc_Failed (cs_Counts (Recount c)) > 0 \<longleftrightarrow> (\<exists>t \<in> set (cs_Targets c). ct_Status t = PushStatusFailed)"
  by (auto simp: Recount_def count_targets filter_empty_conv)

lemma Recount_Applied:
  "cc_Applied (cs_Counts (Recount c)) = length (cs_Targets c) \<longleftrightarrow> (\<forall>t \<in> set (cs_Targets c). ct_Status t = PushStatusApplied)"
  by (simp add: Recount_def count_targets length_filter_all)

lemma Recount_simps [simp]:
  "cs_ID (Recount c) = cs_ID c" "cs_WorkloadID (Recount c) = cs_WorkloadID c" "cs_ConfigHash (Recount c) = cs_ConfigHash c"
  "cs_Status (Recount c) = cs_Status c" "cs_Targets (Recount c) = cs_Targets c" "cs_CreatedAt (Recount c) = cs_CreatedAt c"
  "cs_Selection (Recount c) = cs_Selection c" "cs_Actor (Recount c) = cs_Actor c" "Recount (Recount c) = Recount c"
  by (simp_all add: Recount_def)

lemma settle_simps [simp]:
  "cs_ID (settle c) = cs_ID c" "cs_WorkloadID (settle c) = cs_WorkloadID c" "cs_ConfigHash (settle c) = cs_ConfigHash c"
  "cs_Targets (settle c) = cs_Targets c" "cs_CreatedAt (settle c) = cs_CreatedAt c"
  "cs_Selection (settle c) = cs_Selection c" "cs_Actor (settle c) = cs_Actor c"
  by (simp_all add: settle_def)

section \<open>The loop as one update\<close>

text \<open>What a reconciliation makes of a row of the table.\<close>

definition write_canary :: "gotime \<Rightarrow> CanaryStatus \<Rightarrow> CanaryStatus \<Rightarrow> CanaryStatus" where
  "write_canary clock c r =
    (Recount (c\<lparr>cs_UpdatedAt := (if timeIsZero (cs_UpdatedAt c) then clock else cs_UpdatedAt c)\<rparr>))
      \<lparr>cs_ConfigHash := cs_ConfigHash r, cs_CreatedAt := cs_CreatedAt r\<rparr>"

definition write_step :: "gotime \<Rightarrow> (CanaryStatus \<Rightarrow> CanaryStatus option) \<Rightarrow> CanaryStatus \<Rightarrow> CanaryStatus \<Rightarrow> CanaryStatus" where
  "write_step clock g r c =
    (case g c of
       None \<Rightarrow> r
     | Some c' \<Rightarrow> if cs_ID r = cs_ID c' \<and> cs_WorkloadID r = cs_WorkloadID c' then write_canary clock c' r else r)"

lemma write_canary_simps [simp]:
  "cs_ID (write_canary clock c r) = cs_ID c" "cs_WorkloadID (write_canary clock c r) = cs_WorkloadID c"
  "cs_ConfigHash (write_canary clock c r) = cs_ConfigHash r" "cs_CreatedAt (write_canary clock c r) = cs_CreatedAt r"
  "cs_Targets (write_canary clock c r) = cs_Targets c" "cs_Status (write_canary clock c r) = cs_Status c"
  by (simp_all add: write_canary_def)

lemma write_step_id [simp]: "cs_ID (write_step clock g r c) = cs_ID r" "cs_WorkloadID (write_step clock g r c) = cs_WorkloadID r"
  "cs_ConfigHash (write_step clock g r c) = cs_ConfigHash r"
  by (auto simp: write_step_def split: option.splits)

lemma updates_pointwise:
  "sd_canaries (foldl (\<lambda>d c. case g c of None \<Rightarrow> d | Some c' \<Rightarrow> updateCanaryStatus clock c' d) d cs) =
    map (\<lambda>r. foldl (write_step clock g) r cs) (sd_canaries d)"
proof (induction cs arbitrary: d)
  case (Cons c cs)
  have "sd_canaries (case g c of None \<Rightarrow> d | Some c' \<Rightarrow> updateCanaryStatus clock c' d) =
      map (\<lambda>r. write_step clock g r c) (sd_canaries d)"
    by (auto simp: write_step_def updateCanaryStatus_def write_canary_def row_mod_def Let_def map_idI split: option.splits)
  with Cons show ?case
    by simp
qed simp

lemma updates_frame:
  assumes "\<And>c' d. f (updateCanaryStatus clock c' d) = f d"
  shows "f (foldl (\<lambda>d c. case g c of None \<Rightarrow> d | Some c' \<Rightarrow> updateCanaryStatus clock c' d) d cs) = f d"
proof (induction cs arbitrary: d)
  case (Cons c cs)
  then show ?case
    by (cases "g c") (simp_all add: assms)
qed simp

lemma write_step_other:
  assumes "cs_ID c \<noteq> cs_ID r" and "\<And>c'. g c = Some c' \<Longrightarrow> cs_ID c' = cs_ID c"
  shows "write_step clock g r c = r"
proof (cases "g c")
  case (Some c')
  then show ?thesis
    using assms(1) assms(2) [of c'] by (simp add: write_step_def)
qed (simp add: write_step_def)

lemma write_steps_other:
  assumes "\<And>c. c \<in> set cs \<Longrightarrow> cs_ID c \<noteq> cs_ID r" and "\<And>c c'. g c = Some c' \<Longrightarrow> cs_ID c' = cs_ID c"
  shows "foldl (write_step clock g) r cs = r"
  using assms(1)
proof (induction cs)
  case (Cons c cs)
  have "write_step clock g r c = r"
    using Cons.prems assms(2) by (intro write_step_other) auto
  with Cons show ?case
    by simp
qed simp

lemma write_steps_one:
  assumes "distinct (map cs_ID cs)" and "c \<in> set cs" and "cs_ID c = cs_ID r"
    and g: "\<And>c c'. g c = Some c' \<Longrightarrow> cs_ID c' = cs_ID c"
  shows "foldl (write_step clock g) r cs = write_step clock g r c"
  using assms(1-3)
proof (induction cs)
  case (Cons x cs)
  show ?case
  proof (cases "x = c")
    case True
    then have "cs_ID y \<noteq> cs_ID (write_step clock g r c)" if "y \<in> set cs" for y
      using Cons.prems that by (auto simp: image_iff)
    then show ?thesis
      using True write_steps_other [OF _ g] by simp
  next
    case False
    then have "c \<in> set cs" "cs_ID x \<noteq> cs_ID r"
      using Cons.prems by (auto simp: image_iff)
    then have "write_step clock g r x = r"
      using g by (intro write_step_other)
    then show ?thesis
      using Cons False \<open>c \<in> set cs\<close> by simp
  qed
qed simp

text \<open>The row a reconciliation leaves of a row of the table.\<close>

definition canary_after :: "gotime \<Rightarrow> string \<Rightarrow> string \<Rightarrow> string \<Rightarrow> string \<Rightarrow> gotime \<Rightarrow> CanaryStatus \<Rightarrow> CanaryStatus" where
  "canary_after clock workloadID configID uid status at r =
    (if active_canary workloadID configID r
     then (case reconcile_canary uid status at (Recount r) of None \<Rightarrow> r | Some c \<Rightarrow> write_canary clock c r)
     else r)"

lemma reconcile_ids:
  "reconcile_canary uid status at c = Some c' \<Longrightarrow>
    cs_ID c' = cs_ID c \<and> cs_WorkloadID c' = cs_WorkloadID c"
  by (auto simp: reconcile_canary_def)

lemma UpdateCanaryTargetStatus_rows:
  assumes "keyed cs_ID (sd_canaries d)"
  shows "sd_canaries (UpdateCanaryTargetStatus clock w c uid status at0 d) =
    map (canary_after clock w c uid status (if timeIsZero at0 then clock else at0)) (sd_canaries d)"
proof -
  let ?at = "if timeIsZero at0 then clock else at0"
  let ?g = "reconcile_canary uid status ?at"
  let ?act = "filter (active_canary w c) (sd_canaries d)"
  let ?cs = "map Recount (sort_key cs_ID ?act)"
  have ids: "cs_ID c' = cs_ID x" if "?g x = Some c'" for x c'
    using reconcile_ids that by blast
  have dist: "distinct (map cs_ID ?cs)"
  proof -
    have "map cs_ID ?cs = map cs_ID (sort_key cs_ID ?act)"
      by simp
    moreover have "distinct (map cs_ID (sort_key cs_ID ?act))"
      using assms by (auto simp: keyed_def distinct_map intro: inj_on_subset)
    ultimately show ?thesis
      by metis
  qed
  have "foldl (write_step clock ?g) r ?cs = canary_after clock w c uid status ?at r" if r: "r \<in> set (sd_canaries d)" for r
  proof (cases "active_canary w c r")
    case True
    then have "Recount r \<in> set ?cs"
      using r by simp
    then have *: "foldl (write_step clock ?g) r ?cs = write_step clock ?g r (Recount r)"
      by (rule write_steps_one [OF dist _ _ ids]) simp
    show ?thesis
    proof (cases "?g (Recount r)")
      case None
      with * True show ?thesis
        by (simp add: canary_after_def write_step_def)
    next
      case (Some c')
      with * True reconcile_ids [OF Some] show ?thesis
        by (simp add: canary_after_def write_step_def)
    qed
  next
    case False
    have "cs_ID x \<noteq> cs_ID r" if "x \<in> set ?cs" for x
    proof
      assume "cs_ID x = cs_ID r"
      moreover obtain y where y: "x = Recount y" "y \<in> set (sd_canaries d)" "active_canary w c y"
        using \<open>x \<in> set ?cs\<close> by auto
      ultimately have "y = r"
        using assms r by (auto simp: keyed_def distinct_map dest: inj_onD)
      with y False show False
        by simp
    qed
    then have "foldl (write_step clock ?g) r ?cs = r"
      using write_steps_other [OF _ ids] by blast
    with False show ?thesis
      by (simp add: canary_after_def)
  qed
  then have "map (\<lambda>r. foldl (write_step clock ?g) r ?cs) (sd_canaries d) = map (canary_after clock w c uid status ?at) (sd_canaries d)"
    by simp
  then show ?thesis
    by (simp only: UpdateCanaryTargetStatus_def Let_def activeCanariesForConfig_def updates_pointwise)
qed

section \<open>The tables stay consistent\<close>

lemma canary_after_ids [simp]:
  "cs_ID (canary_after clock w c uid status at r) = cs_ID r"
  "cs_WorkloadID (canary_after clock w c uid status at r) = cs_WorkloadID r"
  "cs_ConfigHash (canary_after clock w c uid status at r) = cs_ConfigHash r"
proof -
  have "cs_ID (canary_after clock w c uid status at r) = cs_ID r
    \<and> cs_WorkloadID (canary_after clock w c uid status at r) = cs_WorkloadID r
    \<and> cs_ConfigHash (canary_after clock w c uid status at r) = cs_ConfigHash r"
  proof (cases "reconcile_canary uid status at (Recount r)")
    case (Some c')
    then show ?thesis
      using reconcile_ids [OF Some] by (simp add: canary_after_def)
  qed (simp add: canary_after_def)
  then show "cs_ID (canary_after clock w c uid status at r) = cs_ID r"
    "cs_WorkloadID (canary_after clock w c uid status at r) = cs_WorkloadID r"
    "cs_ConfigHash (canary_after clock w c uid status at r) = cs_ConfigHash r"
    by simp_all
qed

lemma UpdateCanaryTargetStatus_frame:
  "sd_configs (UpdateCanaryTargetStatus clock w c uid st at d) = sd_configs d"
  "sd_workloads (UpdateCanaryTargetStatus clock w c uid st at d) = sd_workloads d"
  "sd_attributes (UpdateCanaryTargetStatus clock w c uid st at d) = sd_attributes d"
  "sd_events (UpdateCanaryTargetStatus clock w c uid st at d) = sd_events d"
  "sd_next_event (UpdateCanaryTargetStatus clock w c uid st at d) = sd_next_event d"
  "sd_history (UpdateCanaryTargetStatus clock w c uid st at d) = sd_history d"
  "sd_known_good (UpdateCanaryTargetStatus clock w c uid st at d) = sd_known_good d"
  "sd_approvals (UpdateCanaryTargetStatus clock w c uid st at d) = sd_approvals d"
  "sd_alerts (UpdateCanaryTargetStatus clock w c uid st at d) = sd_alerts d"
  unfolding UpdateCanaryTargetStatus_def Let_def by (rule updates_frame, simp add: updateCanaryStatus_def)+

text \<open>Any change of canary rows that keeps their keys.\<close>

lemma canaries_inv:
  assumes inv: "store_inv d"
    and same: "sd_configs d' = sd_configs d" "sd_workloads d' = sd_workloads d" "sd_attributes d' = sd_attributes d"
      "sd_events d' = sd_events d" "sd_next_event d' = sd_next_event d" "sd_history d' = sd_history d"
      "sd_known_good d' = sd_known_good d" "sd_approvals d' = sd_approvals d" "sd_alerts d' = sd_alerts d"
    and keyed: "keyed cs_ID (sd_canaries d')"
    and refs: "\<And>c. c \<in> set (sd_canaries d') \<Longrightarrow> has_workload d (cs_WorkloadID c) \<and> has_config d (cs_ConfigHash c)"
  shows "store_inv d'"
proof -
  have "keys_ok d'"
    using inv same keyed by (simp add: store_inv_def keys_ok_def)
  moreover have "refs_ok d'"
    using inv same refs by (simp add: store_inv_def refs_ok_def event_row_checks_def history_checks_def)
  ultimately show ?thesis
    using inv same workloads_ok_cong [of d' d] attributes_ok_cong [of d' d] by (simp add: store_inv_def)
qed

lemma UpdateCanaryTargetStatus_inv [inv_intros]:
  assumes inv: "store_inv d"
  shows "store_inv (UpdateCanaryTargetStatus clock w c uid st at d)"
proof (rule canaries_inv [OF inv])
  have k: "keyed cs_ID (sd_canaries d)"
    using inv by (simp add: store_inv_def keys_ok_def)
  show "keyed cs_ID (sd_canaries (UpdateCanaryTargetStatus clock w c uid st at d))"
    using k by (simp add: UpdateCanaryTargetStatus_rows keyed_def comp_def)
  show "has_workload d (cs_WorkloadID x) \<and> has_config d (cs_ConfigHash x)"
    if "x \<in> set (sd_canaries (UpdateCanaryTargetStatus clock w c uid st at d))" for x
    using inv that by (auto simp: UpdateCanaryTargetStatus_rows [OF k] store_inv_def refs_ok_def)
qed (simp_all add: UpdateCanaryTargetStatus_frame)

lemma updateCanaryStatus_inv [inv_intros]:
  assumes inv: "store_inv d"
  shows "store_inv (updateCanaryStatus clock s d)"
proof (rule canaries_inv [OF inv])
  show "keyed cs_ID (sd_canaries (updateCanaryStatus clock s d))"
    using inv by (auto simp: updateCanaryStatus_def Let_def store_inv_def keys_ok_def intro!: keyed_row_mod)
  show "has_workload d (cs_WorkloadID c) \<and> has_config d (cs_ConfigHash c)"
    if c: "c \<in> set (sd_canaries (updateCanaryStatus clock s d))" for c
  proof -
    obtain r where "r \<in> set (sd_canaries d)" "cs_WorkloadID c = cs_WorkloadID r" "cs_ConfigHash c = cs_ConfigHash r"
      using c by (auto simp: updateCanaryStatus_def Let_def row_mod_def)
    then show ?thesis
      using inv by (simp add: store_inv_def refs_ok_def)
  qed
qed (simp_all add: updateCanaryStatus_def)

lemma CreateCanaryStatus_inv [inv_intros]:
  assumes inv: "store_inv d" and "CreateCanaryStatus clock s d = Inr d'"
  shows "store_inv d'"
  by (rule canaries_inv [OF inv])
    (use assms in \<open>auto simp: CreateCanaryStatus_def Let_def store_inv_def keys_ok_def refs_ok_def keyed_snoc split: if_splits\<close>)

section \<open>Properties\<close>

lemma retarget_None: "retarget uid status at ts = None \<longleftrightarrow> uid \<notin> ct_InstanceUID ` set ts"
  by (induction ts) auto

lemma retarget_Some:
  "retarget uid status at ts = Some ts' \<Longrightarrow>
    map ct_InstanceUID ts' = map ct_InstanceUID ts \<and> (\<exists>t \<in> set ts'. ct_InstanceUID t = uid \<and> ct_Status t = status)"
  by (induction ts arbitrary: ts') (auto split: if_splits)

lemma settle_status:
  assumes "cs_Targets c \<noteq> []"
  shows "cs_Status (settle (Recount c)) =
    (if \<exists>t \<in> set (cs_Targets c). ct_Status t = PushStatusFailed then CanaryStatusStopped
     else if \<forall>t \<in> set (cs_Targets c). ct_Status t = PushStatusApplied then CanaryStatusSucceeded
     else CanaryStatusRunning)"
  using assms Recount_Failed [of c] Recount_Applied [of c] by (simp add: settle_def)

text \<open>
  C32: When a collector reports the status of a configuration, exactly the canaries of that workload and
  configuration that are running or succeeded and have the instance as a target change: the target
  takes the reported status, and the canary becomes stopped as soon as a target failed, succeeded
  when all targets applied, and running otherwise. Promoted, aborted, stopped and rolled back
  canaries, and those of other workloads and configurations, keep their rows.
\<close>

theorem canary_reconciliation:
  assumes "store_inv d" and "r \<in> set (sd_canaries d)"
  shows "\<exists>r'. r' \<in> set (sd_canaries (UpdateCanaryTargetStatus clock w c uid status at d)) \<and> cs_ID r' = cs_ID r \<and>
    (if active_canary w c r \<and> uid \<in> ct_InstanceUID ` set (cs_Targets r)
     then map ct_InstanceUID (cs_Targets r') = map ct_InstanceUID (cs_Targets r)
       \<and> (\<exists>t \<in> set (cs_Targets r'). ct_InstanceUID t = uid \<and> ct_Status t = status)
       \<and> cs_Status r' =
          (if \<exists>t \<in> set (cs_Targets r'). ct_Status t = PushStatusFailed then CanaryStatusStopped
           else if \<forall>t \<in> set (cs_Targets r'). ct_Status t = PushStatusApplied then CanaryStatusSucceeded
           else CanaryStatusRunning)
     else r' = r)"
proof -
  have k: "keyed cs_ID (sd_canaries d)"
    using assms by (simp add: store_inv_def keys_ok_def)
  let ?at = "if timeIsZero at then clock else at"
  let ?r = "canary_after clock w c uid status ?at r"
  have mem: "?r \<in> set (sd_canaries (UpdateCanaryTargetStatus clock w c uid status at d))"
    using assms(2) by (simp add: UpdateCanaryTargetStatus_rows [OF k])
  show ?thesis
  proof (cases "active_canary w c r \<and> uid \<in> ct_InstanceUID ` set (cs_Targets r)")
    case True
    then obtain ts where ts: "retarget uid status ?at (cs_Targets r) = Some ts"
      using retarget_None [of uid status ?at "cs_Targets r"] by auto
    define c0 where "c0 = (Recount r)\<lparr>cs_Targets := ts, cs_UpdatedAt := ?at\<rparr>"
    have r: "?r = write_canary clock (settle (Recount c0)) r"
      using True ts by (simp add: canary_after_def reconcile_canary_def c0_def)
    have "ts \<noteq> []"
      using retarget_Some [OF ts] by auto
    then show ?thesis
      using True mem retarget_Some [OF ts] settle_status [of c0] by (intro exI [of _ ?r]) (simp add: r c0_def)
  next
    case False
    then have "?r = r"
      using retarget_None [of uid status ?at "cs_Targets r"]
      by (auto simp: canary_after_def reconcile_canary_def)
    then show ?thesis
      using False mem by (intro exI [of _ ?r]) auto
  qed
qed

text \<open>One canary with two targets: the first has applied, the second reports a failure.\<close>

definition demo_target :: "string \<Rightarrow> string \<Rightarrow> CanaryTarget" where
  "demo_target uid st = \<lparr>ct_InstanceUID = uid, ct_PodName = [], ct_Status = st, ct_StopReason = [], ct_UpdatedAt = 1\<rparr>"

definition demo_canary :: CanaryStatus where
  "demo_canary = \<lparr>cs_ID = ''c1'', cs_WorkloadID = ''w1'', cs_ConfigHash = ''h1'', cs_Status = CanaryStatusRunning,
     cs_Selection = \<lparr>sl_Strategy = ''count'', sl_InstanceUID = [], sl_InstanceUIDs = [], sl_Count = 2, sl_Percentage = 0, sl_Labels = []\<rparr>,
     cs_Targets = [demo_target ''u1'' ''applied'', demo_target ''u2'' ''sent''],
     cs_Counts = \<lparr>cc_Pending = 1, cc_Applying = 0, cc_Applied = 1, cc_Failed = 0\<rparr>, cs_StopReasons = [], cs_Actor = [],
     cs_CreatedAt = 1, cs_UpdatedAt = 1, cs_PromotedAt = None, cs_AbortedAt = None, cs_RolledBackAt = None\<rparr>"

definition demo_config :: "string \<Rightarrow> string \<Rightarrow> Config" where
  "demo_config ident content = \<lparr>cf_ID = ident, cf_Name = ''n'', cf_Content = content, cf_CreatedAt = 1, cf_CreatedBy = [], cf_Kind = ''saved'',
     cf_Status = ''ready'', cf_Category = [], cf_Stack = [], cf_Description = [], cf_Variables = [], cf_Tags = [],
     cf_BuiltIn = False, cf_SourceType = ''manual'', cf_GitURL = [], cf_GitProvider = [], cf_GitRef = [], cf_GitPath = [],
     cf_CommitSHA = [], cf_ImportedAt = None\<rparr>"

definition demo_workload :: "string \<Rightarrow> Workload" where
  "demo_workload ident = \<lparr>wl_ID = ident, wl_FingerprintSource = ''uid'', wl_FingerprintKeys = [(''instance_uid'', ''u1'')],
     wl_DisplayName = ''svc'', wl_Type = ''collector'', wl_Version = ''0.100.0'', wl_Status = ''connected'', wl_LastSeenAt = 5,
     wl_Labels = [], wl_ActiveConfigID = None, wl_ActiveConfigHash = [], wl_RemoteConfigStatus = None, wl_CurrentConfigPush = None,
     wl_AvailableComponents = None, wl_AcceptsRemoteConfig = True, wl_RetentionUntil = None, wl_ArchivedAt = None\<rparr>"

definition demo_store :: store_db where
  "demo_store = empty_store\<lparr>sd_configs := [demo_config ''h1'' ''receivers:''], sd_workloads := [demo_workload ''w1''],
     sd_attributes := workload_projection (demo_workload ''w1''), sd_canaries := [demo_canary]\<rparr>"

lemma demo_store_inv: "store_inv demo_store"
  by (simp add: store_inv_def keys_ok_def workloads_ok_def refs_ok_def attributes_ok_def demo_store_def empty_store_def keyed_def
      workload_checks_def demo_workload_def demo_config_def demo_canary_def mwf_def)

lemma canary_reconciliation_witness:
  "store_inv demo_store \<and> demo_canary \<in> set (sd_canaries demo_store) \<and>
    (\<exists>r'. r' \<in> set (sd_canaries (UpdateCanaryTargetStatus 9 ''w1'' ''h1'' ''u2'' ''failed'' 7 demo_store)) \<and> cs_Status r' = CanaryStatusStopped)"
proof -
  have mem: "demo_canary \<in> set (sd_canaries demo_store)"
    by (simp add: demo_store_def)
  have act: "active_canary ''w1'' ''h1'' demo_canary \<and> ''u2'' \<in> ct_InstanceUID ` set (cs_Targets demo_canary)"
    by (simp add: active_canary_def demo_canary_def demo_target_def)
  obtain r' where r': "r' \<in> set (sd_canaries (UpdateCanaryTargetStatus 9 ''w1'' ''h1'' ''u2'' PushStatusFailed 7 demo_store))"
    and t: "\<exists>t \<in> set (cs_Targets r'). ct_InstanceUID t = ''u2'' \<and> ct_Status t = PushStatusFailed"
    and st: "cs_Status r' = (if \<exists>t \<in> set (cs_Targets r'). ct_Status t = PushStatusFailed then CanaryStatusStopped
           else if \<forall>t \<in> set (cs_Targets r'). ct_Status t = PushStatusApplied then CanaryStatusSucceeded
           else CanaryStatusRunning)"
    using canary_reconciliation [OF demo_store_inv mem, of 9 "''w1''" "''h1''" "''u2''" PushStatusFailed 7]
    unfolding if_P [OF act] by (elim exE conjE) (rule that; assumption)
  have "cs_Status r' = CanaryStatusStopped"
    unfolding st using t by auto
  then show ?thesis
    using demo_store_inv mem r' by (auto simp: PushStatusFailed_def)
qed

end
