(* ===== verification/Config_History.thy ===== *)
theory Config_History
  imports Canary_Store
begin

text \<open>
  The history of configuration pushes and the known-good pointers,
  \<open>internal/store/workload_configs.go\<close>. Reads give hydrated pushes: \<open>clock\<close> is what
  \<open>time.Now()\<close> returns. Transactions that read before they write take two databases, the one
  their reads see and the one their write meets.
\<close>

section \<open>Writing the history\<close>

definition nullIfEmpty :: "string \<Rightarrow> string option" where
  "nullIfEmpty s = (if s = [] then None else Some s)"

definition orEmpty :: "string option \<Rightarrow> string" where
  "orEmpty v = (case v of None \<Rightarrow> [] | Some s \<Rightarrow> s)"

definition RecordWorkloadConfig :: "gotime \<Rightarrow> WorkloadConfig \<Rightarrow> store_db \<Rightarrow> db_error + store_db" where
  "RecordWorkloadConfig clock wc d =
    (let t = (if timeIsZero (wc_AppliedAt wc) then clock else wc_AppliedAt wc);
         submittedAt = (if timeIsZero (wc_SubmittedAt wc) then t else wc_SubmittedAt wc);
         row = \<lparr>hr_workload_id = wc_WorkloadID wc, hr_config_id = wc_ConfigID wc, hr_applied_at = t,
           hr_status = (if wc_Status wc = [] \<or> wc_Status wc = ''pending'' then PushStatusSubmitted else wc_Status wc),
           hr_error_message = nullIfEmpty (SanitizeRemoteConfigErrorMessage (wc_ErrorMessage wc)),
           hr_pushed_by = nullIfEmpty (wc_PushedBy wc), hr_label = None, hr_push_id = wc_PushID wc,
           hr_submitted_at = Some submittedAt, hr_sent_at = wc_SentAt wc,
           hr_timeout_at = (case wc_OpAMPStatusTimeoutAt wc of None \<Rightarrow> Some (timeAdd submittedAt (30 * second)) | Some x \<Rightarrow> Some x),
           hr_rollback_of = wc_RollbackOfPushID wc,
           hr_instances = map (\<lambda>i. i\<lparr>is_ErrorMessage := SanitizeRemoteConfigErrorMessage (is_ErrorMessage i)\<rparr>) (wc_InstanceStatuses wc)\<rparr>
     in if \<not> history_checks d row \<or> history_key row \<in> history_key ` set (sd_history d) then Inl ConstraintViolated
        else Inr (d\<lparr>sd_history := sd_history d @ [row]\<rparr>))"

text \<open>The rows \<open>WHERE workload_id = ? AND config_id = ?\<close>, and the newest of them.\<close>

definition pushes_of :: "store_db \<Rightarrow> string \<Rightarrow> string \<Rightarrow> history_row list" where
  "pushes_of d workloadID configID =
    filter (\<lambda>r. hr_workload_id r = workloadID \<and> hr_config_id r = configID) (sd_history d)"

definition latest_push :: "store_db \<Rightarrow> string \<Rightarrow> string \<Rightarrow> history_row \<Rightarrow> bool" where
  "latest_push d workloadID configID r \<longleftrightarrow>
    hr_workload_id r = workloadID \<and> hr_config_id r = configID
    \<and> list_all (\<lambda>x. hr_applied_at x \<le> hr_applied_at r) (pushes_of d workloadID configID)"

definition MarkWorkloadConfigSent :: "string \<Rightarrow> string \<Rightarrow> gotime \<Rightarrow> store_db \<Rightarrow> store_db" where
  "MarkWorkloadConfigSent workloadID configID sentAt d =
    d\<lparr>sd_history := row_mod (latest_push d workloadID configID)
       (\<lambda>r. r\<lparr>hr_status := PushStatusSent, hr_sent_at := Some sentAt\<rparr>) (sd_history d)\<rparr>"

text \<open>A status outside the CHECK is refused when there is a row to update.\<close>

definition UpdateWorkloadConfigStatus :: "string \<Rightarrow> string \<Rightarrow> string \<Rightarrow> string \<Rightarrow> store_db \<Rightarrow> db_error + store_db" where
  "UpdateWorkloadConfigStatus workloadID configID status errorMessage d =
    (if status \<notin> set history_statuses \<and> pushes_of d workloadID configID \<noteq> [] then Inl ConstraintViolated
     else Inr (d\<lparr>sd_history := row_mod (latest_push d workloadID configID)
       (\<lambda>r. r\<lparr>hr_status := status, hr_error_message := nullIfEmpty (SanitizeRemoteConfigErrorMessage errorMessage)\<rparr>)
       (sd_history d)\<rparr>))"

section \<open>Reading a push\<close>

definition config_content :: "store_db \<Rightarrow> string \<Rightarrow> string" where
  "config_content d configID = (case row_get cf_ID configID (sd_configs d) of None \<Rightarrow> [] | Some c \<Rightarrow> cf_Content c)"

definition latest_update :: "gotime \<Rightarrow> WorkloadConfigInstanceStatus list \<Rightarrow> gotime" where
  "latest_update t is = foldl (\<lambda>t i. if is_UpdatedAt i > t then is_UpdatedAt i else t) t is"

text \<open>The columns of a row before hydration.\<close>

definition scan_columns :: "store_db \<Rightarrow> history_row \<Rightarrow> WorkloadConfig" where
  "scan_columns d r =
    \<lparr>wc_WorkloadID = hr_workload_id r, wc_ConfigID = hr_config_id r, wc_ConfigHash = [], wc_AppliedAt = hr_applied_at r,
     wc_Status = hr_status r, wc_ErrorMessage = orEmpty (hr_error_message r), wc_PushedBy = orEmpty (hr_pushed_by r),
     wc_Content = config_content d (hr_config_id r), wc_Label = hr_label r, wc_PushID = hr_push_id r,
     wc_SubmittedAt = (case hr_submitted_at r of None \<Rightarrow> hr_applied_at r | Some t \<Rightarrow> t), wc_SentAt = hr_sent_at r,
     wc_UpdatedAt = latest_update (hr_applied_at r) (hr_instances r), wc_OpAMPStatusTimeoutAt = hr_timeout_at r,
     wc_TimedOutWaiting = False, wc_TimeoutMessage = [], wc_RollbackOfPushID = hr_rollback_of r, wc_Timeline = [],
     wc_InstanceStatuses = hr_instances r, wc_TargetCount = 0, wc_AppliedCount = 0, wc_FailedCount = 0, wc_PendingCount = 0,
     wc_TimedOutCount = 0, wc_NoStatusCount = 0, wc_ErrorGroups = [], wc_IsCurrent = False, wc_IsPrevious = False,
     wc_IsLastKnownGood = False, wc_IsFailedCandidate = False, wc_ContentAvailable = False\<rparr>"

definition scanWorkloadConfig :: "gotime \<Rightarrow> store_db \<Rightarrow> history_row \<Rightarrow> WorkloadConfig" where
  "scanWorkloadConfig clock d r = HydratePushStatus clock clock (scan_columns d r)"

definition getOneWorkloadConfig :: "gotime \<Rightarrow> store_db \<Rightarrow> (history_row \<Rightarrow> bool) \<Rightarrow> WorkloadConfig option" where
  "getOneWorkloadConfig clock d P = map_option (scanWorkloadConfig clock d) (newest hr_applied_at (filter P (sd_history d)))"

definition GetLatestPendingWorkloadConfig :: "gotime \<Rightarrow> store_db \<Rightarrow> string \<Rightarrow> WorkloadConfig option" where
  "GetLatestPendingWorkloadConfig clock d workloadID =
    getOneWorkloadConfig clock d (\<lambda>r. hr_workload_id r = workloadID
      \<and> hr_status r \<in> {''pending'', ''submitted'', ''sent'', ''applying'', ''rollback_started''})"

definition GetLatestWorkloadConfig :: "gotime \<Rightarrow> store_db \<Rightarrow> string \<Rightarrow> WorkloadConfig option" where
  "GetLatestWorkloadConfig clock d workloadID = getOneWorkloadConfig clock d (\<lambda>r. hr_workload_id r = workloadID)"

definition GetLatestWorkloadConfigByHash :: "gotime \<Rightarrow> store_db \<Rightarrow> string \<Rightarrow> string \<Rightarrow> WorkloadConfig option" where
  "GetLatestWorkloadConfigByHash clock d workloadID configID =
    getOneWorkloadConfig clock d (\<lambda>r. hr_workload_id r = workloadID \<and> hr_config_id r = configID)"

definition GetWorkloadConfigByHash :: "gotime \<Rightarrow> store_db \<Rightarrow> string \<Rightarrow> string \<Rightarrow> WorkloadConfig option" where
  "GetWorkloadConfigByHash clock d workloadID hash = GetLatestWorkloadConfigByHash clock d workloadID hash"

definition GetLastAppliedWorkloadConfig :: "gotime \<Rightarrow> store_db \<Rightarrow> string \<Rightarrow> WorkloadConfig option" where
  "GetLastAppliedWorkloadConfig clock d workloadID =
    getOneWorkloadConfig clock d (\<lambda>r. hr_workload_id r = workloadID \<and> hr_status r = ''applied'')"

text \<open>This query selects seven columns and does not hydrate.\<close>

definition GetLatestPendingOrApplyingWorkloadConfig :: "store_db \<Rightarrow> string \<Rightarrow> WorkloadConfig option" where
  "GetLatestPendingOrApplyingWorkloadConfig d workloadID =
    map_option
      (\<lambda>r. (scan_columns d r)\<lparr>wc_Content := [], wc_PushID := [], wc_SubmittedAt := 0, wc_SentAt := None, wc_UpdatedAt := 0,
         wc_OpAMPStatusTimeoutAt := None, wc_RollbackOfPushID := [], wc_InstanceStatuses := []\<rparr>)
      (newest hr_applied_at (filter (\<lambda>r. hr_workload_id r = workloadID
         \<and> hr_status r \<in> {''pending'', ''submitted'', ''sent'', ''applying''}) (sd_history d)))"

section \<open>The status of one instance\<close>

text \<open>The instance is updated where it is, or added.\<close>

fun merge_instance :: "string \<Rightarrow> string \<Rightarrow> string \<Rightarrow> gotime \<Rightarrow> string \<Rightarrow> WorkloadConfigInstanceStatus list \<Rightarrow> WorkloadConfigInstanceStatus list" where
  "merge_instance configID uid status at msg [] =
    [\<lparr>is_InstanceUID = uid, is_PodName = [], is_Node = [], is_Required = True, is_Status = status, is_ConfigHash = configID,
      is_UpdatedAt = at, is_ErrorCause = [], is_ErrorMessage = msg, is_TimedOut = False\<rparr>]"
| "merge_instance configID uid status at msg (i # is) =
    (if is_InstanceUID i = uid
     then i\<lparr>is_Status := status, is_ConfigHash := configID, is_UpdatedAt := at, is_ErrorMessage := msg, is_ErrorCause := []\<rparr> # is
     else i # merge_instance configID uid status at msg is)"

text \<open>The transaction on the history; \<open>None\<close> when the configuration was never pushed.\<close>

definition merge_instance_status ::
    "gotime \<Rightarrow> string \<Rightarrow> string \<Rightarrow> string \<Rightarrow> string \<Rightarrow> string \<Rightarrow> gotime \<Rightarrow> store_db \<Rightarrow> (db_error + store_db) option" where
  "merge_instance_status clock workloadID configID instanceUID status errorMessage updatedAt0 d =
    map_option
      (\<lambda>r. let updatedAt = (if timeIsZero updatedAt0 then clock else updatedAt0);
               wc = scanWorkloadConfig clock d r;
               wc = wc\<lparr>wc_InstanceStatuses := merge_instance configID instanceUID status updatedAt errorMessage (wc_InstanceStatuses wc)\<rparr>;
               wc = HydratePushStatus clock updatedAt wc
           in if wc_Status wc \<notin> set history_statuses then Inl ConstraintViolated
              else Inr (d\<lparr>sd_history := row_mod (\<lambda>x. history_key x = history_key r)
                (\<lambda>x. x\<lparr>hr_status := wc_Status wc, hr_error_message := nullIfEmpty errorMessage, hr_instances := wc_InstanceStatuses wc\<rparr>)
                (sd_history d)\<rparr>))
      (newest hr_applied_at (pushes_of d workloadID configID))"

definition UpdateWorkloadConfigInstanceStatus ::
    "gotime \<Rightarrow> string \<Rightarrow> string \<Rightarrow> string \<Rightarrow> string \<Rightarrow> string \<Rightarrow> gotime \<Rightarrow> store_db \<Rightarrow> db_error + store_db" where
  "UpdateWorkloadConfigInstanceStatus clock workloadID configID instanceUID status errorMessage updatedAt d =
    (case merge_instance_status clock workloadID configID instanceUID status (SanitizeRemoteConfigErrorMessage errorMessage) updatedAt d of
       Some (Inl e) \<Rightarrow> Inl e
     | Some (Inr d') \<Rightarrow> Inr (UpdateCanaryTargetStatus clock workloadID configID instanceUID status updatedAt d')
     | None \<Rightarrow> Inr (UpdateCanaryTargetStatus clock workloadID configID instanceUID status updatedAt d))"

section \<open>Labels\<close>

definition SetWorkloadConfigLabel :: "string \<Rightarrow> string \<Rightarrow> string \<Rightarrow> store_db \<Rightarrow> db_error + store_db" where
  "SetWorkloadConfigLabel workloadID hash label d =
    (if pushes_of d workloadID hash = [] then Inl NoRows
     else Inr (d\<lparr>sd_history := row_mod (\<lambda>r. hr_workload_id r = workloadID \<and> hr_config_id r = hash)
       (\<lambda>r. r\<lparr>hr_label := nullIfEmpty label\<rparr>) (sd_history d)\<rparr>))"

section \<open>The known-good pointer\<close>

record WorkloadKnownGoodConfig =
  wk_WorkloadID :: string
  wk_ConfigID :: string
  wk_MarkedAt :: gotime
  wk_MarkedBy :: string
  wk_SourceAppliedAt :: "gotime option"
  wk_ReplacedConfigID :: string
  wk_ReplaceReason :: string
  wk_ContentAvailable :: bool

record SetKnownGoodResult =
  kr_Changed :: bool
  kr_ReplacedConfigID :: string
  kr_PreconditionFailed :: bool
  kr_CurrentConfigID :: string

definition known_good_view :: "bool \<Rightarrow> known_good_row \<Rightarrow> WorkloadKnownGoodConfig" where
  "known_good_view available k =
    \<lparr>wk_WorkloadID = kg_workload_id k, wk_ConfigID = kg_config_id k, wk_MarkedAt = kg_marked_at k,
     wk_MarkedBy = orEmpty (kg_marked_by k), wk_SourceAppliedAt = kg_source_applied_at k,
     wk_ReplacedConfigID = orEmpty (kg_replaced_config_id k), wk_ReplaceReason = orEmpty (kg_replace_reason k),
     wk_ContentAvailable = available\<rparr>"

definition GetWorkloadKnownGood :: "store_db \<Rightarrow> string \<Rightarrow> WorkloadKnownGoodConfig option" where
  "GetWorkloadKnownGood d workloadID =
    map_option (\<lambda>k. known_good_view (config_content d (kg_config_id k) \<noteq> []) k)
      (row_get kg_workload_id workloadID (sd_known_good d))"

definition getWorkloadKnownGoodTx :: "store_db \<Rightarrow> string \<Rightarrow> WorkloadKnownGoodConfig option" where
  "getWorkloadKnownGoodTx d workloadID =
    map_option (\<lambda>k. known_good_view (config_content d (kg_config_id k) \<noteq> []) k)
      (row_get kg_workload_id workloadID (sd_known_good d))"

definition GetLatestKnownGoodWorkloadConfig :: "gotime \<Rightarrow> store_db \<Rightarrow> string \<Rightarrow> WorkloadConfig option" where
  "GetLatestKnownGoodWorkloadConfig clock d workloadID =
    (case GetWorkloadKnownGood d workloadID of
       None \<Rightarrow> None
     | Some kg \<Rightarrow> GetWorkloadConfigByHash clock d workloadID (wk_ConfigID kg))"

definition preconditionConflicts :: "string \<Rightarrow> string \<Rightarrow> string option \<Rightarrow> bool \<Rightarrow> bool" where
  "preconditionConflicts currentID targetID ifCurrent force =
    (if force then False
     else case ifCurrent of
       Some c \<Rightarrow> c \<noteq> currentID
     | None \<Rightarrow> currentID \<noteq> [] \<and> currentID \<noteq> targetID)"

definition valueOrEmpty :: "string option \<Rightarrow> string" where
  "valueOrEmpty v = (case v of None \<Rightarrow> [] | Some s \<Rightarrow> s)"

text \<open>The checks of the transaction on the database its reads see: the time of the applied push it rests on.\<close>

definition known_good_source :: "store_db \<Rightarrow> string \<Rightarrow> string \<Rightarrow> db_error + gotime" where
  "known_good_source d workloadID configID =
    (case row_get wl_ID workloadID (sd_workloads d) of
       None \<Rightarrow> Inl NoRows
     | Some w \<Rightarrow>
         if wl_ArchivedAt w \<noteq> None then Inl (DbMessage ''workload archived'')
         else case newest hr_applied_at (filter (\<lambda>r. hr_workload_id r = workloadID \<and> hr_config_id r = configID
                \<and> hr_status r = ''applied'' \<and> has_config d configID) (sd_history d)) of
           None \<Rightarrow> Inl (DbMessage ''known-good config must exist in applied history'')
         | Some r \<Rightarrow>
             if config_content d configID = [] then Inl (DbMessage ''config content unavailable'')
             else Inr (hr_applied_at r))"

text \<open>
  The statement \<open>INSERT \<dots> ON CONFLICT(workload_id) DO UPDATE \<dots> WHERE\<close>; the result tells
  how many rows it affected.
\<close>

definition upsert_known_good :: "known_good_row \<Rightarrow> bool \<Rightarrow> string \<Rightarrow> store_db \<Rightarrow> nat \<times> store_db" where
  "upsert_known_good row force ifCurrent d =
    (case row_get kg_workload_id (kg_workload_id row) (sd_known_good d) of
       None \<Rightarrow> (1, d\<lparr>sd_known_good := sd_known_good d @ [row]\<rparr>)
     | Some k \<Rightarrow>
         if force \<or> kg_config_id k = ifCurrent \<or> kg_config_id k = kg_config_id row
         then (1, d\<lparr>sd_known_good := row_put kg_workload_id row (sd_known_good d)\<rparr>)
         else (0, d))"

type_synonym known_good_answer = "db_error + WorkloadKnownGoodConfig option \<times> SetKnownGoodResult"

definition no_result :: SetKnownGoodResult where
  "no_result = \<lparr>kr_Changed = False, kr_ReplacedConfigID = [], kr_PreconditionFailed = False, kr_CurrentConfigID = []\<rparr>"

text \<open>The write of the transaction and what follows it. The foreign keys are checked when a row is written.\<close>

definition write_known_good :: "known_good_row \<Rightarrow> string option \<Rightarrow> bool \<Rightarrow> string \<Rightarrow> store_db \<Rightarrow> known_good_answer \<times> store_db" where
  "write_known_good row ifCurrent force currentID d =
    (if kg_config_id row = [] then (Inl ConstraintViolated, d)
     else case upsert_known_good row force (valueOrEmpty ifCurrent) d of
       (n, d') \<Rightarrow>
         if n = 0
         then (Inr (None, no_result\<lparr>kr_PreconditionFailed := True,
                kr_CurrentConfigID := (case getWorkloadKnownGoodTx d' (kg_workload_id row) of None \<Rightarrow> [] | Some k \<Rightarrow> wk_ConfigID k)\<rparr>), d')
         else if \<not> has_workload d (kg_workload_id row) \<or> \<not> has_config d (kg_config_id row) then (Inl ConstraintViolated, d)
         else (Inr (GetWorkloadKnownGood d' (kg_workload_id row), no_result\<lparr>kr_ReplacedConfigID := currentID, kr_Changed := True\<rparr>), d'))"

text \<open>\<open>d0\<close> is the database the reads of the transaction see, \<open>d\<close> the one its write meets.\<close>

definition SetWorkloadKnownGoodWithPrecondition ::
    "gotime \<Rightarrow> string \<Rightarrow> string \<Rightarrow> string \<Rightarrow> string \<Rightarrow> string option \<Rightarrow> bool \<Rightarrow> store_db \<Rightarrow> store_db
      \<Rightarrow> known_good_answer \<times> store_db" where
  "SetWorkloadKnownGoodWithPrecondition clock workloadID configID markedBy replaceReason ifCurrent force d0 d =
    (case known_good_source d0 workloadID configID of
       Inl e \<Rightarrow> (Inl e, d)
     | Inr sourceAppliedAt \<Rightarrow>
         (let existing = row_get kg_workload_id workloadID (sd_known_good d0);
              currentID = (case existing of None \<Rightarrow> [] | Some k \<Rightarrow> kg_config_id k)
          in if preconditionConflicts currentID configID ifCurrent force
             then (Inr (None, no_result\<lparr>kr_PreconditionFailed := True, kr_CurrentConfigID := currentID\<rparr>), d)
             else if existing \<noteq> None \<and> currentID = configID
             then (Inr (map_option (known_good_view True) existing, no_result), d)
             else write_known_good
               \<lparr>kg_workload_id = workloadID, kg_config_id = configID, kg_marked_at = clock,
                kg_marked_by = nullIfEmpty markedBy, kg_source_applied_at = Some sourceAppliedAt,
                kg_replaced_config_id = nullIfEmpty currentID, kg_replace_reason = nullIfEmpty replaceReason\<rparr>
               ifCurrent force currentID d))"

definition SetWorkloadKnownGood ::
    "gotime \<Rightarrow> string \<Rightarrow> string \<Rightarrow> string \<Rightarrow> string \<Rightarrow> store_db \<Rightarrow> store_db
      \<Rightarrow> known_good_answer \<times> store_db" where
  "SetWorkloadKnownGood clock workloadID configID markedBy replaceReason d0 d =
    SetWorkloadKnownGoodWithPrecondition clock workloadID configID markedBy replaceReason None True d0 d"

definition ClearWorkloadKnownGood :: "string \<Rightarrow> store_db \<Rightarrow> WorkloadKnownGoodConfig option \<times> store_db" where
  "ClearWorkloadKnownGood workloadID d =
    (GetWorkloadKnownGood d workloadID, d\<lparr>sd_known_good := row_del (\<lambda>k. kg_workload_id k = workloadID) (sd_known_good d)\<rparr>)"

definition IsConfigKnownGoodProtected :: "store_db \<Rightarrow> string \<Rightarrow> bool" where
  "IsConfigKnownGoodProtected d configID = (row_count (\<lambda>k. kg_config_id k = configID) (sd_known_good d) > 0)"

section \<open>Rollback targets\<close>

record RollbackTarget =
  rt_Kind :: string
  rt_Config :: WorkloadConfig

text \<open>Eight columns, not hydrated.\<close>

definition GetPreviousAppliedWorkloadConfig :: "store_db \<Rightarrow> string \<Rightarrow> string \<Rightarrow> WorkloadConfig option" where
  "GetPreviousAppliedWorkloadConfig d workloadID excludeHash =
    map_option
      (\<lambda>r. (scan_columns d r)\<lparr>wc_PushID := [], wc_SubmittedAt := 0, wc_SentAt := None, wc_UpdatedAt := 0,
         wc_OpAMPStatusTimeoutAt := None, wc_RollbackOfPushID := [], wc_InstanceStatuses := [],
         wc_ContentAvailable := config_content d (hr_config_id r) \<noteq> []\<rparr>)
      (newest hr_applied_at (filter (\<lambda>r. hr_workload_id r = workloadID \<and> hr_status r = ''applied'' \<and> hr_config_id r \<noteq> excludeHash)
         (sd_history d)))"

definition GetRollbackTarget :: "gotime \<Rightarrow> store_db \<Rightarrow> string \<Rightarrow> string \<Rightarrow> RollbackTarget option" where
  "GetRollbackTarget clock d workloadID excludeHash =
    (case GetLatestKnownGoodWorkloadConfig clock d workloadID of
       Some kg \<Rightarrow>
         if wc_ConfigID kg = excludeHash then None
         else Some \<lparr>rt_Kind = ''last_known_good'', rt_Config = kg\<lparr>wc_ContentAvailable := wc_Content kg \<noteq> []\<rparr>\<rparr>
     | None \<Rightarrow>
         map_option (\<lambda>prev. \<lparr>rt_Kind = ''previous'', rt_Config = prev\<rparr>) (GetPreviousAppliedWorkloadConfig d workloadID excludeHash))"

section \<open>The decorated history\<close>

definition scanWorkloadConfigHistoryMetadata :: "gotime \<Rightarrow> store_db \<Rightarrow> history_row \<Rightarrow> WorkloadConfig" where
  "scanWorkloadConfigHistoryMetadata clock d r =
    HydratePushStatus clock clock
      ((scan_columns d r)\<lparr>wc_Content := [], wc_ContentAvailable := config_content d (hr_config_id r) \<noteq> []\<rparr>)"

definition anyCurrent :: "WorkloadConfig list \<Rightarrow> bool" where
  "anyCurrent history = list_ex wc_IsCurrent history"

text \<open>\<open>for i := range history { if P { f; break } }\<close>\<close>

fun mark_first :: "('a \<Rightarrow> bool) \<Rightarrow> ('a \<Rightarrow> 'a) \<Rightarrow> 'a list \<Rightarrow> 'a list" where
  "mark_first P f [] = []"
| "mark_first P f (x # xs) = (if P x then f x # xs else x # mark_first P f xs)"

definition decorateWorkloadConfigHistory :: "store_db \<Rightarrow> string \<Rightarrow> WorkloadConfig list \<Rightarrow> WorkloadConfig list" where
  "decorateWorkloadConfigHistory d workloadID history =
    (if history = [] then []
     else
       let h = map (\<lambda>wc. wc\<lparr>wc_IsFailedCandidate := wc_Status wc = ''failed''\<rparr>) history;
           h = (case GetWorkload d workloadID of
                  Inl _ \<Rightarrow> h
                | Inr wl \<Rightarrow>
                    if wl_ActiveConfigHash wl \<noteq> []
                    then map (\<lambda>wc. if wc_ConfigID wc = wl_ActiveConfigHash wl then wc\<lparr>wc_IsCurrent := True\<rparr> else wc) h
                    else h);
           h = (if \<not> anyCurrent h then mark_first (\<lambda>wc. wc_Status wc = ''applied'') (\<lambda>wc. wc\<lparr>wc_IsCurrent := True\<rparr>) h else h);
           currentHash = (case find wc_IsCurrent h of None \<Rightarrow> [] | Some wc \<Rightarrow> wc_ConfigID wc);
           h = mark_first (\<lambda>wc. wc_Status wc = ''applied'' \<and> wc_ConfigID wc \<noteq> currentHash) (\<lambda>wc. wc\<lparr>wc_IsPrevious := True\<rparr>) h
       in case GetWorkloadKnownGood d workloadID of
            None \<Rightarrow> h
          | Some kg \<Rightarrow> map (\<lambda>wc. if wc_ConfigID wc = wk_ConfigID kg then wc\<lparr>wc_IsLastKnownGood := True\<rparr> else wc) h)"

definition GetWorkloadConfigHistory :: "gotime \<Rightarrow> store_db \<Rightarrow> string \<Rightarrow> WorkloadConfig list" where
  "GetWorkloadConfigHistory clock d workloadID =
    decorateWorkloadConfigHistory d workloadID
      (map (scanWorkloadConfigHistoryMetadata clock d)
        (sort_key (\<lambda>r. - hr_applied_at r) (filter (\<lambda>r. hr_workload_id r = workloadID) (sd_history d))))"

section \<open>Push activity\<close>

record PushActivityPoint =
  pp_Day :: string
  pp_Count :: nat

definition day_ns :: int where "day_ns = 86400 * second"

definition GetPushActivity :: "gotime \<Rightarrow> int \<Rightarrow> store_db \<Rightarrow> PushActivityPoint list" where
  "GetPushActivity clock days d =
    (if days \<le> 0 then []
     else
       let cutoff = clock + (- days + 1) * day_ns;
           startDay = cutoff div day_ns * day_ns;
           counts = foldl (\<lambda>m r. let day = formatDate (hr_applied_at r)
                                 in mput day (1 + (case mget m day of None \<Rightarrow> 0 | Some n \<Rightarrow> n)) m) []
                      (filter (\<lambda>r. startDay \<le> hr_applied_at r) (sd_history d))
       in map (\<lambda>i. let day = formatDate (startDay + int i * day_ns)
                   in \<lparr>pp_Day = day, pp_Count = (case mget counts day of None \<Rightarrow> 0 | Some n \<Rightarrow> n)\<rparr>) [0..<nat days])"

section \<open>The tables stay consistent\<close>

lemma history_inv:
  assumes inv: "store_inv d"
    and keyed: "keyed history_key h"
    and rows: "\<And>r. r \<in> set h \<Longrightarrow> history_checks d r"
  shows "store_inv (d\<lparr>sd_history := h\<rparr>)"
proof -
  let ?d = "d\<lparr>sd_history := h\<rparr>"
  have "keys_ok ?d" "refs_ok ?d"
    using inv keyed rows by (simp_all add: store_inv_def keys_ok_def refs_ok_def)
  then show ?thesis
    using inv workloads_ok_cong [of ?d d] attributes_ok_cong [of ?d d] by (simp add: store_inv_def)
qed

lemma history_mod_inv:
  assumes inv: "store_inv d"
    and f: "\<And>r. r \<in> set (sd_history d) \<Longrightarrow> P r \<Longrightarrow> history_key (f r) = history_key r \<and> hr_status (f r) \<in> set history_statuses"
  shows "store_inv (d\<lparr>sd_history := row_mod P f (sd_history d)\<rparr>)"
proof (rule history_inv [OF inv])
  show "keyed history_key (row_mod P f (sd_history d))"
    using inv f by (intro keyed_row_mod) (simp_all add: store_inv_def keys_ok_def)
  show "history_checks d r" if r: "r \<in> set (row_mod P f (sd_history d))" for r
  proof -
    obtain x where x: "x \<in> set (sd_history d)" "r = (if P x then f x else x)"
      using r unfolding set_row_mod by blast
    moreover have "history_checks d x"
      using inv x by (simp add: store_inv_def refs_ok_def)
    ultimately show ?thesis
      using f [of x] by (auto simp: history_checks_def history_key_def)
  qed
qed

lemma RecordWorkloadConfig_inv [inv_intros]:
  assumes inv: "store_inv d" and "RecordWorkloadConfig clock wc d = Inr d'"
  shows "store_inv d'"
proof -
  obtain row where d': "d' = d\<lparr>sd_history := sd_history d @ [row]\<rparr>" and row: "history_checks d row"
    "history_key row \<notin> history_key ` set (sd_history d)"
    using assms(2) by (auto simp: RecordWorkloadConfig_def Let_def split: if_splits)
  show ?thesis
    unfolding d' by (rule history_inv [OF inv])
      (use inv row in \<open>auto simp: keyed_snoc store_inv_def keys_ok_def refs_ok_def\<close>)
qed

lemma MarkWorkloadConfigSent_inv [inv_intros]: "store_inv d \<Longrightarrow> store_inv (MarkWorkloadConfigSent w c t d)"
  unfolding MarkWorkloadConfigSent_def
  by (rule history_mod_inv) (simp_all add: history_key_def history_statuses_def PushStatusSent_def)

lemma latest_push_pushes: "latest_push d w c r \<Longrightarrow> r \<in> set (sd_history d) \<Longrightarrow> r \<in> set (pushes_of d w c)"
  by (simp add: latest_push_def pushes_of_def)

lemma UpdateWorkloadConfigStatus_inv [inv_intros]:
  assumes "store_inv d" and "UpdateWorkloadConfigStatus w c st msg d = Inr d'"
  shows "store_inv d'"
proof -
  have d': "d' = d\<lparr>sd_history := row_mod (latest_push d w c)
      (\<lambda>r. r\<lparr>hr_status := st, hr_error_message := nullIfEmpty (SanitizeRemoteConfigErrorMessage msg)\<rparr>) (sd_history d)\<rparr>"
    and st: "st \<in> set history_statuses \<or> pushes_of d w c = []"
    using assms(2) by (auto simp: UpdateWorkloadConfigStatus_def split: if_splits)
  show ?thesis
    unfolding d' using st by (intro history_mod_inv [OF assms(1)]) (auto simp: history_key_def dest: latest_push_pushes)
qed

lemma merge_instance_status_inv [inv_intros]:
  assumes inv: "store_inv d" and "merge_instance_status clock w c uid st msg at d = Some (Inr d')"
  shows "store_inv d'"
proof -
  obtain r s e js where d': "d' = d\<lparr>sd_history := row_mod (\<lambda>x. history_key x = history_key r)
        (\<lambda>x. x\<lparr>hr_status := s, hr_error_message := e, hr_instances := js\<rparr>) (sd_history d)\<rparr>"
    and "s \<in> set history_statuses"
    using assms(2) by (auto simp: merge_instance_status_def Let_def split: if_splits)
  then show ?thesis
    unfolding d' by (intro history_mod_inv [OF inv]) (simp_all add: history_key_def)
qed

lemma UpdateWorkloadConfigInstanceStatus_inv [inv_intros]:
  assumes "store_inv d" and "UpdateWorkloadConfigInstanceStatus clock w c uid st msg at d = Inr d'"
  shows "store_inv d'"
proof (cases "merge_instance_status clock w c uid st (SanitizeRemoteConfigErrorMessage msg) at d")
  case None
  then show ?thesis
    using assms by (auto simp: UpdateWorkloadConfigInstanceStatus_def intro: UpdateCanaryTargetStatus_inv)
next
  case (Some x)
  then obtain d1 where "x = Inr d1"
    using assms(2) by (cases x) (auto simp: UpdateWorkloadConfigInstanceStatus_def)
  with Some show ?thesis
    using assms merge_instance_status_inv [OF assms(1)]
    by (auto simp: UpdateWorkloadConfigInstanceStatus_def intro: UpdateCanaryTargetStatus_inv)
qed

lemma SetWorkloadConfigLabel_inv [inv_intros]:
  assumes "store_inv d" and "SetWorkloadConfigLabel w c l d = Inr d'"
  shows "store_inv d'"
proof -
  have d': "d' = d\<lparr>sd_history := row_mod (\<lambda>r. hr_workload_id r = w \<and> hr_config_id r = c) (\<lambda>r. r\<lparr>hr_label := nullIfEmpty l\<rparr>) (sd_history d)\<rparr>"
    using assms(2) by (simp add: SetWorkloadConfigLabel_def split: if_splits)
  have "hr_status r \<in> set history_statuses" if "r \<in> set (sd_history d)" for r
    using assms(1) that by (simp add: store_inv_def refs_ok_def history_checks_def)
  then show ?thesis
    unfolding d' by (intro history_mod_inv [OF assms(1)]) (simp_all add: history_key_def)
qed

lemma known_good_inv:
  assumes inv: "store_inv d"
    and "keyed kg_workload_id h"
    and "\<And>k. k \<in> set h \<Longrightarrow> has_workload d (kg_workload_id k) \<and> has_config d (kg_config_id k)"
  shows "store_inv (d\<lparr>sd_known_good := h\<rparr>)"
proof -
  let ?d = "d\<lparr>sd_known_good := h\<rparr>"
  have "keys_ok ?d" "refs_ok ?d"
    using assms by (simp_all add: store_inv_def keys_ok_def refs_ok_def)
  then show ?thesis
    using inv workloads_ok_cong [of ?d d] attributes_ok_cong [of ?d d] by (simp add: store_inv_def)
qed

lemma ClearWorkloadKnownGood_inv [inv_intros]:
  assumes "store_inv d"
  shows "store_inv (snd (ClearWorkloadKnownGood w d))"
  unfolding ClearWorkloadKnownGood_def snd_conv
  by (rule known_good_inv [OF assms]) (use assms in \<open>auto simp: store_inv_def keys_ok_def refs_ok_def\<close>)

text \<open>The outcomes of marking a known-good configuration: nothing is written, or the row replaces the pointer.\<close>

definition pointer_free :: "string option \<Rightarrow> bool \<Rightarrow> string \<Rightarrow> string \<Rightarrow> store_db \<Rightarrow> bool" where
  "pointer_free ifc force w c d \<longleftrightarrow>
    (case row_get kg_workload_id w (sd_known_good d) of
       None \<Rightarrow> True | Some k \<Rightarrow> force \<or> kg_config_id k = valueOrEmpty ifc \<or> kg_config_id k = c)"

lemma write_known_good_cases:
  assumes "write_known_good row ifc force cur d = (res, d')"
  shows "(d' = d \<and> (\<forall>v r. res = Inr (v, r) \<longrightarrow> \<not> kr_Changed r)) \<or>
    (\<exists>v r. res = Inr (v, r) \<and> kr_Changed r \<and> has_workload d (kg_workload_id row) \<and> has_config d (kg_config_id row)
      \<and> pointer_free ifc force (kg_workload_id row) (kg_config_id row) d
      \<and> d' = d\<lparr>sd_known_good := row_put kg_workload_id row (sd_known_good d)\<rparr>)"
proof (cases "row_get kg_workload_id (kg_workload_id row) (sd_known_good d)")
  case None
  then have "row_put kg_workload_id row (sd_known_good d) = sd_known_good d @ [row]"
    by (auto simp: row_get_None row_put_def)
  then show ?thesis
    using assms None
    by (auto simp: write_known_good_def upsert_known_good_def pointer_free_def no_result_def split: if_splits)
next
  case (Some k)
  then show ?thesis
    using assms
    by (auto simp: write_known_good_def upsert_known_good_def pointer_free_def no_result_def split: if_splits)
qed

lemma SetWorkloadKnownGood_cases:
  assumes "SetWorkloadKnownGoodWithPrecondition clock w c m rr ifc force d0 d = (res, d')"
  shows "(d' = d \<and> (\<forall>v r. res = Inr (v, r) \<longrightarrow> \<not> kr_Changed r)) \<or>
    (\<exists>row v r. res = Inr (v, r) \<and> kr_Changed r \<and> kg_workload_id row = w \<and> kg_config_id row = c
      \<and> has_workload d w \<and> has_config d c \<and> (\<exists>t. known_good_source d0 w c = Inr t)
      \<and> pointer_free ifc force w c d
      \<and> d' = d\<lparr>sd_known_good := row_put kg_workload_id row (sd_known_good d)\<rparr>)"
proof (cases "known_good_source d0 w c")
  case (Inl e)
  then show ?thesis
    using assms by (auto simp: SetWorkloadKnownGoodWithPrecondition_def)
next
  case (Inr t)
  define cur where "cur = (case row_get kg_workload_id w (sd_known_good d0) of None \<Rightarrow> [] | Some k \<Rightarrow> kg_config_id k)"
  define row where "row = \<lparr>kg_workload_id = w, kg_config_id = c, kg_marked_at = clock,
                      kg_marked_by = nullIfEmpty m, kg_source_applied_at = Some t,
                      kg_replaced_config_id = nullIfEmpty cur, kg_replace_reason = nullIfEmpty rr\<rparr>"
  have row: "kg_workload_id row = w" "kg_config_id row = c"
    by (simp_all add: row_def)
  show ?thesis
  proof (cases "preconditionConflicts cur c ifc force \<or> row_get kg_workload_id w (sd_known_good d0) \<noteq> None \<and> cur = c")
    case True
    then show ?thesis
      using assms Inr
      by (auto simp: SetWorkloadKnownGoodWithPrecondition_def Let_def cur_def [symmetric] no_result_def split: if_splits)
  next
    case False
    then have "write_known_good row ifc force cur d = (res, d')"
      using assms Inr
      unfolding SetWorkloadKnownGoodWithPrecondition_def Let_def row_def cur_def by (auto split: if_splits)
    from write_known_good_cases [OF this] row Inr show ?thesis
      by fastforce
  qed
qed

lemma SetWorkloadKnownGood_inv [inv_intros]:
  assumes inv: "store_inv d" and "SetWorkloadKnownGoodWithPrecondition clock w c m rr ifc force d0 d = (res, d')"
  shows "store_inv d'"
  using SetWorkloadKnownGood_cases [OF assms(2)]
proof (elim disjE exE conjE)
  fix row
  assume row: "kg_workload_id row = w" "kg_config_id row = c" "has_workload d w" "has_config d c"
    and d': "d' = d\<lparr>sd_known_good := row_put kg_workload_id row (sd_known_good d)\<rparr>"
  have k: "keyed kg_workload_id (sd_known_good d)"
    using inv by (simp add: store_inv_def keys_ok_def)
  show ?thesis
    unfolding d' by (rule known_good_inv [OF inv keyed_row_put [OF k]])
      (use inv row in \<open>auto simp: set_row_put [OF k] store_inv_def refs_ok_def\<close>)
qed (use inv in simp)

section \<open>A small database\<close>

definition demo_row :: "string \<Rightarrow> gotime \<Rightarrow> string \<Rightarrow> history_row" where
  "demo_row c t st = \<lparr>hr_workload_id = ''w1'', hr_config_id = c, hr_applied_at = t, hr_status = st, hr_error_message = None,
     hr_pushed_by = None, hr_label = None, hr_push_id = ''p'', hr_submitted_at = Some t, hr_sent_at = Some t, hr_timeout_at = Some (t + 30),
     hr_rollback_of = [], hr_instances = []\<rparr>"

definition demo_history :: store_db where
  "demo_history = demo_store\<lparr>sd_configs := [demo_config ''h1'' ''receivers:'', demo_config ''h2'' ''exporters:''],
     sd_history := [demo_row ''h1'' 10 ''applied'', demo_row ''h2'' 20 ''applied'']\<rparr>"

lemma demo_history_inv: "store_inv demo_history"
  by (simp add: store_inv_def keys_ok_def workloads_ok_def refs_ok_def attributes_ok_def demo_history_def demo_store_def
      empty_store_def keyed_def workload_checks_def demo_workload_def demo_config_def demo_canary_def mwf_def history_key_def
      demo_row_def history_checks_def history_statuses_def)

section \<open>Properties of the known-good pointer\<close>

lemma hydrate_columns [simp]:
  "wc_WorkloadID (HydratePushStatus clock now wc) = wc_WorkloadID wc"
  "wc_ConfigID (HydratePushStatus clock now wc) = wc_ConfigID wc"
  "wc_Content (HydratePushStatus clock now wc) = wc_Content wc"
  "wc_SentAt (HydratePushStatus clock now wc) = wc_SentAt wc"
  by (simp_all add: HydratePushStatus_def hydrateCounts_def hydrateHeader_def Let_def)

lemma scan_columns_simps [simp]:
  "wc_WorkloadID (scan_columns d r) = hr_workload_id r" "wc_ConfigID (scan_columns d r) = hr_config_id r"
  "wc_Content (scan_columns d r) = config_content d (hr_config_id r)" "wc_Status (scan_columns d r) = hr_status r"
  "wc_SentAt (scan_columns d r) = hr_sent_at r" "wc_InstanceStatuses (scan_columns d r) = hr_instances r"
  "wc_AppliedAt (scan_columns d r) = hr_applied_at r"
  by (simp_all add: scan_columns_def)

lemma known_good_source_applied:
  assumes "known_good_source d w c = Inr t"
  shows "(\<exists>r \<in> set (sd_history d). hr_workload_id r = w \<and> hr_config_id r = c \<and> hr_status r = ''applied'') \<and> config_content d c \<noteq> []"
  using assms by (auto simp: known_good_source_def split: option.splits if_splits dest!: newest_Some)

text \<open>
  C29: The known-good pointer of a workload is a compare-and-set register. A call changes no other
  workload's pointer, and it moves this one only to a configuration that was applied to the workload
  and whose content is available, and only when, at the moment of the write, there is no pointer, or
  the call is forced, or the pointer is the one the caller named or already the target.
\<close>

theorem known_good_compare_and_set:
  assumes "SetWorkloadKnownGoodWithPrecondition clock w c m rr ifc force d0 d = (res, d')"
  shows "row_get kg_workload_id w' (sd_known_good d') = row_get kg_workload_id w' (sd_known_good d) \<or>
    (w' = w \<and> (\<exists>k. row_get kg_workload_id w (sd_known_good d') = Some k \<and> kg_config_id k = c)
     \<and> (\<exists>r \<in> set (sd_history d0). hr_workload_id r = w \<and> hr_config_id r = c \<and> hr_status r = ''applied'')
     \<and> config_content d0 c \<noteq> []
     \<and> (case row_get kg_workload_id w (sd_known_good d) of
          None \<Rightarrow> True | Some k \<Rightarrow> force \<or> kg_config_id k = valueOrEmpty ifc \<or> kg_config_id k = c))"
  using SetWorkloadKnownGood_cases [OF assms]
proof (elim disjE exE conjE)
  fix row t
  assume row: "kg_workload_id row = w" "kg_config_id row = c" and t: "known_good_source d0 w c = Inr t"
    and free: "pointer_free ifc force w c d" and d': "d' = d\<lparr>sd_known_good := row_put kg_workload_id row (sd_known_good d)\<rparr>"
  show ?thesis
    using row known_good_source_applied [OF t] free by (simp add: d' row_get_put pointer_free_def)
qed simp

lemma known_good_compare_and_set_witness:
  "\<exists>k. row_get kg_workload_id ''w1''
      (sd_known_good (snd (SetWorkloadKnownGoodWithPrecondition 30 ''w1'' ''h1'' ''ann'' [] None False demo_history demo_history))) = Some k
    \<and> kg_config_id k = ''h1''"
proof -
  have "row_get kg_workload_id ''w1''
      (sd_known_good (snd (SetWorkloadKnownGoodWithPrecondition 30 ''w1'' ''h1'' ''ann'' [] None False demo_history demo_history)))
    \<noteq> row_get kg_workload_id ''w1'' (sd_known_good demo_history)"
    by code_simp
  then show ?thesis
    using known_good_compare_and_set
      [OF surjective_pairing [of "SetWorkloadKnownGoodWithPrecondition 30 ''w1'' ''h1'' ''ann'' [] None False demo_history demo_history"], of "''w1''"]
    by blast
qed

lemma rollback_target_cases:
  assumes "GetRollbackTarget clock d w ex = Some t" and c: "c = wc_ConfigID (rt_Config t)"
  shows "c \<noteq> ex \<and> wc_Content (rt_Config t) = config_content d c \<and>
    (rt_Kind t = ''last_known_good'' \<and> (\<exists>k \<in> set (sd_known_good d). kg_workload_id k = w \<and> kg_config_id k = c)
       \<and> pushes_of d w c \<noteq> []
     \<or> rt_Kind t = ''previous'' \<and> (\<exists>r \<in> set (sd_history d). hr_workload_id r = w \<and> hr_config_id r = c \<and> hr_status r = ''applied''
         \<and> list_all (\<lambda>x. hr_workload_id x = w \<and> hr_status x = ''applied'' \<and> hr_config_id x \<noteq> ex \<longrightarrow> hr_applied_at x \<le> hr_applied_at r)
             (sd_history d)))"
proof (cases "GetLatestKnownGoodWorkloadConfig clock d w")
  case (Some kg)
  then have t: "wc_ConfigID kg \<noteq> ex" "t = \<lparr>rt_Kind = ''last_known_good'', rt_Config = kg\<lparr>wc_ContentAvailable := wc_Content kg \<noteq> []\<rparr>\<rparr>"
    using assms(1) by (auto simp: GetRollbackTarget_def split: if_splits)
  obtain k r where k: "row_get kg_workload_id w (sd_known_good d) = Some k"
    and r: "newest hr_applied_at (pushes_of d w (kg_config_id k)) = Some r" and kg: "kg = scanWorkloadConfig clock d r"
    using Some
    by (auto simp: GetLatestKnownGoodWorkloadConfig_def GetWorkloadKnownGood_def GetWorkloadConfigByHash_def known_good_view_def
        GetLatestWorkloadConfigByHash_def getOneWorkloadConfig_def pushes_of_def split: option.splits)
  have "hr_config_id r = kg_config_id k" "pushes_of d w (kg_config_id k) \<noteq> []"
    using newest_Some [OF r] by (auto simp: pushes_of_def filter_empty_conv)
  then show ?thesis
    using t kg row_get_Some [OF k] by (auto simp: c scanWorkloadConfig_def)
next
  case None
  then obtain r where r: "newest hr_applied_at (filter (\<lambda>r. hr_workload_id r = w \<and> hr_status r = ''applied'' \<and> hr_config_id r \<noteq> ex)
      (sd_history d)) = Some r" and t: "rt_Kind t = ''previous''" "c = hr_config_id r" "wc_Content (rt_Config t) = config_content d (hr_config_id r)"
    using assms by (auto simp: GetRollbackTarget_def GetPreviousAppliedWorkloadConfig_def split: option.splits)
  then show ?thesis
    using newest_Some [OF r] by (auto simp: list_all_iff)
qed

text \<open>
  C30: A rollback target is never the configuration it rolls back from, carries the content the library
  holds, and is either the known-good configuration of the workload, pushed to it before, or the
  most recently applied other configuration.
\<close>

theorem rollback_target_sound:
  assumes "GetRollbackTarget clock d w ex = Some t"
  shows "let c = wc_ConfigID (rt_Config t) in c \<noteq> ex \<and> wc_Content (rt_Config t) = config_content d c \<and>
    (rt_Kind t = ''last_known_good'' \<and> (\<exists>k \<in> set (sd_known_good d). kg_workload_id k = w \<and> kg_config_id k = c)
       \<and> pushes_of d w c \<noteq> []
     \<or> rt_Kind t = ''previous'' \<and> (\<exists>r \<in> set (sd_history d). hr_workload_id r = w \<and> hr_config_id r = c \<and> hr_status r = ''applied''
         \<and> list_all (\<lambda>x. hr_workload_id x = w \<and> hr_status x = ''applied'' \<and> hr_config_id x \<noteq> ex \<longrightarrow> hr_applied_at x \<le> hr_applied_at r)
             (sd_history d)))"
  unfolding Let_def by (rule rollback_target_cases [OF assms refl])

lemma rollback_target_sound_witness:
  "\<exists>t. GetRollbackTarget 40 demo_history ''w1'' ''h2'' = Some t \<and> wc_ConfigID (rt_Config t) \<noteq> ''h2''"
proof -
  have "GetRollbackTarget 40 demo_history ''w1'' ''h2'' \<noteq> None"
    by code_simp
  then show ?thesis
    using rollback_target_sound [of 40 demo_history "''w1''" "''h2''"] by (auto simp: Let_def)
qed

section \<open>The status of a push\<close>

lemma merge_instance_mem:
  "\<exists>i \<in> set (merge_instance c uid st at msg is). is_InstanceUID i = uid \<and> is_Status i = st"
  by (induction "is") auto

lemma hydrate_keeps_report:
  assumes "i \<in> set (wc_InstanceStatuses wc)" and "is_Status i \<in> {PushStatusApplying, PushStatusApplied, PushStatusFailed}"
  shows "\<exists>j \<in> set (wc_InstanceStatuses (HydratePushStatus clock now wc)).
    is_InstanceUID j = is_InstanceUID i \<and> is_Status j = is_Status i"
proof -
  have st: "canonicalInstanceStatus (is_Status i) = is_Status i"
    using assms(2) canonicalInstanceStatus_fix by auto
  have late: "\<not> isLate t n i" for t n
    using assms(2) by (auto simp: isLate_def st push_status_defs)
  have "is_InstanceUID (hydrateInstance cid t n i) = is_InstanceUID i \<and> is_Status (hydrateInstance cid t n i) = is_Status i" for cid t n
    by (simp add: hydrateInstance_ok [OF late] st)
  then show ?thesis
    using assms(1) by (auto simp: HydratePushStatus_def hydrateCounts_def hydrateHeader_def Let_def)
qed

lemma history_status_canonical: "s \<in> set history_statuses \<Longrightarrow> canonicalPushStatus s \<in> set history_statuses"
proof -
  have "list_all (\<lambda>s. canonicalPushStatus s \<in> set history_statuses) history_statuses"
    by code_simp
  then show "s \<in> set history_statuses \<Longrightarrow> canonicalPushStatus s \<in> set history_statuses"
    by (auto simp: list_all_iff)
qed

text \<open>
  C31: When an instance reports that it is applying, has applied or failed a configuration that was
  pushed to its workload, the report is recorded on the latest push of it, whose status becomes
  failed if some instance failed, applied if all applied, and applying otherwise.
\<close>

theorem instance_report_recorded:
  assumes inv: "store_inv d" and pushed: "pushes_of d w c \<noteq> []"
    and st: "st \<in> {PushStatusApplying, PushStatusApplied, PushStatusFailed}"
  shows "\<exists>d' r. UpdateWorkloadConfigInstanceStatus clock w c uid st msg at d = Inr d' \<and> r \<in> set (sd_history d') \<and> latest_push d' w c r
    \<and> (\<exists>i \<in> set (hr_instances r). is_InstanceUID i = uid \<and> is_Status i = st)
    \<and> hr_status r =
       (if \<exists>i \<in> set (hr_instances r). is_Status i = PushStatusFailed then PushStatusFailed
        else if \<forall>i \<in> set (hr_instances r). is_Status i = PushStatusApplied then PushStatusApplied
        else PushStatusApplying)"
proof -
  obtain r0 where r0: "newest hr_applied_at (pushes_of d w c) = Some r0"
    using newest_ex [OF pushed] by blast
  let ?at = "if timeIsZero at then clock else at"
  let ?msg = "SanitizeRemoteConfigErrorMessage msg"
  define wc0 where "wc0 = scanWorkloadConfig clock d r0"
  define wc1 where "wc1 = wc0\<lparr>wc_InstanceStatuses := merge_instance c uid st ?at ?msg (wc_InstanceStatuses wc0)\<rparr>"
  define wc where "wc = HydratePushStatus clock ?at wc1"
  define r where "r = r0\<lparr>hr_status := wc_Status wc, hr_error_message := nullIfEmpty ?msg, hr_instances := wc_InstanceStatuses wc\<rparr>"
  obtain i0 where i0: "i0 \<in> set (wc_InstanceStatuses wc1)" "is_InstanceUID i0 = uid" "is_Status i0 = st"
    using merge_instance_mem [of c uid st ?at ?msg "wc_InstanceStatuses wc0"] by (auto simp: wc1_def)
  then obtain i where i: "i \<in> set (wc_InstanceStatuses wc)" "is_InstanceUID i = uid" "is_Status i = st"
    using hydrate_keeps_report [of i0 wc1 clock ?at] st by (auto simp: wc_def)
  have status: "wc_Status wc =
       (if \<exists>i \<in> set (wc_InstanceStatuses wc). is_Status i = PushStatusFailed then PushStatusFailed
        else if \<forall>i \<in> set (wc_InstanceStatuses wc). is_Status i = PushStatusApplied then PushStatusApplied
        else PushStatusApplying)"
  proof -
    have ne: "wc_InstanceStatuses wc1 \<noteq> []"
      using i0(1) by auto
    have "(\<exists>i \<in> set (wc_InstanceStatuses wc). is_Status i = PushStatusFailed)
        \<or> (\<exists>i \<in> set (wc_InstanceStatuses wc). is_Status i = PushStatusApplying \<or> is_Status i = PushStatusApplied)"
      using i st by auto
    then show ?thesis
      using hydrated_status [OF ne, of clock ?at] unfolding Let_def wc_def [symmetric] by presburger
  qed
  then have ok: "wc_Status wc \<in> set history_statuses"
    by (simp add: history_statuses_def push_status_defs)
  have mem0: "r0 \<in> set (sd_history d)" "hr_workload_id r0 = w" "hr_config_id r0 = c"
    and newest0: "\<forall>x \<in> set (pushes_of d w c). hr_applied_at x \<le> hr_applied_at r0"
    using newest_Some [OF r0] by (auto simp: pushes_of_def)
  let ?upd = "\<lambda>x :: history_row. x\<lparr>hr_status := wc_Status wc, hr_error_message := nullIfEmpty ?msg, hr_instances := wc_InstanceStatuses wc\<rparr>"
  let ?d1 = "d\<lparr>sd_history := row_mod (\<lambda>x. history_key x = history_key r0) ?upd (sd_history d)\<rparr>"
  define d2 where "d2 = UpdateCanaryTargetStatus clock w c uid st at ?d1"
  have merged: "merge_instance_status clock w c uid st ?msg at d = Some (Inr ?d1)"
    using ok by (simp add: merge_instance_status_def r0 Let_def wc_def wc1_def wc0_def)
  have hist: "sd_history d2 = row_mod (\<lambda>x. history_key x = history_key r0) ?upd (sd_history d)"
    by (simp add: d2_def UpdateCanaryTargetStatus_frame)
  have "r \<in> set (sd_history d2)"
    using mem0(1) unfolding hist set_row_mod r_def by (auto intro: rev_image_eqI)
  moreover have "latest_push d2 w c r"
  proof -
    have "hr_applied_at x \<le> hr_applied_at r0" if "x \<in> set (pushes_of d2 w c)" for x
      using that newest0 unfolding pushes_of_def hist row_mod_def by auto
    then show ?thesis
      using mem0 by (simp add: latest_push_def list_all_iff r_def)
  qed
  moreover have "UpdateWorkloadConfigInstanceStatus clock w c uid st msg at d = Inr d2"
    by (simp add: UpdateWorkloadConfigInstanceStatus_def merged d2_def)
  ultimately show ?thesis
    using i status by (intro exI [of _ d2] exI [of _ r]) (auto simp: r_def)
qed

lemma instance_report_recorded_witness:
  "store_inv demo_history \<and> pushes_of demo_history ''w1'' ''h2'' \<noteq> [] \<and>
    (\<exists>d'. UpdateWorkloadConfigInstanceStatus 25 ''w1'' ''h2'' ''u1'' PushStatusFailed ''unknown receiver'' 25 demo_history = Inr d')"
proof -
  have "pushes_of demo_history ''w1'' ''h2'' \<noteq> []"
    by code_simp
  then show ?thesis
    using instance_report_recorded [OF demo_history_inv, of "''w1''" "''h2''" PushStatusFailed 25 "''u1''" "''unknown receiver''" 25]
      demo_history_inv by auto
qed

end
