(* ===== verification/Opamp_Server.thy ===== *)
theory Opamp_Server
  imports Opamp_Message Store_Calls Config_History Grace_Timer Token_Sessions Opamp_Tokens
begin

text \<open>
  The OpAMP server, \<open>internal/opamp/server.go\<close> and \<open>rollback.go\<close>: how a message of an admitted
  agent changes the registry of live instances, the database and what is broadcast; how a
  configuration is pushed; how a failed one is rolled back; how a session claims and releases its instance. A server
  without a store or with an injected push function, which only the tests build, is not modelled.
\<close>

section \<open>State\<close>

datatype broadcast =
  WorkloadUpdate Workload nat nat
  | WorkloadEventSeen WorkloadEvent
  | ConfigStatus string RemoteConfigStatus
  | AutoRollback string string string string string

text \<open>
  The fields of a session that belong to the server. \<open>sf_released\<close> is the once of the release. Sessions are known by their address
  in the heap of the token connections.
\<close>

record session_fields =
  sf_uid :: string
  sf_admitted :: bool
  sf_terminal :: bool
  sf_released :: bool

text \<open>
  \<open>sv_closing\<close> lists the sessions whose disconnect was started after a failed send, \<open>sv_autopush\<close> the
  auto-pushes that were launched as (configuration, workload, instance, lease). \<open>sv_sent\<close> records what was sent on which
  session.
\<close>

record Server =
  sv_notifier :: bool
  sv_retention :: duration
  sv_stopping :: bool
  sv_registry :: InstanceRegistry
  sv_grace :: GraceController
  sv_tokens :: tokenConnections
  sv_conns :: "(string, nat) gomap"
  sv_fields :: "session_fields list"
  sv_db :: store_db
  sv_broadcasts :: "broadcast list"
  sv_sent :: "(nat \<times> ServerToAgent) list"
  sv_closing :: "nat list"
  sv_autopush :: "(string \<times> string \<times> string \<times> nat option) list"

text \<open>The places where the server calls the store or only reads the clock while it handles one event.\<close>

datatype server_call =
  GetPrevious | UpsertDescribed | ClearRetention | GetReported | CreateReported | InsertBindEvent | GetForComponents
  | GetRefresh | UpsertRefresh | UpdateStatus | UpdateInstanceStatus | GetLatestPush | GetForStatus | UpsertStatus
  | RollbackLookup | RecordRollback | MarkRollbackSent | GetAutoPush
  | InsertReleaseEvent | MarkDisconnected | GetDisconnected
  | BindTime | UpdateTime | ReportTime | ReportUpdateTime

text \<open>
  What the world decides: the fate of each store call, the clock where it is read, the injected clock \<open>s.now\<close>,
  and the error with which sending on the connection of an instance fails.
\<close>

record server_env =
  se_fate :: "server_call \<Rightarrow> call_fate"
  se_clock :: "server_call \<Rightarrow> gotime"
  se_now :: gotime
  se_send :: "string \<Rightarrow> string option"

definition NewServer :: "bool \<Rightarrow> duration \<Rightarrow> store_db \<Rightarrow> Server" where
  "NewServer notifier retention d =
    \<lparr>sv_notifier = notifier, sv_retention = (if retention \<le> 0 then 30 * 24 * (60 * minute) else retention),
     sv_stopping = False, sv_registry = NewInstanceRegistry, sv_grace = NewGraceController, sv_tokens = newTokenConnections,
     sv_conns = [], sv_fields = [], sv_db = d, sv_broadcasts = [], sv_sent = [], sv_closing = [], sv_autopush = []\<rparr>"

definition exec_at :: "server_env \<Rightarrow> server_call \<Rightarrow> (store_db \<Rightarrow> db_error + store_db) \<Rightarrow> Server \<Rightarrow> bool \<times> Server" where
  "exec_at env c op s = (case exec_call (se_fate env c) op (sv_db s) of (ok, d) \<Rightarrow> (ok, s\<lparr>sv_db := d\<rparr>))"

definition fetch_workload :: "server_env \<Rightarrow> server_call \<Rightarrow> string \<Rightarrow> Server \<Rightarrow> Workload option" where
  "fetch_workload env c ident s =
    (case read_call (se_fate env c) (GetWorkload (sv_db s) ident) of Some (Inr w) \<Rightarrow> Some w | _ \<Rightarrow> None)"

definition broadcast_to :: "broadcast \<Rightarrow> Server \<Rightarrow> Server" where
  "broadcast_to b s = (if sv_notifier s then s\<lparr>sv_broadcasts := sv_broadcasts s @ [b]\<rparr> else s)"

definition emitEvent :: "server_env \<Rightarrow> server_call \<Rightarrow> WorkloadEvent \<Rightarrow> Server \<Rightarrow> Server" where
  "emitEvent env c e s =
    (if se_fate env c = Fails then s
     else case InsertWorkloadEvent (se_clock env c) e (sv_db s) of
       Inl _ \<Rightarrow> s
     | Inr (n, d) \<Rightarrow>
         if se_fate env c = Works then broadcast_to (WorkloadEventSeen (e\<lparr>ev_ID := n\<rparr>)) (s\<lparr>sv_db := d\<rparr>) else s\<lparr>sv_db := d\<rparr>)"

definition countDrift :: "InstanceRegistry \<Rightarrow> string \<Rightarrow> string \<Rightarrow> nat" where
  "countDrift reg workloadID activeHash =
    (if activeHash = [] then 0
     else length (filter (\<lambda>i. in_EffectiveConfigHash i \<noteq> [] \<and> in_EffectiveConfigHash i \<noteq> activeHash) (registry_Instances reg workloadID)))"

section \<open>Pushing a configuration\<close>

definition hex_val :: "char \<Rightarrow> nat option" where
  "hex_val c =
    (let n = byte_of c in
     if 48 \<le> n \<and> n \<le> 57 then Some (n - 48)
     else if 97 \<le> n \<and> n \<le> 102 then Some (n - 87)
     else if 65 \<le> n \<and> n \<le> 70 then Some (n - 55)
     else None)"

fun hex_DecodeString :: "string \<Rightarrow> nat list option" where
  "hex_DecodeString [] = Some []"
| "hex_DecodeString [_] = None"
| "hex_DecodeString (a # b # s) =
    (case (hex_val a, hex_val b, hex_DecodeString s) of
       (Some x, Some y, Some bs) \<Rightarrow> Some ((16 * x + y) # bs)
     | _ \<Rightarrow> None)"

definition makeMsg :: "string \<Rightarrow> string \<Rightarrow> string + ServerToAgent" where
  "makeMsg yamlContent uid =
    (case hex_DecodeString uid of
       Some raw \<Rightarrow>
         if length raw \<noteq> 16 then Inl (''instance '' @ uid @ '' has invalid UID'')
         else Inr \<lparr>sa_InstanceUid = raw, sa_Flags = NoFlags, sa_RemoteConfig = Some (yamlContent, Sum256 yamlContent)\<rparr>
     | None \<Rightarrow> Inl (''instance '' @ uid @ '' has invalid UID''))"

definition disconnectSessionAfterSendError :: "nat \<Rightarrow> Server \<Rightarrow> Server" where
  "disconnectSessionAfterSendError session s =
    s\<lparr>sv_tokens := Remove session (sv_tokens s), sv_closing := sv_closing s @ [session]\<rparr>"

definition sendToInstance :: "server_env \<Rightarrow> string \<Rightarrow> ServerToAgent \<Rightarrow> Server \<Rightarrow> string option \<times> Server" where
  "sendToInstance env uid msg s =
    (case mget (sv_conns s) uid of
       None \<Rightarrow> (Some (''instance '' @ uid @ '' not connected''), s)
     | Some session \<Rightarrow>
         (case Acquire session (se_now env) (sv_tokens s) of
            (None, m) \<Rightarrow> (Some (''instance '' @ uid @ '' not connected''), s\<lparr>sv_tokens := m\<rparr>)
          | (Some lease, m) \<Rightarrow>
              (case se_send env uid of
                 None \<Rightarrow> (None, s\<lparr>sv_tokens := Release lease m, sv_sent := sv_sent s @ [(session, msg)]\<rparr>)
               | Some err \<Rightarrow> (Some err, disconnectSessionAfterSendError session (s\<lparr>sv_tokens := Release lease m\<rparr>)))))"

definition push_one :: "server_env \<Rightarrow> string \<Rightarrow> string \<Rightarrow> Server \<Rightarrow> string option \<times> Server" where
  "push_one env yamlContent uid s =
    (case makeMsg yamlContent uid of Inl err \<Rightarrow> (Some err, s) | Inr msg \<Rightarrow> sendToInstance env uid msg s)"

text \<open>The loop of a broadcast keeps the first error.\<close>

fun push_all :: "server_env \<Rightarrow> string \<Rightarrow> Instance list \<Rightarrow> string option \<times> Server \<Rightarrow> string option \<times> Server" where
  "push_all env yamlContent [] (firstErr, s) = (firstErr, s)"
| "push_all env yamlContent (i # is) (firstErr, s) =
    (case push_one env yamlContent (in_InstanceUID i) s of
       (err, s') \<Rightarrow> push_all env yamlContent is (if firstErr = None then err else firstErr, s'))"

definition PushConfig :: "server_env \<Rightarrow> string \<Rightarrow> string \<Rightarrow> string \<Rightarrow> Server \<Rightarrow> string option \<times> Server" where
  "PushConfig env workloadID yamlContent targetInstanceUID s =
    (if targetInstanceUID \<noteq> [] then
       (case LookupWorkload (sv_registry s) targetInstanceUID of
          None \<Rightarrow> (Some (''instance '' @ targetInstanceUID @ '' not connected''), s)
        | Some bound \<Rightarrow>
            if bound \<noteq> workloadID then
              (Some (''instance '' @ targetInstanceUID @ '' belongs to workload '' @ bound @ '', not '' @ workloadID), s)
            else push_one env yamlContent targetInstanceUID s)
     else
       let instances = registry_Instances (sv_registry s) workloadID in
       if instances = [] then (Some (''workload '' @ workloadID @ '' has no connected instance''), s)
       else push_all env yamlContent instances (None, s))"

section \<open>The workload row\<close>

definition TrustedSelectorLabelPrefix :: string where
  "TrustedSelectorLabelPrefix = ''otel.magnify/selector.''"

text \<open>The zero value of \<open>models.Workload\<close>.\<close>

definition zero_workload :: Workload where
  "zero_workload =
    \<lparr>wl_ID = [], wl_FingerprintSource = [], wl_FingerprintKeys = [], wl_DisplayName = [], wl_Type = [], wl_Version = [],
     wl_Status = [], wl_LastSeenAt = 0, wl_Labels = [], wl_ActiveConfigID = None, wl_ActiveConfigHash = [],
     wl_RemoteConfigStatus = None, wl_CurrentConfigPush = None, wl_AvailableComponents = None, wl_AcceptsRemoteConfig = False,
     wl_RetentionUntil = None, wl_ArchivedAt = None\<rparr>"

definition rebuild_labels :: "(string, string) gomap \<Rightarrow> (string, string) gomap \<Rightarrow> (string, string) gomap" where
  "rebuild_labels old attrs =
    foldl (\<lambda>labels (k, v).
        if k \<in> {''service.name'', ''service.version''} then labels
        else if HasPrefix k TrustedSelectorLabelPrefix then labels
        else mput k v labels)
      (filter (\<lambda>(k, v). HasPrefix k TrustedSelectorLabelPrefix) old) attrs"

definition persistEffectiveConfig ::
  "server_env \<Rightarrow> string \<Rightarrow> string \<Rightarrow> (string, string) gomap option option \<Rightarrow> Server \<Rightarrow> string \<times> Server" where
  "persistEffectiveConfig env workloadID displayName effective s =
    (case effective of
       Some (Some files) \<Rightarrow>
         (let buf = concat (map (mstr files) (sort (mkeys files))) in
          if buf = [] then ([], s)
          else
            let configID = hex_EncodeToString (Sum256 buf) in
            if (case read_call (se_fate env GetReported) (GetConfig (sv_db s) configID) of Some (Inr _) \<Rightarrow> True | _ \<Rightarrow> False)
            then (configID, s)
            else
              let name = or_fallback displayName (if length workloadID > 8 then take 8 workloadID else workloadID)
                           @ ''-reported-'' @ take 8 configID;
                  cfg = \<lparr>cf_ID = configID, cf_Name = name, cf_Content = buf, cf_CreatedAt = se_clock env CreateReported,
                         cf_CreatedBy = ''agent-reported'', cf_Kind = [], cf_Status = [], cf_Category = [], cf_Stack = [],
                         cf_Description = [], cf_Variables = [], cf_Tags = [], cf_BuiltIn = False, cf_SourceType = [],
                         cf_GitURL = [], cf_GitProvider = [], cf_GitRef = [], cf_GitPath = [], cf_CommitSHA = [],
                         cf_ImportedAt = None\<rparr>
              in case exec_at env CreateReported (CreateConfig cfg) s of
                   (True, s) \<Rightarrow> (configID, s) | (False, s) \<Rightarrow> ([], s))
     | _ \<Rightarrow> ([], s))"

text \<open>The row built from the description, before the effective configuration is stored.\<close>

definition described_workload ::
  "InstanceRegistry \<Rightarrow> gotime \<Rightarrow> string \<Rightarrow> FingerprintResult \<Rightarrow> (string, string) gomap \<Rightarrow> AgentToServer \<Rightarrow> Workload \<Rightarrow> Workload" where
  "described_workload reg now workloadID fp attrs msg w =
    w\<lparr>wl_ID := workloadID, wl_FingerprintSource := fp_Source fp, wl_FingerprintKeys := fp_Keys fp,
      wl_DisplayName := (if mstr attrs ''service.name'' \<noteq> [] then mstr attrs ''service.name'' else wl_DisplayName w),
      wl_Version := (if mstr attrs ''service.version'' \<noteq> [] then mstr attrs ''service.version'' else wl_Version w),
      wl_Type := classifyAgent attrs, wl_Status := AggregatedStatus reg workloadID, wl_LastSeenAt := now,
      wl_AcceptsRemoteConfig := (AcceptsRemoteConfig \<in> set (as_Capabilities msg)),
      wl_Labels := rebuild_labels (wl_Labels w) attrs, wl_RetentionUntil := None\<rparr>"

definition upsertWorkloadFromDescription ::
  "server_env \<Rightarrow> string \<Rightarrow> FingerprintResult \<Rightarrow> (string, string) gomap \<Rightarrow> AgentToServer \<Rightarrow> Server \<Rightarrow> Server" where
  "upsertWorkloadFromDescription env workloadID fp attrs msg s =
    (let prev = (case fetch_workload env GetPrevious workloadID s of Some w \<Rightarrow> w | None \<Rightarrow> zero_workload);
         w = described_workload (sv_registry s) (se_clock env UpsertDescribed) workloadID fp attrs msg prev
     in case persistEffectiveConfig env workloadID (wl_DisplayName w) (as_EffectiveConfig msg) s of
          (cfgID, s) \<Rightarrow>
            (let w = (if cfgID \<noteq> [] then w\<lparr>wl_ActiveConfigID := Some cfgID\<rparr> else w);
                 w = (case flattenAvailableComponents (as_AvailableComponents msg) of
                        None \<Rightarrow> w | Some ac \<Rightarrow> w\<lparr>wl_AvailableComponents := Some ac\<rparr>)
             in if wl_Type w = [] then s
                else case exec_at env UpsertDescribed (UpsertWorkload w) s of
                  (False, s) \<Rightarrow> s
                | (True, s) \<Rightarrow> snd (exec_at env ClearRetention (\<lambda>d. Inr (ClearWorkloadRetention workloadID d)) s)))"

section \<open>Messages of an admitted agent\<close>

definition emitBindEvent :: "server_env \<Rightarrow> string \<Rightarrow> string \<Rightarrow> Instance \<Rightarrow> bool \<Rightarrow> string \<Rightarrow> string \<Rightarrow> Server \<Rightarrow> Server" where
  "emitBindEvent env workloadID uid ins isFresh prevVersion version s =
    (if isFresh then
       emitEvent env InsertBindEvent
         \<lparr>ev_ID = 0, ev_WorkloadID = workloadID, ev_InstanceUID = uid, ev_PodName = in_PodName ins, ev_EventType = ''connected'',
          ev_Version = in_Version ins, ev_PrevVersion = [], ev_OccurredAt = se_clock env InsertBindEvent\<rparr> s
     else if prevVersion \<noteq> [] \<and> prevVersion \<noteq> version then
       emitEvent env InsertBindEvent
         \<lparr>ev_ID = 0, ev_WorkloadID = workloadID, ev_InstanceUID = uid, ev_PodName = in_PodName ins, ev_EventType = ''version_changed'',
          ev_Version = version, ev_PrevVersion = prevVersion, ev_OccurredAt = se_clock env InsertBindEvent\<rparr> s
     else s)"

definition shouldRequestAvailableComponents :: "server_env \<Rightarrow> string \<Rightarrow> AgentToServer \<Rightarrow> Server \<Rightarrow> bool" where
  "shouldRequestAvailableComponents env workloadID msg s =
    (if ReportsAvailableComponents \<notin> set (as_Capabilities msg) then False
     else case fetch_workload env GetForComponents workloadID s of
       None \<Rightarrow> False | Some wl \<Rightarrow> wl_AvailableComponents wl = None)"

definition described_instance :: "(string, string) gomap \<Rightarrow> AgentToServer \<Rightarrow> Instance" where
  "described_instance attrs msg =
    \<lparr>in_InstanceUID = [], in_PodName = mstr attrs ''k8s.pod.name'', in_Version = mstr attrs ''service.version'',
     in_ConnectedAt = 0, in_LastMessageAt = 0,
     in_EffectiveConfigHash = (case as_RemoteConfigStatus msg of None \<Rightarrow> [] | Some r \<Rightarrow> hex_EncodeToString (rr_LastRemoteConfigHash r)),
     in_Healthy = (as_Health msg \<noteq> Some False), in_AcceptsRemoteConfig = (AcceptsRemoteConfig \<in> set (as_Capabilities msg)),
     in_RemoteConfigCapabilityKnown = True, in_RemoteConfigStatus = None\<rparr>"

definition handleAgentDescription ::
  "server_env \<Rightarrow> string \<Rightarrow> AgentDescription \<Rightarrow> AgentToServer \<Rightarrow> Server \<Rightarrow> string \<times> bool \<times> Server" where
  "handleAgentDescription env uid desc msg s =
    (let attrs = flattenAttrs (ad_IdentifyingAttributes desc) (ad_NonIdentifyingAttributes desc);
         fp = Fingerprint attrs uid;
         workloadID = fp_ID fp;
         version = mstr attrs ''service.version'';
         prevVersion = (case PreviousVersion (sv_registry s) uid of None \<Rightarrow> [] | Some v \<Rightarrow> v);
         ins = described_instance attrs msg
     in case BindInstance (se_clock env BindTime) uid workloadID ins (sv_registry s) of
          (isFresh, reg) \<Rightarrow>
            (let s = s\<lparr>sv_registry := reg, sv_grace := Cancel workloadID (sv_grace s)\<rparr>;
                 s = upsertWorkloadFromDescription env workloadID fp attrs msg s;
                 s = emitBindEvent env workloadID uid ins isFresh prevVersion version s
             in (workloadID, shouldRequestAvailableComponents env workloadID msg s, s)))"

definition known_update :: "AgentToServer \<Rightarrow> Instance \<Rightarrow> Instance" where
  "known_update msg i =
    (let i = (case as_Health msg of None \<Rightarrow> i | Some h \<Rightarrow> i\<lparr>in_Healthy := h\<rparr>)
     in case as_RemoteConfigStatus msg of
          None \<Rightarrow> i | Some r \<Rightarrow> i\<lparr>in_EffectiveConfigHash := hex_EncodeToString (rr_LastRemoteConfigHash r)\<rparr>)"

definition handleKnownInstanceUpdate :: "server_env \<Rightarrow> string \<Rightarrow> AgentToServer \<Rightarrow> Server \<Rightarrow> string option \<times> Server" where
  "handleKnownInstanceUpdate env uid msg s =
    (case LookupWorkload (sv_registry s) uid of
       None \<Rightarrow> (None, s)
     | Some wl \<Rightarrow>
         (Some wl, s\<lparr>sv_registry := snd (UpdateInstance (se_clock env UpdateTime) uid (known_update msg) (sv_registry s))\<rparr>))"

definition launchAutoPush :: "string \<Rightarrow> string \<Rightarrow> string \<Rightarrow> nat option \<Rightarrow> Server \<Rightarrow> Server" where
  "launchAutoPush configID workloadID uid parentLease s =
    (if sv_stopping s then s
     else case parentLease of
       None \<Rightarrow> s\<lparr>sv_autopush := sv_autopush s @ [(configID, workloadID, uid, None)]\<rparr>
     | Some l \<Rightarrow>
         (case Fork l (sv_tokens s) of
            (None, m) \<Rightarrow> s\<lparr>sv_tokens := m\<rparr>
          | (Some lease, m) \<Rightarrow> s\<lparr>sv_tokens := m, sv_autopush := sv_autopush s @ [(configID, workloadID, uid, Some lease)]\<rparr>))"

definition maybeTriggerAutoPush :: "string \<Rightarrow> string \<Rightarrow> Workload \<Rightarrow> nat option \<Rightarrow> Server \<Rightarrow> Server" where
  "maybeTriggerAutoPush workloadID uid wl parentLease s =
    (case wl_ActiveConfigID wl of
       Some configID \<Rightarrow>
         if wl_ActiveConfigHash wl = [] then s
         else foldl (\<lambda>s i. if in_InstanceUID i \<noteq> uid then s
                           else if in_EffectiveConfigHash i \<noteq> [] \<and> in_EffectiveConfigHash i \<noteq> wl_ActiveConfigHash wl
                           then launchAutoPush configID workloadID uid parentLease s else s)
                s (registry_Instances (sv_registry s) workloadID)
     | None \<Rightarrow> s)"

text \<open>The goroutine of an auto-push; it releases its lease when it returns.\<close>

definition triggerAutoPush :: "server_env \<Rightarrow> string \<Rightarrow> string \<Rightarrow> string \<Rightarrow> Server \<Rightarrow> Server" where
  "triggerAutoPush env configID workloadID instanceUID s =
    (case read_call (se_fate env GetAutoPush) (GetConfig (sv_db s) configID) of
       Some (Inr cfg) \<Rightarrow> snd (PushConfig env workloadID (cf_Content cfg) instanceUID s)
     | _ \<Rightarrow> s)"

definition refreshWorkloadState :: "server_env \<Rightarrow> string \<Rightarrow> string \<Rightarrow> nat option \<Rightarrow> Server \<Rightarrow> Server" where
  "refreshWorkloadState env workloadID uid parentLease s =
    (case fetch_workload env GetRefresh workloadID s of
       None \<Rightarrow> s
     | Some wl \<Rightarrow>
         (let wl = wl\<lparr>wl_Status := AggregatedStatus (sv_registry s) workloadID, wl_LastSeenAt := se_clock env UpsertRefresh\<rparr>;
              s = snd (exec_at env UpsertRefresh (UpsertWorkload wl) s);
              s = broadcast_to (WorkloadUpdate wl (registry_Count (sv_registry s) workloadID)
                    (countDrift (sv_registry s) workloadID (wl_ActiveConfigHash wl))) s
          in maybeTriggerAutoPush workloadID uid wl parentLease s))"

section \<open>Reported statuses and the automatic rollback\<close>

definition InstanceStatusSent :: string where "InstanceStatusSent = ''sent''"

text \<open>The push a rollback records.\<close>

definition rollback_push :: "gotime \<Rightarrow> string \<Rightarrow> string \<Rightarrow> string \<Rightarrow> Instance list \<Rightarrow> WorkloadConfig" where
  "rollback_push now workloadID configID failedHash instances =
    \<lparr>wc_WorkloadID = workloadID, wc_ConfigID = configID, wc_ConfigHash = [], wc_AppliedAt = now,
     wc_Status = PushStatusRollbackStarted, wc_ErrorMessage = [], wc_PushedBy = ''auto-rollback'', wc_Content = [], wc_Label = None,
     wc_PushID = [], wc_SubmittedAt = now, wc_SentAt = None, wc_UpdatedAt = 0, wc_OpAMPStatusTimeoutAt = None,
     wc_TimedOutWaiting = False, wc_TimeoutMessage = [], wc_RollbackOfPushID = failedHash, wc_Timeline = [],
     wc_InstanceStatuses = map (\<lambda>i. \<lparr>is_InstanceUID = in_InstanceUID i, is_PodName = in_PodName i, is_Node = [], is_Required = True,
        is_Status = InstanceStatusSent, is_ConfigHash = configID, is_UpdatedAt = now, is_ErrorCause = [], is_ErrorMessage = [],
        is_TimedOut = False\<rparr>) instances,
     wc_TargetCount = 0, wc_AppliedCount = 0, wc_FailedCount = 0, wc_PendingCount = 0, wc_TimedOutCount = 0, wc_NoStatusCount = 0,
     wc_ErrorGroups = [], wc_IsCurrent = False, wc_IsPrevious = False, wc_IsLastKnownGood = False, wc_IsFailedCandidate = False,
     wc_ContentAvailable = False\<rparr>"

definition attemptAutoRollback :: "server_env \<Rightarrow> string \<Rightarrow> string \<Rightarrow> string \<Rightarrow> Server \<Rightarrow> Server" where
  "attemptAutoRollback env workloadID failedHash reason s =
    (case read_call (se_fate env RollbackLookup) (GetRollbackTarget (se_clock env RollbackLookup) (sv_db s) workloadID failedHash) of
       Some (Some target) \<Rightarrow>
         (let config = rt_Config target in
          if wc_ConfigID config = failedHash then s
          else if wc_Content config = [] then s
          else case PushConfig env workloadID (wc_Content config) [] s of
            (Some _, s) \<Rightarrow> s
          | (None, s) \<Rightarrow>
              (let push = rollback_push (se_clock env RecordRollback) workloadID (wc_ConfigID config) failedHash
                            (registry_Instances (sv_registry s) workloadID);
                   s = snd (exec_at env RecordRollback (RecordWorkloadConfig (se_clock env RecordRollback) push) s);
                   s = snd (exec_at env MarkRollbackSent
                         (\<lambda>d. Inr (MarkWorkloadConfigSent workloadID (wc_ConfigID config) (se_clock env MarkRollbackSent) d)) s)
               in broadcast_to (AutoRollback workloadID failedHash (wc_ConfigID config) reason (rt_Kind target)) s))
     | _ \<Rightarrow> s)"

definition handleRemoteConfigStatus :: "server_env \<Rightarrow> string \<Rightarrow> string \<Rightarrow> RemoteConfigReport \<Rightarrow> Server \<Rightarrow> Server" where
  "handleRemoteConfigStatus env workloadID instanceUID rcs s =
    (let statusStr = remoteConfigStatusString (rr_Status rcs) in
     if statusStr = [] then s
     else
       let errorMessage = SanitizeRemoteConfigErrorMessage (rr_ErrorMessage rcs);
           configHash = hex_EncodeToString (rr_LastRemoteConfigHash rcs);
           snap = \<lparr>rs_Status = statusStr, rs_ConfigHash = configHash, rs_ErrorMessage = errorMessage,
                   rs_UpdatedAt = se_clock env ReportTime, rs_PushStatus = None\<rparr>;
           s = s\<lparr>sv_registry := snd (UpdateInstance (se_clock env ReportUpdateTime) instanceUID
                   (\<lambda>i. i\<lparr>in_EffectiveConfigHash := configHash, in_RemoteConfigStatus := Some snap\<rparr>) (sv_registry s))\<rparr>;
           s = snd (exec_at env UpdateStatus (UpdateWorkloadConfigStatus workloadID configHash statusStr errorMessage) s);
           s = snd (exec_at env UpdateInstanceStatus
                 (UpdateWorkloadConfigInstanceStatus (se_clock env UpdateInstanceStatus) workloadID configHash instanceUID statusStr
                   errorMessage (rs_UpdatedAt snap)) s);
           snap = (case read_call (se_fate env GetLatestPush) (GetLatestWorkloadConfig (se_clock env GetLatestPush) (sv_db s) workloadID) of
                     None \<Rightarrow> snap | Some push \<Rightarrow> snap\<lparr>rs_PushStatus := push\<rparr>);
           s = (case fetch_workload env GetForStatus workloadID s of
                  None \<Rightarrow> s
                | Some wl \<Rightarrow> snd (exec_at env UpsertStatus (UpsertWorkload (wl\<lparr>wl_RemoteConfigStatus := Some snap\<rparr>)) s));
           s = broadcast_to (ConfigStatus workloadID snap) s
       in if statusStr = ''failed'' then attemptAutoRollback env workloadID configHash errorMessage s else s)"

definition recordRemoteConfigStatus :: "server_env \<Rightarrow> string \<Rightarrow> string \<Rightarrow> RemoteConfigReport option \<Rightarrow> Server \<Rightarrow> Server" where
  "recordRemoteConfigStatus env workloadID uid status s =
    (case status of None \<Rightarrow> s | Some rcs \<Rightarrow> handleRemoteConfigStatus env workloadID uid rcs s)"

definition handleAcceptedMessageWithLease :: "server_env \<Rightarrow> AgentToServer \<Rightarrow> nat option \<Rightarrow> Server \<Rightarrow> ServerToAgent \<times> Server" where
  "handleAcceptedMessageWithLease env msg parentLease s =
    (let uid = hex_EncodeToString (as_InstanceUid msg);
         continue = (\<lambda>workloadID requestComponents s.
           (replyToAgent msg requestComponents,
            recordRemoteConfigStatus env workloadID uid (as_RemoteConfigStatus msg)
              (refreshWorkloadState env workloadID uid parentLease s)))
     in case as_AgentDescription msg of
          Some desc \<Rightarrow>
            (case handleAgentDescription env uid desc msg s of (workloadID, request, s) \<Rightarrow> continue workloadID request s)
        | None \<Rightarrow>
            (case handleKnownInstanceUpdate env uid msg s of
               (None, s) \<Rightarrow> (reportFullStateReply msg, s)
             | (Some workloadID, s) \<Rightarrow> continue workloadID False s))"

section \<open>Sessions\<close>

datatype connection_response = Unauthorized | ServiceUnavailable | Accepted OpAMPTokenPrincipal

definition header_separators :: "char list" where
  "header_separators = [CHR '' '', CHR 0x09, CHR 0x0D, CHR 0x0A]"

text \<open>
  \<open>parse\<close> is the UUID parser, \<open>queryOK\<close> tells whether the token table could be read. The session that an accepted
  connection gets is a step of its own.
\<close>

definition authenticateRequest ::
  "uuid_parser \<Rightarrow> bool \<Rightarrow> gotime \<Rightarrow> token_db \<Rightarrow> bool \<Rightarrow> string list \<Rightarrow> connection_response" where
  "authenticateRequest parse queryOK now tokens stopping authorization =
    (if stopping then ServiceUnavailable
     else case authorization of
       [auth] \<Rightarrow>
         if \<not> HasPrefix auth ''Bearer '' \<or> Contains auth '','' then Unauthorized
         else
           let value = TrimPrefix auth ''Bearer '' in
           if value = [] \<or> list_ex (\<lambda>c. c \<in> set header_separators) value then Unauthorized
           else (case ParseAndHash parse value of
                   None \<Rightarrow> Unauthorized
                 | Some (ident, hash) \<Rightarrow>
                     (case ValidateOpAMPToken parse queryOK ident hash now tokens of
                        Inl InvalidToken \<Rightarrow> Unauthorized
                      | Inl _ \<Rightarrow> ServiceUnavailable
                      | Inr p \<Rightarrow> Accepted p))
     | _ \<Rightarrow> Unauthorized)"

text \<open>
  The first critical section of \<open>processSessionMessage\<close>: the message is refused, belongs to the
  admitted session, or the session now owns the instance and has to be admitted.
\<close>

datatype claim = Refused | AlreadyAdmitted | MustAdmit

abbreviation fields :: "Server \<Rightarrow> nat \<Rightarrow> session_fields" where
  "fields s k \<equiv> sv_fields s ! k"

definition claim_instance :: "nat \<Rightarrow> nat \<Rightarrow> AgentToServer option \<Rightarrow> Server \<Rightarrow> claim \<times> Server" where
  "claim_instance session conn msg s =
    (case msg of
       None \<Rightarrow> (Refused, s)
     | Some msg \<Rightarrow>
         if length (as_InstanceUid msg) \<noteq> 16 \<or> ts_conn (sess (sv_tokens s) session) \<noteq> Some conn then (Refused, s)
         else
           let uid = hex_EncodeToString (as_InstanceUid msg); f = fields s session in
           if sf_admitted f then
             (if sf_uid f = uid \<and> mget (sv_conns s) uid = Some session then AlreadyAdmitted else Refused, s)
           else if sf_uid f \<noteq> [] then (Refused, s)
           else if (case mget (sv_conns s) uid of None \<Rightarrow> False | Some owner \<Rightarrow> owner \<noteq> session) then (Refused, s)
           else (MustAdmit, s\<lparr>sv_fields := (sv_fields s)[session := f\<lparr>sf_uid := uid\<rparr>], sv_conns := mput uid session (sv_conns s)\<rparr>))"

text \<open>The second one, after the use of the token was recorded.\<close>

definition admit_session :: "nat \<Rightarrow> string \<Rightarrow> Server \<Rightarrow> bool \<times> Server" where
  "admit_session session uid s =
    (if mget (sv_conns s) uid \<noteq> Some session then (False, s)
     else (True, s\<lparr>sv_fields := (sv_fields s)[session := (fields s session)\<lparr>sf_admitted := True\<rparr>]\<rparr>))"

text \<open>
  The critical section of \<open>releaseSessionOnce\<close> under its once. It gives the workload that lost the instance with the pod of the
  instance; the events follow outside the mutex.
\<close>

definition release_session :: "nat \<Rightarrow> Server \<Rightarrow> (string \<times> string \<times> string) option \<times> Server" where
  "release_session session s =
    (let f = fields s session;
         s = s\<lparr>sv_fields := (sv_fields s)[session := f\<lparr>sf_released := True\<rparr>]\<rparr> in
     if sf_released f then (None, s)
     else if sf_uid f = [] \<or> mget (sv_conns s) (sf_uid f) \<noteq> Some session then (None, s)
     else
       let uid = sf_uid f;
           podName = (case LookupWorkload (sv_registry s) uid of
                        None \<Rightarrow> []
                      | Some wl \<Rightarrow> (case find (\<lambda>i. in_InstanceUID i = uid) (registry_Instances (sv_registry s) wl) of
                                      None \<Rightarrow> [] | Some i \<Rightarrow> in_PodName i))
       in case UnbindInstance uid (sv_registry s) of
            (workloadID, reg) \<Rightarrow>
              (if workloadID = [] then None else Some (workloadID, uid, podName),
               s\<lparr>sv_conns := mdel uid (sv_conns s), sv_registry := reg,
                 sv_fields := (sv_fields s)[session := f\<lparr>sf_released := True, sf_uid := [], sf_admitted := False\<rparr>]\<rparr>))"

definition release_effects :: "server_env \<Rightarrow> string \<times> string \<times> string \<Rightarrow> Server \<Rightarrow> Server" where
  "release_effects env r s =
    (case r of (workloadID, uid, podName) \<Rightarrow>
      (let s = emitEvent env InsertReleaseEvent
             \<lparr>ev_ID = 0, ev_WorkloadID = workloadID, ev_InstanceUID = uid, ev_PodName = podName, ev_EventType = ''disconnected'',
              ev_Version = [], ev_PrevVersion = [], ev_OccurredAt = se_clock env InsertReleaseEvent\<rparr> s
       in if registry_Count (sv_registry s) workloadID = 0 then s\<lparr>sv_grace := Schedule workloadID (sv_grace s)\<rparr> else s))"

definition releaseSessionOnce :: "server_env \<Rightarrow> nat \<Rightarrow> Server \<Rightarrow> Server" where
  "releaseSessionOnce env session s =
    (case release_session session s of (None, s) \<Rightarrow> s | (Some r, s) \<Rightarrow> release_effects env r s)"

text \<open>The callback of the grace timer: its check and its write are apart.\<close>

definition grace_check :: "string \<Rightarrow> Server \<Rightarrow> bool" where
  "grace_check workloadID s \<longleftrightarrow> \<not> registry_Count (sv_registry s) workloadID > 0"

definition grace_disconnect :: "server_env \<Rightarrow> string \<Rightarrow> Server \<Rightarrow> Server" where
  "grace_disconnect env workloadID s =
    (case exec_at env MarkDisconnected
            (MarkWorkloadDisconnected workloadID (timeAdd (se_clock env MarkDisconnected) (sv_retention s))) s of
       (False, s) \<Rightarrow> s
     | (True, s) \<Rightarrow>
         (case fetch_workload env GetDisconnected workloadID s of
            None \<Rightarrow> s | Some wl \<Rightarrow> broadcast_to (WorkloadUpdate wl 0 0) s))"

definition graceExpired :: "server_env \<Rightarrow> string \<Rightarrow> Server \<Rightarrow> Server" where
  "graceExpired env workloadID s = (if grace_check workloadID s then grace_disconnect env workloadID s else s)"

end
