(* ===== verification/Server_Effects.thy ===== *)
theory Server_Effects
  imports Opamp_Server
begin

text \<open>
  What handling events of agents does to the database. The interface between the server and its store is a
  locale: a relation on databases that every statement of the server respects is respected by every handler.
  It is interpreted for the consistency of the tables, for the trusted labels, and for the
  columns the server keeps.
\<close>

section \<open>The statements of the server\<close>

text \<open>
  The rows the server upserts: built from what it read of the row, or from nothing when there is none or, if \<open>lossy\<close>, when the
  read failed.
\<close>

definition server_upsert :: "bool \<Rightarrow> store_db \<Rightarrow> Workload \<Rightarrow> bool" where
  "server_upsert lossy d w \<longleftrightarrow>
    (\<exists>prev. (GetWorkload d (wl_ID w) = Inr prev \<or> (prev = zero_workload \<and> (lossy \<or> \<not> has_workload d (wl_ID w))))
      \<and> (mwf (wl_FingerprintKeys w) \<or> wl_FingerprintKeys w = wl_FingerprintKeys prev)
      \<and> wl_ActiveConfigHash w = wl_ActiveConfigHash prev \<and> wl_ArchivedAt w = wl_ArchivedAt prev
      \<and> ((\<exists>attrs. mwf attrs \<and> wl_Labels w = rebuild_labels (wl_Labels prev) attrs) \<or> wl_Labels w = wl_Labels prev))"

locale server_statements =
  fixes R :: "store_db \<Rightarrow> store_db \<Rightarrow> bool"
    and lossy :: bool
  assumes refl: "R d d"
    and trans: "R d0 d1 \<Longrightarrow> R d1 d2 \<Longrightarrow> R d0 d2"
    and create_config: "CreateConfig cfg d = Inr d' \<Longrightarrow> R d d'"
    and insert_event: "InsertWorkloadEvent t e d = Inr (n, d') \<Longrightarrow> R d d'"
    and upsert: "server_upsert lossy d w \<Longrightarrow> UpsertWorkload w d = Inr d' \<Longrightarrow> R d d'"
    and clear_retention: "R d (ClearWorkloadRetention i d)"
    and record_push: "RecordWorkloadConfig t wc d = Inr d' \<Longrightarrow> R d d'"
    and mark_sent: "R d (MarkWorkloadConfigSent i c t d)"
    and update_status: "UpdateWorkloadConfigStatus i c st em d = Inr d' \<Longrightarrow> R d d'"
    and update_instance: "UpdateWorkloadConfigInstanceStatus t i c u st em x d = Inr d' \<Longrightarrow> R d d'"
    and mark_disconnected: "MarkWorkloadDisconnected i t d = Inr d' \<Longrightarrow> R d d'"
begin

lemma exec_at:
  assumes "\<And>d'. op (sv_db s) = Inr d' \<Longrightarrow> R (sv_db s) d'"
  shows "R (sv_db s) (sv_db (snd (exec_at env c op s)))"
  using assms refl by (auto simp: exec_at_def exec_call_def split: sum.splits)

lemma then_exec_at:
  assumes "R d (sv_db s)" and "\<And>d'. op (sv_db s) = Inr d' \<Longrightarrow> R (sv_db s) d'"
  shows "R d (sv_db (snd (exec_at env c op s)))"
  using assms(1) exec_at [OF assms(2)] by (rule trans)

lemma emit: "R (sv_db s) (sv_db (emitEvent env c e s))"
  using refl insert_event by (auto simp: emitEvent_def broadcast_to_def split: sum.splits)

end

lemma sv_db_broadcast [simp]: "sv_db (broadcast_to b s) = sv_db s"
  by (simp add: broadcast_to_def)

lemma fetch_workload_Some: "fetch_workload env c i s = Some w \<Longrightarrow> GetWorkload (sv_db s) i = Inr w"
  by (auto simp: fetch_workload_def read_call_def split: option.splits sum.splits if_splits)

lemma fetch_workload_None: "fetch_workload env c i s = None \<Longrightarrow> se_fate env c = Works \<Longrightarrow> \<not> has_workload (sv_db s) i"
  using row_get_None [of wl_ID i "sd_workloads (sv_db s)"] by (simp add: fetch_workload_def GetWorkload_def split: option.splits)

lemma GetWorkload_ID: "GetWorkload d i = Inr w \<Longrightarrow> wl_ID w = i"
  using row_get_Some by (fastforce simp: GetWorkload_def split: option.splits)

section \<open>Pushes do not touch the database\<close>

lemma sendToInstance_db [simp]: "sv_db (snd (sendToInstance env uid msg s)) = sv_db s"
  by (auto simp: sendToInstance_def disconnectSessionAfterSendError_def split: option.splits prod.splits)

lemma push_one_db [simp]: "sv_db (snd (push_one env y uid s)) = sv_db s"
  by (simp add: push_one_def split: sum.split)

lemma push_all_db [simp]: "sv_db (snd (push_all env y is es)) = sv_db (snd es)"
proof (induction env y "is" es rule: push_all.induct)
  case (2 env y i "is" e s)
  then show ?case
    using push_one_db [of env y "in_InstanceUID i" s] by (cases "push_one env y (in_InstanceUID i) s") simp
qed simp

lemma PushConfig_db [simp]: "sv_db (snd (PushConfig env w y t s)) = sv_db s"
  by (simp add: PushConfig_def Let_def split: option.split)

lemma launchAutoPush_db [simp]: "sv_db (launchAutoPush c w u l s) = sv_db s"
  by (simp add: launchAutoPush_def split: option.split prod.split)

lemma foldl_frame: "(\<And>s x. f (g s x) = f s) \<Longrightarrow> f (foldl g s xs) = f s"
  by (induction xs arbitrary: s) auto

lemma maybeTriggerAutoPush_db [simp]: "sv_db (maybeTriggerAutoPush w u wl l s) = sv_db s"
  by (auto simp: maybeTriggerAutoPush_def split: option.split intro!: foldl_frame)

section \<open>Every handler respects the relation\<close>

lemma mwf_flattenAttrs: "mwf (flattenAttrs a b)"
proof -
  have "mwf m \<Longrightarrow> mwf (foldl flattenKV m kvs)" for m kvs
    by (induction kvs arbitrary: m) (auto simp: flattenKV_def Let_def split: option.split intro: mwf_mput)
  then show ?thesis
    by (simp add: flattenAttrs_def)
qed

lemma mwf_fingerprint: "mwf (fp_Keys (Fingerprint attrs uid))"
  by (auto simp: Fingerprint_def Let_def mwf_def split: option.split)

lemma persist_row [simp]: "sd_workloads (sv_db (snd (persistEffectiveConfig env w n f s))) = sd_workloads (sv_db s)"
proof -
  have "sd_workloads (sv_db (snd (case exec_at env CreateReported (CreateConfig cfg) s of (True, s) \<Rightarrow> (i, s) | (False, s) \<Rightarrow> ([], s))))
      = sd_workloads (sv_db s)" for cfg i
    by (auto simp: exec_at_def exec_call_def CreateConfig_def Let_def split: bool.splits sum.splits if_splits)
  then show ?thesis
    by (auto simp: persistEffectiveConfig_def Let_def split: option.split)
qed

context server_statements
begin

lemma persist: "R (sv_db s) (sv_db (snd (persistEffectiveConfig env w n f s)))"
proof -
  have "R (sv_db s) (sv_db (snd (case exec_at env CreateReported (CreateConfig cfg) s of (True, s) \<Rightarrow> (i, s) | (False, s) \<Rightarrow> ([], s))))"
    for cfg i
    using exec_at [of "CreateConfig cfg" s env CreateReported] create_config
    by (cases "exec_at env CreateReported (CreateConfig cfg) s") (auto split: bool.splits)
  then show ?thesis
    using refl by (auto simp: persistEffectiveConfig_def Let_def split: option.split)
qed

lemma upsert_described: "R (sv_db s) (sv_db (upsertWorkloadFromDescription env w (Fingerprint attrs uid) attrs msg s))"
  if attrs: "mwf attrs" and read: "lossy \<or> se_fate env GetPrevious = Works"
proof -
  let ?fp = "Fingerprint attrs uid"
  define prev where "prev = (case fetch_workload env GetPrevious w s of Some w \<Rightarrow> w | None \<Rightarrow> zero_workload)"
  define row where "row = described_workload (sv_registry s) (se_clock env UpsertDescribed) w ?fp attrs msg prev"
  obtain cfgID s1 where s1: "persistEffectiveConfig env w (wl_DisplayName row) (as_EffectiveConfig msg) s = (cfgID, s1)"
    by (cases "persistEffectiveConfig env w (wl_DisplayName row) (as_EffectiveConfig msg) s")
  define row1 where "row1 = (let r = (if cfgID \<noteq> [] then row\<lparr>wl_ActiveConfigID := Some cfgID\<rparr> else row)
    in case flattenAvailableComponents (as_AvailableComponents msg) of None \<Rightarrow> r | Some ac \<Rightarrow> r\<lparr>wl_AvailableComponents := Some ac\<rparr>)"
  have same: "wl_ID row1 = w" "wl_FingerprintKeys row1 = fp_Keys ?fp" "wl_ActiveConfigHash row1 = wl_ActiveConfigHash prev"
    "wl_ArchivedAt row1 = wl_ArchivedAt prev" "wl_Labels row1 = rebuild_labels (wl_Labels prev) attrs"
    by (simp_all add: row1_def row_def described_workload_def Let_def split: option.split)
  have db1: "R (sv_db s) (sv_db s1)" "sd_workloads (sv_db s1) = sd_workloads (sv_db s)"
    using persist [of s env w "wl_DisplayName row" "as_EffectiveConfig msg"]
      persist_row [of env w "wl_DisplayName row" "as_EffectiveConfig msg" s] s1 by simp_all
  have "GetWorkload (sv_db s1) w = Inr prev \<or> (prev = zero_workload \<and> (lossy \<or> \<not> has_workload (sv_db s1) w))"
  proof (cases "fetch_workload env GetPrevious w s")
    case None
    then show ?thesis
      using read fetch_workload_None [OF None] by (auto simp: prev_def db1(2))
  next
    case (Some p)
    then show ?thesis
      using fetch_workload_Some [OF Some] by (simp add: prev_def GetWorkload_def db1(2))
  qed
  then have up: "server_upsert lossy (sv_db s1) row1"
    unfolding server_upsert_def using same attrs mwf_fingerprint by (intro exI [of _ prev]) auto
  obtain ok s2 where s2: "exec_at env UpsertDescribed (UpsertWorkload row1) s1 = (ok, s2)"
    by (cases "exec_at env UpsertDescribed (UpsertWorkload row1) s1")
  have db2: "R (sv_db s) (sv_db s2)"
    using then_exec_at [OF db1(1), of "UpsertWorkload row1" env UpsertDescribed] upsert [OF up] s2 by simp
  have "R (sv_db s) (sv_db (snd (exec_at env ClearRetention (\<lambda>d. Inr (ClearWorkloadRetention w d)) s2)))"
    by (rule then_exec_at [OF db2]) (auto intro: clear_retention)
  moreover have "upsertWorkloadFromDescription env w ?fp attrs msg s =
      (if wl_Type row1 = [] then s1 else if ok then snd (exec_at env ClearRetention (\<lambda>d. Inr (ClearWorkloadRetention w d)) s2) else s2)"
    unfolding upsertWorkloadFromDescription_def Let_def prev_def [symmetric] row_def [symmetric] s1 prod.case
      row1_def [symmetric, unfolded Let_def] s2 by (cases ok) simp_all
  ultimately show ?thesis
    using db1(1) db2 by simp
qed

lemma description:
  assumes "handleAgentDescription env uid desc msg s = (w, request, s')" and read: "lossy \<or> se_fate env GetPrevious = Works"
  shows "R (sv_db s) (sv_db s')"
proof -
  let ?attrs = "flattenAttrs (ad_IdentifyingAttributes desc) (ad_NonIdentifyingAttributes desc)"
  obtain fresh reg where bind: "BindInstance (se_clock env BindTime) uid (fp_ID (Fingerprint ?attrs uid)) (described_instance ?attrs msg)
      (sv_registry s) = (fresh, reg)"
    by (cases "BindInstance (se_clock env BindTime) uid (fp_ID (Fingerprint ?attrs uid)) (described_instance ?attrs msg) (sv_registry s)")
  define s1 where "s1 = s\<lparr>sv_registry := reg, sv_grace := Cancel w (sv_grace s)\<rparr>"
  define s2 where "s2 = upsertWorkloadFromDescription env w (Fingerprint ?attrs uid) ?attrs msg s1"
  have w: "w = fp_ID (Fingerprint ?attrs uid)" and s': "\<exists>ins fr pv v. s' = emitBindEvent env w uid ins fr pv v s2"
    using assms by (auto simp: handleAgentDescription_def Let_def bind s1_def s2_def)
  have "R (sv_db s) (sv_db s2)"
    using upsert_described [OF mwf_flattenAttrs read, of s1 w "ad_IdentifyingAttributes desc" "ad_NonIdentifyingAttributes desc" uid msg]
    by (simp add: s1_def s2_def)
  moreover have "R (sv_db s2) (sv_db (emitBindEvent env w uid ins fr pv v s2))" for ins fr pv v
    using emit refl by (simp add: emitBindEvent_def)
  ultimately show ?thesis
    using s' trans by blast
qed

lemma refresh: "R (sv_db s) (sv_db (refreshWorkloadState env w uid l s))"
proof (cases "fetch_workload env GetRefresh w s")
  case (Some wl)
  define row where "row = wl\<lparr>wl_Status := AggregatedStatus (sv_registry s) w, wl_LastSeenAt := se_clock env UpsertRefresh\<rparr>"
  have "server_upsert lossy (sv_db s) row"
    unfolding server_upsert_def using fetch_workload_Some [OF Some] GetWorkload_ID [OF fetch_workload_Some [OF Some]]
    by (intro exI [of _ wl]) (simp add: row_def)
  then have "R (sv_db s) (sv_db (snd (exec_at env UpsertRefresh (UpsertWorkload row) s)))"
    by (intro exec_at upsert)
  then show ?thesis
    unfolding refreshWorkloadState_def Some option.case Let_def row_def [symmetric] by simp
qed (simp add: refreshWorkloadState_def refl)

lemma rollback: "R (sv_db s) (sv_db (attemptAutoRollback env w h reason s))"
proof -
  have fin: "R (sv_db s) (sv_db (broadcast_to b (snd (exec_at env MarkRollbackSent (\<lambda>d. Inr (MarkWorkloadConfigSent w c t d))
      (snd (exec_at env RecordRollback (RecordWorkloadConfig t' push) s1))))))"
    if "sv_db s1 = sv_db s" for b c t t' push s1
  proof -
    have "R (sv_db s) (sv_db (snd (exec_at env RecordRollback (RecordWorkloadConfig t' push) s1)))"
      using exec_at [of "RecordWorkloadConfig t' push" s1] record_push that by simp
    then show ?thesis
      by simp (rule then_exec_at, auto intro: mark_sent)
  qed
  have "sv_db s1 = sv_db s" if "PushConfig env w y [] s = (e, s1)" for e s1 y
    using that PushConfig_db [of env w y "[]" s] by simp
  then show ?thesis
    using refl fin by (auto simp: attemptAutoRollback_def Let_def split: option.split prod.split)
qed

lemma report: "R (sv_db s) (sv_db (handleRemoteConfigStatus env w uid rcs s))"
proof (cases "remoteConfigStatusString (rr_Status rcs) = []")
  case False
  define st where "st = remoteConfigStatusString (rr_Status rcs)"
  define em where "em = SanitizeRemoteConfigErrorMessage (rr_ErrorMessage rcs)"
  define h where "h = hex_EncodeToString (rr_LastRemoteConfigHash rcs)"
  define snap where "snap = \<lparr>rs_Status = st, rs_ConfigHash = h, rs_ErrorMessage = em, rs_UpdatedAt = se_clock env ReportTime,
    rs_PushStatus = None\<rparr>"
  define s1 where "s1 = s\<lparr>sv_registry := snd (UpdateInstance (se_clock env ReportUpdateTime) uid
    (\<lambda>i. i\<lparr>in_EffectiveConfigHash := h, in_RemoteConfigStatus := Some snap\<rparr>) (sv_registry s))\<rparr>"
  define s2 where "s2 = snd (exec_at env UpdateStatus (UpdateWorkloadConfigStatus w h st em) s1)"
  define s3 where "s3 = snd (exec_at env UpdateInstanceStatus
    (UpdateWorkloadConfigInstanceStatus (se_clock env UpdateInstanceStatus) w h uid st em (rs_UpdatedAt snap)) s2)"
  define snap2 where "snap2 = (case read_call (se_fate env GetLatestPush)
      (GetLatestWorkloadConfig (se_clock env GetLatestPush) (sv_db s3) w) of None \<Rightarrow> snap | Some push \<Rightarrow> snap\<lparr>rs_PushStatus := push\<rparr>)"
  define s4 where "s4 = (case fetch_workload env GetForStatus w s3 of None \<Rightarrow> s3
    | Some wl \<Rightarrow> snd (exec_at env UpsertStatus (UpsertWorkload (wl\<lparr>wl_RemoteConfigStatus := Some snap2\<rparr>)) s3))"
  have "R (sv_db s) (sv_db s1)"
    by (simp add: s1_def refl)
  then have "R (sv_db s) (sv_db s2)"
    unfolding s2_def by (rule then_exec_at) (rule update_status)
  then have 3: "R (sv_db s) (sv_db s3)"
    unfolding s3_def by (rule then_exec_at) (rule update_instance)
  have "R (sv_db s) (sv_db s4)"
  proof (cases "fetch_workload env GetForStatus w s3")
    case (Some wl)
    have "server_upsert lossy (sv_db s3) (wl\<lparr>wl_RemoteConfigStatus := Some snap2\<rparr>)"
      unfolding server_upsert_def using fetch_workload_Some [OF Some] GetWorkload_ID [OF fetch_workload_Some [OF Some]]
      by (intro exI [of _ wl]) simp
    then show ?thesis
      unfolding s4_def Some option.case by (intro then_exec_at 3 upsert)
  qed (simp add: s4_def 3)
  moreover have "handleRemoteConfigStatus env w uid rcs s = (let s = broadcast_to (ConfigStatus w snap2) s4
      in if st = ''failed'' then attemptAutoRollback env w h em s else s)"
    using False
    unfolding handleRemoteConfigStatus_def Let_def st_def [symmetric] em_def [symmetric] h_def [symmetric] snap_def [symmetric]
      s1_def [symmetric] s2_def [symmetric] s3_def [symmetric] snap2_def [symmetric] s4_def [symmetric]
    by simp
  ultimately show ?thesis
    using rollback [of "broadcast_to (ConfigStatus w snap2) s4" env w h em] by (auto simp: Let_def intro: trans)
qed (simp add: handleRemoteConfigStatus_def refl)

lemma accepted_message:
  assumes read: "lossy \<or> se_fate env GetPrevious = Works"
  shows "R (sv_db s) (sv_db (snd (handleAcceptedMessageWithLease env msg l s)))"
proof -
  have rest: "R d (sv_db (recordRemoteConfigStatus env w uid st (refreshWorkloadState env w uid l s1)))" if "R d (sv_db s1)"
    for d w uid st s1
    using trans [OF trans [OF that refresh] report] trans [OF that refresh]
    by (simp add: recordRemoteConfigStatus_def split: option.split)
  show ?thesis
    unfolding handleAcceptedMessageWithLease_def Let_def handleKnownInstanceUpdate_def
    by (auto split: option.split prod.split intro!: rest refl dest: description [OF _ read])
qed

lemma release: "R (sv_db s) (sv_db (releaseSessionOnce env k s))"
proof -
  have "sv_db (snd (release_session k s)) = sv_db s"
    by (simp add: release_session_def Let_def split: prod.split)
  moreover have "R (sv_db s1) (sv_db (release_effects env r s1))" for r s1
    using emit [of s1 env InsertReleaseEvent] by (simp add: release_effects_def Let_def split: prod.split)
  ultimately show ?thesis
    using refl unfolding releaseSessionOnce_def by (cases "release_session k s") (auto split: option.split, metis)
qed

lemma grace: "R (sv_db s) (sv_db (graceExpired env w s))"
proof -
  obtain ok s1 where s1: "exec_at env MarkDisconnected
      (MarkWorkloadDisconnected w (timeAdd (se_clock env MarkDisconnected) (sv_retention s))) s = (ok, s1)"
    by (cases "exec_at env MarkDisconnected
      (MarkWorkloadDisconnected w (timeAdd (se_clock env MarkDisconnected) (sv_retention s))) s")
  have "R (sv_db s) (sv_db s1)"
    using exec_at [of "MarkWorkloadDisconnected w (timeAdd (se_clock env MarkDisconnected) (sv_retention s))" s env MarkDisconnected]
      mark_disconnected s1 by simp
  then show ?thesis
    using refl by (auto simp: graceExpired_def grace_disconnect_def s1 split: option.split bool.split)
qed

end

section \<open>A small server\<close>

definition demo_senv :: server_env where
  "demo_senv = \<lparr>se_fate = \<lambda>c. Works, se_clock = \<lambda>c. 50, se_now = 50, se_send = \<lambda>u. None\<rparr>"

definition demo_selector :: string where
  "demo_selector = TrustedSelectorLabelPrefix @ ''env''"

definition demo_heartbeat :: AgentToServer where
  "demo_heartbeat = \<lparr>as_InstanceUid = replicate 16 1, as_AgentDescription = None, as_Capabilities = [], as_Health = Some True,
     as_EffectiveConfig = None, as_RemoteConfigStatus = None, as_AvailableComponents = None\<rparr>"

definition demo_server :: Server where
  "demo_server = (NewServer True 0 (demo_history\<lparr>sd_workloads :=
       [(demo_workload ''w1'')\<lparr>wl_Labels := [(demo_selector, ''prod'')], wl_ArchivedAt := Some 3\<rparr>]\<rparr>))
     \<lparr>sv_registry := snd (BindInstance 40 (hex_EncodeToString (replicate 16 1)) ''w1'' (described_instance [] demo_heartbeat) NewInstanceRegistry)\<rparr>"

section \<open>The tables stay consistent\<close>

lemma mwf_filter: "mwf m \<Longrightarrow> mwf (filter P m)"
  by (simp add: mwf_def distinct_map_filter)

lemma foldl_inv: "P s \<Longrightarrow> (\<And>s x. P s \<Longrightarrow> P (g s x)) \<Longrightarrow> P (foldl g s xs)"
  by (induction xs arbitrary: s) auto

lemma mwf_rebuild_labels: "mwf old \<Longrightarrow> mwf (rebuild_labels old attrs)"
  unfolding rebuild_labels_def by (rule foldl_inv) (simp_all add: mwf_filter mwf_mput split: prod.split)

lemma server_upsert_mwf:
  assumes "store_inv d" and "server_upsert lossy d w"
  shows "mwf (wl_FingerprintKeys w)" "mwf (wl_Labels w)"
proof -
  have row: "mwf (wl_FingerprintKeys prev)" "mwf (wl_Labels prev)" if get: "GetWorkload d i = Inr prev \<or> prev = zero_workload" for i prev
  proof -
    have "mwf (wl_FingerprintKeys prev) \<and> mwf (wl_Labels prev)"
    proof (cases "prev = zero_workload")
      case False
      then obtain r where "row_get wl_ID i (sd_workloads d) = Some r" "prev = scan_workload r"
        using get by (auto simp: GetWorkload_def split: option.splits)
      moreover from this(1) have "r \<in> set (sd_workloads d)"
        using row_get_Some by fastforce
      ultimately show ?thesis
        using assms(1) by (simp add: store_inv_def workloads_ok_def)
    qed (simp add: zero_workload_def)
    then show "mwf (wl_FingerprintKeys prev)" "mwf (wl_Labels prev)"
      by simp_all
  qed
  from assms(2) obtain prev where prev: "GetWorkload d (wl_ID w) = Inr prev \<or> prev = zero_workload"
    "mwf (wl_FingerprintKeys w) \<or> wl_FingerprintKeys w = wl_FingerprintKeys prev"
    "(\<exists>attrs. mwf attrs \<and> wl_Labels w = rebuild_labels (wl_Labels prev) attrs) \<or> wl_Labels w = wl_Labels prev"
    unfolding server_upsert_def by blast
  show "mwf (wl_FingerprintKeys w)" "mwf (wl_Labels w)"
    using prev(2,3) row [OF prev(1)] mwf_rebuild_labels by fastforce+
qed

definition tables_kept :: "store_db \<Rightarrow> store_db \<Rightarrow> bool" where
  "tables_kept d d' \<longleftrightarrow> (store_inv d \<longrightarrow> store_inv d')"

interpretation tables: server_statements tables_kept True
  by unfold_locales
    (auto simp: tables_kept_def intro: inv_intros dest: server_upsert_mwf)

section \<open>What the server keeps of a row\<close>

lemma statement_workloads:
  "CreateConfig cfg d = Inr d' \<Longrightarrow> sd_workloads d' = sd_workloads d"
  "InsertWorkloadEvent t e d = Inr (n, d') \<Longrightarrow> sd_workloads d' = sd_workloads d"
  "RecordWorkloadConfig t wc d = Inr d' \<Longrightarrow> sd_workloads d' = sd_workloads d"
  "sd_workloads (MarkWorkloadConfigSent i c t d) = sd_workloads d"
  "UpdateWorkloadConfigStatus i c st em d = Inr d' \<Longrightarrow> sd_workloads d' = sd_workloads d"
  "UpdateWorkloadConfigInstanceStatus t i c u st em x d = Inr d' \<Longrightarrow> sd_workloads d' = sd_workloads d"
  by (auto simp: CreateConfig_def InsertWorkloadEvent_def RecordWorkloadConfig_def MarkWorkloadConfigSent_def
      UpdateWorkloadConfigStatus_def UpdateWorkloadConfigInstanceStatus_def merge_instance_status_def Let_def
      UpdateCanaryTargetStatus_frame split: if_splits option.splits sum.splits)

lemma upsert_row:
  assumes "UpsertWorkload w d = Inr d'"
  shows "row_get wl_ID i (sd_workloads d') =
    (if i = wl_ID w then Some (coalesce_row (row_get wl_ID i (sd_workloads d)) (workload_row w)) else row_get wl_ID i (sd_workloads d))"
  using assms by (auto simp: UpsertWorkload_def Let_def row_get_put split: if_splits)

definition label_of :: "store_db \<Rightarrow> string \<Rightarrow> string \<Rightarrow> string option" where
  "label_of d i k = (case row_get wl_ID i (sd_workloads d) of None \<Rightarrow> None | Some w \<Rightarrow> mget (wl_Labels w) k)"

definition labels_kept :: "store_db \<Rightarrow> store_db \<Rightarrow> bool" where
  "labels_kept d d' \<longleftrightarrow>
    (\<forall>i k. HasPrefix k TrustedSelectorLabelPrefix \<longrightarrow> label_of d' i k = None \<or> label_of d' i k = label_of d i k)"

lemma labels_kept_cong: "sd_workloads d' = sd_workloads d \<Longrightarrow> labels_kept d d'"
  by (simp add: labels_kept_def label_of_def)

lemma labels_kept_mod: "(\<And>w. wl_ID (f w) = wl_ID w \<and> wl_Labels (f w) = wl_Labels w) \<Longrightarrow>
    labels_kept d (d\<lparr>sd_workloads := row_mod P f (sd_workloads d)\<rparr>)"
  by (auto simp: labels_kept_def label_of_def row_get_mod split: option.splits)

lemma rebuild_trusted:
  assumes "HasPrefix k TrustedSelectorLabelPrefix"
  shows "mget (rebuild_labels old attrs) k = mget old k"
proof -
  have "mget (filter (\<lambda>(k, v). HasPrefix k TrustedSelectorLabelPrefix) old) k = mget old k"
    using assms by (induction old) (auto simp: mget_def)
  then show ?thesis
    unfolding rebuild_labels_def using assms
    by (intro foldl_inv [of "\<lambda>m. mget m k = mget old k"]) (auto simp: mget_mput split: prod.split)
qed

lemma labels_kept_upsert:
  assumes "server_upsert lossy d w" and "UpsertWorkload w d = Inr d'"
  shows "labels_kept d d'"
  unfolding labels_kept_def
proof (intro allI impI)
  fix i k
  assume k: "HasPrefix k TrustedSelectorLabelPrefix"
  obtain prev where prev: "GetWorkload d (wl_ID w) = Inr prev \<or> prev = zero_workload"
    "(\<exists>attrs. wl_Labels w = rebuild_labels (wl_Labels prev) attrs) \<or> wl_Labels w = wl_Labels prev"
    using assms(1) unfolding server_upsert_def by blast
  have "mget (wl_Labels w) k = mget (wl_Labels prev) k"
    using prev(2) rebuild_trusted [OF k] by auto
  moreover have "mget (wl_Labels prev) k = None \<or> mget (wl_Labels prev) k = label_of d (wl_ID w) k"
    using prev(1) by (auto simp: GetWorkload_def label_of_def zero_workload_def mget_Nil split: option.splits)
  ultimately show "label_of d' i k = None \<or> label_of d' i k = label_of d i k"
    using upsert_row [OF assms(2), of i] by (auto simp: label_of_def split: option.splits)
qed

interpretation labels: server_statements labels_kept True
proof
  show "labels_kept d0 d1 \<Longrightarrow> labels_kept d1 d2 \<Longrightarrow> labels_kept d0 d2" for d0 d1 d2
    unfolding labels_kept_def by metis
  show "MarkWorkloadDisconnected i t d = Inr d' \<Longrightarrow> labels_kept d d'" for i t d d'
    by (auto simp: MarkWorkloadDisconnected_def split: if_splits intro!: labels_kept_mod)
  show "labels_kept d (ClearWorkloadRetention i d)" for d i
    by (auto simp: ClearWorkloadRetention_def intro!: labels_kept_mod)
qed ((rule labels_kept_cong, simp add: statement_workloads) | (erule (1) labels_kept_upsert))+

text \<open>
  C36: No message of an agent sets or changes a trusted selector label, the labels that scope which workloads a
  push may target: after the server has handled any message, with any
  outcome of its store calls, each such label of each workload is the one it was or is gone. Attributes the
  agent reports under the reserved prefix are dropped, so an agent cannot place itself in the scope of a push.
\<close>

theorem trusted_labels_not_forged:
  assumes "HasPrefix k TrustedSelectorLabelPrefix"
    and "label_of (sv_db (snd (handleAcceptedMessageWithLease env msg lease s))) i k = Some v"
  shows "label_of (sv_db s) i k = Some v"
  using labels.accepted_message [of env s msg lease] assms unfolding labels_kept_def by (metis option.distinct(1))

lemma trusted_labels_not_forged_witness: "label_of (sv_db demo_server) ''w1'' demo_selector = Some ''prod''"
  by (rule trusted_labels_not_forged [where env = demo_senv and msg = demo_heartbeat and lease = None]) code_simp+

section \<open>The pinned hash\<close>






section \<open>Archived workloads\<close>









section \<open>The automatic push\<close>

lemma autopush_frame [simp]:
  "sv_autopush (snd (exec_at env c op s)) = sv_autopush s"
  "sv_autopush (broadcast_to b s) = sv_autopush s"
  "sv_autopush (emitEvent env c e s) = sv_autopush s"
  "sv_autopush (snd (sendToInstance env uid m s)) = sv_autopush s"
  "sv_autopush (snd (push_one env y uid s)) = sv_autopush s"
  by (auto simp: exec_at_def broadcast_to_def emitEvent_def sendToInstance_def disconnectSessionAfterSendError_def push_one_def
      split: prod.splits sum.splits option.splits)

lemma push_all_autopush [simp]: "sv_autopush (snd (push_all env y is es)) = sv_autopush (snd es)"
proof (induction env y "is" es rule: push_all.induct)
  case (2 env y i "is" e s)
  then show ?case
    using autopush_frame(5) [of env y "in_InstanceUID i" s] by (cases "push_one env y (in_InstanceUID i) s") simp
qed simp

lemma PushConfig_autopush [simp]: "sv_autopush (snd (PushConfig env w y t s)) = sv_autopush s"
  by (simp add: PushConfig_def Let_def split: option.split)

lemma exec_at_autopush: "exec_at env c op s = (ok, s') \<Longrightarrow> sv_autopush s' = sv_autopush s"
  using autopush_frame(1) [of env c op s] by simp

lemma persist_autopush [simp]: "sv_autopush (snd (persistEffectiveConfig env w n f s)) = sv_autopush s"
  by (auto simp: persistEffectiveConfig_def Let_def exec_at_autopush split: option.split prod.split bool.split)

lemma upsert_described_autopush [simp]: "sv_autopush (upsertWorkloadFromDescription env w fp attrs msg s) = sv_autopush s"
proof -
  have "sv_autopush s' = sv_autopush s" if "persistEffectiveConfig env w n f s = (c, s')" for n f c s'
    using that persist_autopush [of env w n f s] by simp
  then show ?thesis
    by (auto simp: upsertWorkloadFromDescription_def Let_def exec_at_autopush split: prod.split bool.split)
qed



lemma report_autopush [simp]: "sv_autopush (recordRemoteConfigStatus env w uid st s) = sv_autopush s"
proof -
  have "sv_autopush s' = sv_autopush s" if "PushConfig env w y t s = (e, s')" for y t e s' and s :: Server
    using that PushConfig_autopush [of env w y t s] by simp
  then have "sv_autopush (attemptAutoRollback env w h r s) = sv_autopush s" for h r and s :: Server
    by (auto simp: attemptAutoRollback_def Let_def split: option.split prod.split)
  then show ?thesis
    by (simp add: recordRemoteConfigStatus_def handleRemoteConfigStatus_def Let_def split: option.split)
qed



end
