(* ===== verification/Session_Drain.thy ===== *)
theory Session_Drain
  imports Token_Sessions
begin

text \<open>
  What the waits of the token connections give their callers. A session is closed by a goroutine that
  removes it, waits until the removal is drained and then cleans up (\<open>finishDisconnectSession\<close> and
  \<open>onSessionConnectionClose\<close> of \<open>internal/opamp/server.go\<close>), or by the callback of a disabling or a
  stop. This theory shows that the session then has no open lease. It relies on one habit of the OpAMP
  library: the connected callback of a session, which tracks it, is called once.
\<close>

section \<open>The invariant\<close>

abbreviation tracked :: "tokenConnections \<Rightarrow> nat \<Rightarrow> bool" where
  "tracked m s \<equiv> mget (tc_sessions m) s \<noteq> None"

text \<open>A session that exists and was tracked at some time.\<close>

abbreviation known :: "tokenConnections \<Rightarrow> nat \<Rightarrow> bool" where
  "known m s \<equiv> s < length (tc_heap m) \<and> ts_conn (sess m s) \<noteq> None"

abbreviation readers :: "tokenConnections \<Rightarrow> nat \<Rightarrow> nat" where
  "readers m s \<equiv> ts_readers (sess m s)"

definition undrained :: "tokenConnections \<Rightarrow> nat \<Rightarrow> bool" where
  "undrained m s \<longleftrightarrow> (\<exists>r. mget (tc_removals m) s = Some r \<and> \<not> rm_drained (tc_removes m ! r))"

text \<open>A step in which a session becomes tracked only when it never was before.\<close>

definition tracks_once :: "tokenConnections \<Rightarrow> tokenConnections \<Rightarrow> bool" where
  "tracks_once m m' \<longleftrightarrow> (\<forall>s. tracked m' s \<longrightarrow> tracked m s \<or> ts_conn (sess m s) = None)"

definition once_step :: "tokenConnections \<Rightarrow> tokenConnections \<Rightarrow> bool" where
  "once_step m m' \<longleftrightarrow> token_conn_step m m' \<and> tracks_once m m'"

text \<open>
  A session that was ever tracked keeps its connection; one that is being removed is not tracked; and a
  session with an open lease is tracked or has a removal that still waits.
\<close>

definition removal_ok :: "tokenConnections \<Rightarrow> nat \<Rightarrow> bool" where
  "removal_ok m s \<longleftrightarrow>
    (tracked m s \<or> mget (tc_removals m) s \<noteq> None \<longrightarrow> ts_conn (sess m s) \<noteq> None)
    \<and> (mget (tc_removals m) s \<noteq> None \<longrightarrow> \<not> tracked m s)
    \<and> (0 < readers m s \<longrightarrow> tracked m s \<or> undrained m s)"

definition removals_ok :: "tokenConnections \<Rightarrow> bool" where
  "removals_ok m \<longleftrightarrow> (\<forall>s < length (tc_heap m). removal_ok m s)"

lemma removals_okI: "(\<And>s. s < length (tc_heap m) \<Longrightarrow> removal_ok m s) \<Longrightarrow> removals_ok m"
  by (simp add: removals_ok_def)

lemma removals_okD: "removals_ok m \<Longrightarrow> s < length (tc_heap m) \<Longrightarrow> removal_ok m s"
  by (simp add: removals_ok_def)

lemma tracked_lt: "conn_inv m \<Longrightarrow> tracked m s \<Longrightarrow> s < length (tc_heap m)"
  using maps_okD(1) [OF conn_invD(1)] by blast

lemma removal_lt: "conn_inv m \<Longrightarrow> mget (tc_removals m) s = Some r \<Longrightarrow> s < length (tc_heap m)"
  using maps_okD(4) [OF conn_invD(1)] by blast

lemma tracked_known:
  assumes "conn_inv m" and "removals_ok m" and "tracked m s \<or> mget (tc_removals m) s \<noteq> None"
  shows "known m s"
proof -
  have "s < length (tc_heap m)"
    using assms(3) tracked_lt [OF assms(1), of s] removal_lt [OF assms(1), of s] by (cases "mget (tc_removals m) s") auto
  then show ?thesis
    using removals_okD [OF assms(2)] assms(3) unfolding removal_ok_def by blast
qed

text \<open>A step that leaves the heap, the tracked sessions and what the removals wait for alone.\<close>

lemma removals_frame:
  assumes "removals_ok m" and "tc_heap m' = tc_heap m" and "tc_sessions m' = tc_sessions m" and "tc_removals m' = tc_removals m"
    and "\<And>r. rm_drained (tc_removes m' ! r) = rm_drained (tc_removes m ! r)"
  shows "removals_ok m'"
  using assms(1) unfolding removals_ok_def removal_ok_def undrained_def by (simp only: assms(2-))

text \<open>Sessions leave the tracked ones while their removals are registered.\<close>

lemma removals_register:
  assumes inv: "conn_inv m" and ok: "removals_ok m" and R: "registers ss m m'" and heap: "tc_heap m' = tc_heap m"
    and ss: "\<And>s. s \<in> set ss \<longleftrightarrow> tracked m s \<and> P s"
    and S: "\<And>s. mget (tc_sessions m') s = (if P s then None else mget (tc_sessions m) s)"
  shows "removals_ok m'"
proof (rule removals_okI)
  fix s
  assume "s < length (tc_heap m')"
  then have s: "removal_ok m s"
    using removals_okD [OF ok] heap by simp
  have new: "undrained m' s" if tr: "tracked m s" and p: "P s"
  proof -
    obtain r where r: "mget (tc_removals m') s = Some r"
      using registers_all [OF R iffD2 [OF ss conjI [OF tr p]]] by (rule exE)
    have "mget (tc_removals m) s = None"
      using s tr unfolding removal_ok_def by blast
    then show ?thesis
      using registers_new(4) [OF R _ r] r by (simp add: undrained_def fresh_removal_def)
  qed
  have old: "undrained m' s" if "undrained m s"
    using that registers_keeps_undrained [OF R conn_invD(1) [OF inv], of s] unfolding undrained_def by blast
  have reg: "mget (tc_removals m) s \<noteq> None \<or> tracked m s \<and> P s" if "mget (tc_removals m') s \<noteq> None"
    using that registers_new(1) [OF R, of s] ss [of s] by (cases "mget (tc_removals m) s") auto
  have T: "tracked m' s \<longleftrightarrow> tracked m s \<and> \<not> P s"
    by (simp add: S)
  show "removal_ok m' s"
    using s new old reg unfolding removal_ok_def heap T by blast
qed

section \<open>The steps\<close>

lemma removals_beginDisable:
  assumes inv: "conn_inv m" and ok: "removals_ok m" and B: "beginDisableLocked t m = (d, w, m')"
  shows "removals_ok m'"
proof (cases "mget (tc_disableStates m) t")
  case (Some d')
  then show ?thesis
    using ok B by (simp add: beginDisableLocked_def)
next
  case None
  note M = conn_invD(1) [OF inv]
  have heap: "tc_heap m' = tc_heap m" and R: "registers (mkeys (bucket (tc_sessionsByID m) t)) m m'"
    and S: "\<And>s. mget (tc_sessions m') s = (if ts_ID (sess m s) = t then None else mget (tc_sessions m) s)"
    using beginDisable_new [OF M None B] by blast+
  show ?thesis
    using removals_register [OF inv ok R heap, of "\<lambda>s. ts_ID (sess m s) = t"] maps_okD(2) [OF M, of t] S by (simp add: mem_mkeys)
qed

lemma removals_beginStop:
  assumes inv: "conn_inv m" and ok: "removals_ok m"
  shows "removals_ok (tokens_beginStop m)"
proof (cases "tc_stopState m")
  case None
  obtain m1 os where L: "stopLoop (mkeys (tc_sessions m)) (m, []) = (m1, os)"
    by (cases "stopLoop (mkeys (tc_sessions m)) (m, [])") auto
  have R: "registers (mkeys (tc_sessions m)) m m1" "tc_heap m1 = tc_heap m"
    using stopLoop_registers [OF L] by (simp_all add: same_rest_def)
  show ?thesis
    by (rule removals_register [OF inv ok, of "mkeys (tc_sessions m)" _ "\<lambda>s. True"])
       (use R None in \<open>simp_all add: tokens_beginStop_def L mem_mkeys map_simps registers_def\<close>)
qed (use ok in \<open>simp add: tokens_beginStop_def\<close>)

lemma removals_schedule: "removals_ok m \<Longrightarrow> removals_ok (scheduleExpiryLocked t m)"
  by (erule removals_frame) (auto simp: scheduleExpiryLocked_def Let_def split: option.split)

lemma removals_remove:
  assumes inv: "conn_inv m" and ok: "removals_ok m"
  shows "removals_ok (Remove s m)"
proof (cases "mget (tc_removals m) s = None \<and> \<not> tc_stopped m \<and> tracked m s")
  case True
  obtain r c m2 where R: "registerRemoveLocked s (detachSessionLocked s m) = (r, c, m2)"
    by (cases "registerRemoveLocked s (detachSessionLocked s m)") auto
  have reg: "registers [s] m m2" "tc_heap m2 = tc_heap m" "tc_sessions m2 = mdel s (tc_sessions m)"
    using register_registers [OF R] by (auto simp: detachSessionLocked_def registers_def same_rest_def)
  have "removals_ok m2"
    by (rule removals_register [OF inv ok reg(1,2), of "\<lambda>x. x = s"]) (use True in \<open>auto simp: reg(3) map_simps\<close>)
  then show ?thesis
    using True by (simp add: Remove_def R removals_schedule)
qed (use ok in \<open>auto simp: Remove_def\<close>)

lemma removals_newLease:
  assumes ok: "removals_ok m" and s: "tracked m s" and N: "newLease s m = (l, m')"
  shows "removals_ok m'"
proof (rule removals_okI)
  fix x
  assume "x < length (tc_heap m')"
  then have "removal_ok m x"
    using N removals_okD [OF ok, of x] by (auto simp: newLease_def)
  then show "removal_ok m' x"
    using N s unfolding removal_ok_def undrained_def by (auto simp: newLease_def nth_update_if split: if_splits)
qed

lemma removals_release:
  assumes ok: "removals_ok m"
  shows "removals_ok (Release l m)"
proof (rule removals_okI)
  fix x
  assume "x < length (tc_heap (Release l m))"
  then have "removal_ok m x"
    using removals_okD [OF ok, of x] by (auto simp: Release_def Let_def split: if_splits)
  then show "removal_ok (Release l m) x"
    unfolding removal_ok_def undrained_def by (auto simp: Release_def Let_def nth_update_if)
qed

lemma removals_acquire:
  assumes inv: "conn_inv m" and ok: "removals_ok m"
  shows "removals_ok (snd (Acquire s now m))"
proof -
  obtain d w m1 where B: "beginDisableLocked (ts_ID (sess m s)) m = (d, w, m1)"
    by (cases "beginDisableLocked (ts_ID (sess m s)) m") auto
  obtain l m2 where N: "newLease s m = (l, m2)"
    by fastforce
  have "removals_ok m1" "removals_ok (m1\<lparr>tc_expiry := tc_expiry m1 @ [AwaitDisable d]\<rparr>)"
    using removals_beginDisable [OF inv ok B] by (auto intro: removals_frame)
  then show ?thesis
    using ok removals_newLease [OF ok _ N] by (auto simp: Acquire_def Let_def B N)
qed

lemma removals_fork:
  assumes "removals_ok m"
  shows "removals_ok (snd (Fork l m))"
proof -
  obtain l' m2 where N: "newLease (tl_session (tc_leases m ! l)) m = (l', m2)"
    by fastforce
  show ?thesis
    using assms removals_newLease [OF assms _ N] by (auto simp: Fork_def Let_def N)
qed

lemma removals_track:
  assumes inv: "conn_inv m" and ok: "removals_ok m" and fresh: "ts_conn (sess m s) = None" and s: "s < length (tc_heap m)"
  shows "removals_ok (snd (Track s conn now m))"
proof -
  let ?t = "ts_ID (sess m s)"
  define m0 where "m0 = m\<lparr>tc_heap := (tc_heap m)[s := (sess m s)\<lparr>ts_conn := conn\<rparr>], tc_sessions := mput s () (tc_sessions m),
             tc_sessionsByID := mput ?t (mput s () (bucket (tc_sessionsByID m) ?t)) (tc_sessionsByID m)\<rparr>"
  obtain d w m1 where B: "beginDisableLocked ?t m = (d, w, m1)"
    by (cases "beginDisableLocked ?t m") auto
  have "removals_ok m0" if "conn \<noteq> None"
  proof (rule removals_okI)
    fix x
    assume "x < length (tc_heap m0)"
    then have x: "removal_ok m x"
      using removals_okD [OF ok, of x] by (simp add: m0_def)
    have none: "mget (tc_removals m) s = None"
      using removals_okD [OF ok s] fresh unfolding removal_ok_def by blast
    have f: "tc_removals m0 = tc_removals m" "tc_removes m0 = tc_removes m" "readers m0 x = readers m x"
      "tracked m0 x \<longleftrightarrow> x = s \<or> tracked m x" "ts_conn (sess m0 x) = (if x = s then conn else ts_conn (sess m x))"
      using s by (simp_all add: m0_def nth_update_if map_simps)
    show "removal_ok m0 x"
      using x none \<open>conn \<noteq> None\<close> unfolding removal_ok_def undrained_def f by (cases "x = s") auto
  qed
  then show ?thesis
    using ok removals_beginDisable [OF inv ok B] removals_schedule [of m0 ?t]
    by (auto simp: Track_def Let_def B m0_def)
qed

lemma removals_finishRemove:
  assumes inv: "conn_inv m" and ok: "removals_ok m" and F: "finishRemove r m = Some m'" and r: "r < length (tc_removes m)"
  shows "removals_ok m'"
proof (rule removals_okI)
  fix x
  let ?st = "tc_removes m ! r"
  have g: "tc_heap m' = tc_heap m" "tc_sessions m' = tc_sessions m"
    using F by (auto simp: finishRemove_def Let_def split: if_splits)
  assume "x < length (tc_heap m')"
  then have x: "removal_ok m x"
    using removals_okD [OF ok, of x] g by simp
  have sub: "mget (tc_removals m') x \<noteq> None \<Longrightarrow> mget (tc_removals m) x \<noteq> None"
    using F by (auto simp: finishRemove_def Let_def map_simps split: if_splits)
  have un: "undrained m' x" if u: "undrained m x" and rd: "0 < readers m x"
  proof -
    obtain q where q: "mget (tc_removals m) x = Some q" "\<not> rm_drained (tc_removes m ! q)"
      using u unfolding undrained_def by (elim exE conjE)
    have qx: "rm_session (tc_removes m ! q) = x"
      using maps_okD(4) [OF conn_invD(1) [OF inv] q(1)] by simp
    consider (drain) "\<not> rm_drained ?st" "readers m (rm_session ?st) = 0"
        "m' = m\<lparr>tc_removes := (tc_removes m)[r := ?st\<lparr>rm_drained := True\<rparr>]\<rparr>"
      | (finish) "rm_drained ?st" "tc_removes m' = (tc_removes m)[r := ?st\<lparr>rm_done := True\<rparr>]"
        "mget (tc_removals m) x \<noteq> Some r \<longrightarrow> mget (tc_removals m') x = mget (tc_removals m) x"
      using F by (auto simp: finishRemove_def Let_def map_simps split: if_splits)
    then show ?thesis
    proof cases
      case drain
      then have "q \<noteq> r"
        using qx rd by auto
      then show ?thesis
        using drain q by (simp add: undrained_def)
    next
      case finish
      then have "q \<noteq> r"
        using q by auto
      then show ?thesis
        using finish q by (simp add: undrained_def)
    qed
  qed
  show "removal_ok m' x"
    using x sub un unfolding removal_ok_def g by blast
qed

lemma removals_completeTokenRemove: "removals_ok m \<Longrightarrow> removals_ok (completeTokenRemove r m)"
  by (erule removals_frame) (simp_all add: completeTokenRemove_def nth_update_if)

lemma completeOwned_frame [simp]:
  "tc_heap (completeOwned rs m) = tc_heap m" "tc_sessions (completeOwned rs m) = tc_sessions m"
  "tc_removals (completeOwned rs m) = tc_removals m" "tc_callbacks (completeOwned rs m) = tc_callbacks m"
  "rm_drained (tc_removes (completeOwned rs m) ! r) = rm_drained (tc_removes m ! r)" "tc_leases (completeOwned rs m) = tc_leases m"
  by (induction rs arbitrary: m) (simp_all add: completeOwned_def completeTokenRemove_def nth_update_if)

lemma removals_completeDisable: "completeDisable d m = Some m' \<Longrightarrow> removals_ok m \<Longrightarrow> removals_ok m'"
  by (erule removals_frame)
     (auto simp: completeDisable_def Let_def set_disable_def split: completion.splits list.splits if_splits)

lemma removals_completeStop: "completeStop m = Some m' \<Longrightarrow> removals_ok m \<Longrightarrow> removals_ok m'"
  by (erule removals_frame)
     (auto simp: completeStop_def set_stop_def split: option.splits completion.splits list.splits if_splits)

lemma removals_expireCheck:
  assumes inv: "conn_inv m" and ok: "removals_ok m"
  shows "removals_ok (expireCheck k t g now m)"
proof -
  obtain d w m1 where B: "beginDisableLocked t m = (d, w, m1)"
    by (cases "beginDisableLocked t m") auto
  have gone: "removals_ok (expirer_gone k m0)" if "removals_ok m0" for m0
    using that by (rule removals_frame) (simp_all add: expirer_gone_def)
  have "removals_ok (m1\<lparr>tc_expiry := (tc_expiry m1)[k := AwaitDisable d]\<rparr>)"
    by (rule removals_frame [OF removals_beginDisable [OF inv ok B]]) simp_all
  moreover have "removals_ok (m\<lparr>tc_expiryTimers := mdel t (tc_expiryTimers m)\<rparr>)"
    by (rule removals_frame [OF ok]) simp_all
  ultimately show ?thesis
    using ok by (auto simp: expireCheck_def B gone removals_schedule split: option.split)
qed

lemma removals_track_once:
  assumes inv: "conn_inv m" and ok: "removals_ok m" and once: "tracks_once m (snd (Track s conn now m))" and s: "s < length (tc_heap m)"
  shows "removals_ok (snd (Track s conn now m))"
proof (cases "ts_conn (sess m s)")
  case None
  then show ?thesis
    using removals_track [OF inv ok _ s] by simp
next
  case (Some c)
  obtain d w m1 where B: "beginDisableLocked (ts_ID (sess m s)) m = (d, w, m1)"
    by (cases "beginDisableLocked (ts_ID (sess m s)) m") auto
  have "tracked (snd (Track s conn now m)) s" if "fst (Track s conn now m)"
    using that by (auto simp: Track_def Let_def scheduleExpiryLocked_def map_simps split: if_splits option.split)
  then have "fst (Track s conn now m) \<longrightarrow> tracked m s"
    using once Some unfolding tracks_once_def by auto
  moreover have "fst (Track s conn now m) \<longrightarrow> \<not> tracked m s"
    unfolding Track_def Let_def by (simp split: if_split)
  ultimately have "\<not> fst (Track s conn now m)"
    by blast
  then show ?thesis
    using ok removals_beginDisable [OF inv ok B] by (auto simp: Track_def Let_def B split: if_splits)
qed

lemma removals_new:
  assumes inv: "conn_inv m" and ok: "removals_ok m"
  shows "removals_ok (m\<lparr>tc_heap := tc_heap m @ [\<lparr>ts_ID = t, ts_ExpiresAt = x, ts_conn = None, ts_readers = 0\<rparr>]\<rparr>)"
    (is "removals_ok ?m")
proof (rule removals_okI)
  fix s
  assume s: "s < length (tc_heap ?m)"
  show "removal_ok ?m s"
  proof (cases "s = length (tc_heap m)")
    case True
    then have "\<not> tracked m s" "mget (tc_removals m) s = None"
      using tracked_lt [OF inv, of s] removal_lt [OF inv, of s] by (blast, cases "mget (tc_removals m) s") simp_all
    then show ?thesis
      using True by (simp add: removal_ok_def)
  next
    case False
    then have "removal_ok m s" and "sess ?m s = sess m s"
      using removals_okD [OF ok, of s] s by (simp_all add: nth_append)
    then show ?thesis
      unfolding removal_ok_def undrained_def by simp
  qed
qed

lemma removals_Disable:
  assumes inv: "conn_inv m" and ok: "removals_ok m"
  shows "removals_ok (snd (Disable t m))"
proof -
  obtain d w m1 where B: "beginDisableLocked t m = (d, w, m1)"
    by (cases "beginDisableLocked t m") auto
  show ?thesis
    using ok removals_beginDisable [OF inv ok B] by (simp add: Disable_def B)
qed

lemma removals_step:
  assumes "once_step m m'" and inv: "conn_inv m" and ok: "removals_ok m"
  shows "removals_ok m'"
proof -
  have step: "token_conn_step m m'" and once: "tracks_once m m'"
    using assms(1) by (simp_all add: once_step_def)
  show ?thesis
    using step
  proof cases
    case (track s conn now)
    then show ?thesis
      using removals_track_once [OF inv ok] once by simp
  next
    case (release l)
    then show ?thesis
      using removals_release [OF ok] by simp
  next
    case (complete_remove s)
    then show ?thesis
      using ok by (simp add: CompleteRemove_def removals_completeTokenRemove split: option.split)
  next
    case (expire_enter t g)
    show ?thesis
      using ok by (rule removals_frame) (simp_all add: expire_enter expireEnter_def)
  next
    case (expire_done k d)
    show ?thesis
      using ok by (rule removals_frame) (simp_all add: expire_done expirer_gone_def)
  qed (use removals_new [OF inv ok] removals_acquire [OF inv ok] removals_fork [OF ok] removals_remove [OF inv ok] removals_Disable [OF inv ok]
      removals_beginStop [OF inv ok] removals_completeDisable [OF _ ok] removals_finishRemove [OF inv ok] removals_completeStop [OF _ ok]
      removals_expireCheck [OF inv ok] in simp_all)
qed

section \<open>Callbacks\<close>

text \<open>No session of the token of a shut session, and no session of a stopped manager, is tracked again.\<close>

definition shut :: "tokenConnections \<Rightarrow> nat \<Rightarrow> bool" where
  "shut m s \<longleftrightarrow> tc_stopped m \<or> mget (tc_disableStates m) (ts_ID (sess m s)) \<noteq> None"

text \<open>
  The callbacks were given sessions without leases; a disabling collected sessions of its own token; the
  stop has waited for the sessions it no longer drains.
\<close>

definition called_ok :: "tokenConnections \<Rightarrow> bool" where
  "called_ok m \<longleftrightarrow> (\<forall>s \<in> set (tc_callbacks m). known m s \<and> shut m s \<and> readers m s = 0)"

definition collected_ok :: "tokenConnections \<Rightarrow> bool" where
  "collected_ok m \<longleftrightarrow>
    (\<forall>d < length (tc_disables m). \<exists>t. mget (tc_disableStates m) t = Some d
       \<and> (\<forall>s \<in> set (ds_result (tc_disables m ! d)). known m s \<and> ts_ID (sess m s) = t))"

definition active_ok :: "tokenConnections \<Rightarrow> bool" where
  "active_ok m \<longleftrightarrow>
    (case tc_stopState m of
       None \<Rightarrow> True
     | Some st \<Rightarrow> (\<forall>s \<in> set (st_active st). known m s \<and> (s \<in> set (draining (st_phase st)) \<or> readers m s = 0)))"

definition callbacks_ok :: "tokenConnections \<Rightarrow> bool" where
  "callbacks_ok m \<longleftrightarrow> called_ok m \<and> collected_ok m \<and> active_ok m"

lemma shut_untracked: "conn_inv m \<Longrightarrow> shut m s \<Longrightarrow> \<not> tracked m s"
  using maps_okD(1) [OF conn_invD(1), of m s] unfolding shut_def by (cases "mget (tc_sessions m) s") auto

text \<open>A step that keeps the identities, adds no lease to an untracked session and starts no disabling, stop or callback.\<close>

lemma callbacks_frame:
  assumes inv: "conn_inv m" and ok: "callbacks_ok m"
    and len: "length (tc_heap m) \<le> length (tc_heap m')" and id: "\<And>s. s < length (tc_heap m) \<Longrightarrow> ts_ID (sess m' s) = ts_ID (sess m s)"
    and cn: "\<And>s. s < length (tc_heap m) \<Longrightarrow> ts_conn (sess m s) \<noteq> None \<Longrightarrow> ts_conn (sess m' s) \<noteq> None"
    and rd: "\<And>s. s < length (tc_heap m) \<Longrightarrow> \<not> tracked m s \<Longrightarrow> readers m' s \<le> readers m s"
    and eq: "tc_callbacks m' = tc_callbacks m" "tc_disableStates m' = tc_disableStates m" "map ds_result (tc_disables m') = map ds_result (tc_disables m)"
      "tc_stopState m' = tc_stopState m"
  shows "callbacks_ok m'"
proof -
  have "called_ok m'"
    unfolding called_ok_def eq
  proof
    fix s
    assume "s \<in> set (tc_callbacks m)"
    then have s: "s < length (tc_heap m)" "shut m s" "readers m s = 0" "ts_conn (sess m s) \<noteq> None"
      using ok unfolding callbacks_ok_def called_ok_def by blast+
    show "known m' s \<and> shut m' s \<and> readers m' s = 0"
      using s rd [OF s(1) shut_untracked [OF inv s(2)]] cn [OF s(1,4)] len id [OF s(1)] by (simp add: shut_def eq)
  qed
  moreover have "collected_ok m'"
    unfolding collected_ok_def
  proof (intro allI impI)
    fix d
    assume d': "d < length (tc_disables m')"
    then have d: "d < length (tc_disables m)" and r: "ds_result (tc_disables m' ! d) = ds_result (tc_disables m ! d)"
      using map_eq_imp_length_eq [OF eq(3)] eq(3) nth_map [of d "tc_disables m'" ds_result] nth_map [of d "tc_disables m" ds_result] by auto
    obtain t where t: "mget (tc_disableStates m) t = Some d"
      "\<And>s. s \<in> set (ds_result (tc_disables m ! d)) \<Longrightarrow> known m s \<and> ts_ID (sess m s) = t"
      using ok d unfolding callbacks_ok_def collected_ok_def by blast
    then show "\<exists>t. mget (tc_disableStates m') t = Some d
       \<and> (\<forall>s \<in> set (ds_result (tc_disables m' ! d)). known m' s \<and> ts_ID (sess m' s) = t)"
      unfolding eq r using id len cn by (intro exI [of _ t]) fastforce
  qed
  moreover have "active_ok m'"
  proof (cases "tc_stopState m")
    case (Some st)
    then have un: "\<not> tracked m s" for s
      using shut_untracked [OF inv, of s] by (simp add: shut_def)
    show ?thesis
      unfolding active_ok_def eq Some option.case
    proof
      fix s
      assume "s \<in> set (st_active st)"
      then have s: "s < length (tc_heap m)" "s \<in> set (draining (st_phase st)) \<or> readers m s = 0" "ts_conn (sess m s) \<noteq> None"
        using ok Some unfolding callbacks_ok_def active_ok_def by auto
      show "known m' s \<and> (s \<in> set (draining (st_phase st)) \<or> readers m' s = 0)"
        using s len rd [OF s(1) un] cn [OF s(1,3)] by auto
    qed
  qed (simp add: active_ok_def eq)
  ultimately show ?thesis
    by (simp add: callbacks_ok_def)
qed

lemma beginDisable_callbacks: "tc_callbacks (snd (snd (beginDisableLocked t m))) = tc_callbacks m"
proof (cases "mget (tc_disableStates m) t")
  case None
  define m0 where "m0 = m\<lparr>tc_disableStates := mput t (length (tc_disables m)) (tc_disableStates m), tc_expiryTimers := mdel t (tc_expiryTimers m)\<rparr>"
  define st0 where "st0 = \<lparr>ds_sessions = mkeys (bucket (tc_removalsByID m) t), ds_removals = map snd (bucket (tc_removalsByID m) t),
    ds_ownedRemovals = [], ds_result = [], ds_phase = Calling\<rparr>"
  obtain m1 st where L: "disableLoop (mkeys (bucket (tc_sessionsByID m) t)) (m0, st0) = (m1, st)"
    by (cases "disableLoop (mkeys (bucket (tc_sessionsByID m) t)) (m0, st0)") auto
  have "tc_callbacks m1 = tc_callbacks m"
    using disableLoop_registers [OF L] by (simp add: same_rest_def m0_def)
  then show ?thesis
    using None L by (simp add: beginDisableLocked_def Let_def m0_def [symmetric] st0_def [symmetric])
qed (simp add: beginDisableLocked_def)

lemma callbacks_beginDisable:
  assumes inv: "conn_inv m" and rem: "removals_ok m" and ok: "callbacks_ok m" and B: "beginDisableLocked t m = (d, w, m')"
  shows "callbacks_ok m'"
proof (cases "mget (tc_disableStates m) t")
  case (Some d')
  then show ?thesis
    using ok B by (simp add: beginDisableLocked_def)
next
  case None
  note M = conn_invD(1) [OF inv]
  obtain st where d: "d = length (tc_disables m)" and st: "tc_disables m' = tc_disables m @ [st]" "ds_result st = ds_sessions st"
    and mem: "\<And>s. s \<in> set (ds_sessions st) \<longleftrightarrow> ts_ID (sess m s) = t \<and> (mget (tc_sessions m) s \<noteq> None \<or> mget (tc_removals m) s \<noteq> None)"
    and same: "tc_heap m' = tc_heap m" "tc_stopState m' = tc_stopState m" and dS: "tc_disableStates m' = mput t d (tc_disableStates m)"
    by (rule beginDisable_new [OF M None B]) (rule that; assumption)
  have cb: "tc_callbacks m' = tc_callbacks m"
    using beginDisable_callbacks [of t m] B by simp
  have lt: "known m s" if "s \<in> set (ds_sessions st)" for s
    using mem [of s] that tracked_known [OF inv rem, of s] by blast
  have "called_ok m'"
    using ok unfolding callbacks_ok_def called_ok_def cb same shut_def dS by (auto simp: map_simps)
  moreover have "collected_ok m'"
    unfolding collected_ok_def same
  proof (intro allI impI)
    fix d'
    assume d': "d' < length (tc_disables m')"
    show "\<exists>t. mget (tc_disableStates m') t = Some d' \<and> (\<forall>s \<in> set (ds_result (tc_disables m' ! d')). known m s \<and> ts_ID (sess m s) = t)"
    proof (cases "d' = d")
      case True
      then show ?thesis
        using mem lt by (intro exI [of _ t]) (simp add: st d dS map_simps)
    next
      case False
      then have "d' < length (tc_disables m)"
        using d' by (simp add: st d)
      then obtain t' where "mget (tc_disableStates m) t' = Some d'"
        "\<forall>s \<in> set (ds_result (tc_disables m ! d')). known m s \<and> ts_ID (sess m s) = t'"
        using ok unfolding callbacks_ok_def collected_ok_def by blast
      then show ?thesis
        using None \<open>d' < length (tc_disables m)\<close> by (intro exI [of _ t']) (auto simp: st dS map_simps nth_append)
    qed
  qed
  moreover have "active_ok m'"
    using ok unfolding callbacks_ok_def active_ok_def same by simp
  ultimately show ?thesis
    by (simp add: callbacks_ok_def)
qed

lemma callbacks_beginStop:
  assumes inv: "conn_inv m" and rem: "removals_ok m" and ok: "callbacks_ok m"
  shows "callbacks_ok (tokens_beginStop m)"
proof (cases "tc_stopState m")
  case None
  obtain m1 os where L: "stopLoop (mkeys (tc_sessions m)) (m, []) = (m1, os)"
    by (cases "stopLoop (mkeys (tc_sessions m)) (m, [])") auto
  have s: "tc_heap m1 = tc_heap m" "tc_callbacks m1 = tc_callbacks m" "tc_disables m1 = tc_disables m" "tc_disableStates m1 = tc_disableStates m"
    using stopLoop_registers [OF L] by (simp_all add: same_rest_def)
  have "known m s" if "s \<in> set (mkeys (tc_sessions m))" for s
    using that tracked_known [OF inv rem, of s] unfolding mem_mkeys by blast
  then show ?thesis
    using ok None
    by (simp add: callbacks_ok_def called_ok_def collected_ok_def active_ok_def shut_def tokens_beginStop_def L s)
qed (use ok in \<open>simp add: tokens_beginStop_def\<close>)

text \<open>A disabling that no longer drains has no lease on the sessions it collected.\<close>

lemma collected_idle:
  assumes inv: "conn_inv m" and ok: "collected_ok m" and d: "d < length (tc_disables m)"
    and dr: "draining (ds_phase (tc_disables m ! d)) = []" and s: "s \<in> set (ds_result (tc_disables m ! d))"
  shows "known m s \<and> shut m s \<and> readers m s = 0"
proof -
  obtain t where t: "mget (tc_disableStates m) t = Some d" "s < length (tc_heap m)" "ts_ID (sess m s) = t" "ts_conn (sess m s) \<noteq> None"
    using ok d s unfolding collected_ok_def by blast
  then have "\<not> covered m s"
    using dr by (simp add: covered_def)
  then show ?thesis
    using t gates_okD(3) [OF conn_invD(2) [OF inv] t(2)] by (auto simp: shut_def)
qed

lemma completeDisable_rest:
  assumes "completeDisable d m = Some m'"
  shows "tc_heap m' = tc_heap m" "tc_disableStates m' = tc_disableStates m" "map ds_result (tc_disables m') = map ds_result (tc_disables m)"
    "tc_stopState m' = tc_stopState m" "tc_leases m' = tc_leases m" "tc_sessions m' = tc_sessions m" "tc_removals m' = tc_removals m"
    "tc_callbacks m' = tc_callbacks m @ (if ds_phase (tc_disables m ! d) = Calling then ds_result (tc_disables m ! d) else [])"
  using assms
  by (auto simp: completeDisable_def Let_def set_disable_def map_update list_update_same_conv [symmetric]
      split: completion.splits list.splits if_splits) (simp_all add: list_update_id map_update [symmetric] del: map_update)

lemma callbacks_completeDisable:
  assumes inv: "conn_inv m" and ok: "callbacks_ok m" and C: "completeDisable d m = Some m'" and d: "d < length (tc_disables m)"
  shows "callbacks_ok m'"
proof -
  note rest = completeDisable_rest [OF C]
  let ?n = "if ds_phase (tc_disables m ! d) = Calling then ds_result (tc_disables m ! d) else []"
  have new: "known m s \<and> shut m s \<and> readers m s = 0" if "s \<in> set ?n" for s
    using collected_idle [OF inv _ d, of s] ok that unfolding callbacks_ok_def by (auto split: if_splits)
  have "callbacks_ok (m'\<lparr>tc_callbacks := tc_callbacks m\<rparr>)"
    by (rule callbacks_frame [OF inv ok]) (simp_all add: rest)
  then have "collected_ok m'" "active_ok m'"
    unfolding callbacks_ok_def collected_ok_def active_ok_def by (simp_all cong: option.case_cong)
  moreover have "called_ok m'"
    using ok new unfolding callbacks_ok_def called_ok_def rest shut_def by (auto split: if_splits)
  ultimately show ?thesis
    by (simp add: callbacks_ok_def)
qed

lemma completeStop_rest:
  assumes "completeStop m = Some m'"
  shows "tc_heap m' = tc_heap m" "tc_disableStates m' = tc_disableStates m" "tc_disables m' = tc_disables m"
    "tc_leases m' = tc_leases m" "tc_sessions m' = tc_sessions m" "tc_removals m' = tc_removals m"
  using assms
  by (auto simp: completeStop_def set_stop_def split: option.splits completion.splits list.splits if_splits)

lemma completeStop_state:
  assumes "completeStop m = Some m'" and "tc_stopState m = Some st"
  shows "\<exists>st'. tc_stopState m' = Some st' \<and> st_active st' = st_active st
      \<and> (\<forall>s \<in> set (draining (st_phase st)). s \<in> set (draining (st_phase st')) \<or> readers m s = 0)"
    "tc_callbacks m' = tc_callbacks m @ (if st_phase st = Calling then st_active st else [])"
  using assms
  by (auto simp: completeStop_def set_stop_def split: completion.splits list.splits if_splits)

lemma callbacks_completeStop:
  assumes inv: "conn_inv m" and ok: "callbacks_ok m" and C: "completeStop m = Some m'"
  shows "callbacks_ok m'"
proof -
  note rest = completeStop_rest [OF C]
  obtain st where st: "tc_stopState m = Some st"
    using C by (cases "tc_stopState m") (simp_all add: completeStop_def)
  note cb = completeStop_state(2) [OF C st]
  obtain st' where st': "tc_stopState m' = Some st'" "st_active st' = st_active st"
    and dr: "\<forall>s \<in> set (draining (st_phase st)). s \<in> set (draining (st_phase st')) \<or> readers m s = 0"
    using completeStop_state(1) [OF C st] by (elim exE conjE)
  have act: "known m s \<and> (s \<in> set (draining (st_phase st)) \<or> readers m s = 0)" if "s \<in> set (st_active st)" for s
    using ok that st unfolding callbacks_ok_def active_ok_def by simp
  have "shut m' s" for s
    by (simp add: shut_def st')
  moreover have "readers m s = 0" if "s \<in> set (st_active st)" "st_phase st = Calling" for s
    using act [OF that(1)] that(2) by simp
  ultimately have "called_ok m'"
    using ok act unfolding callbacks_ok_def called_ok_def cb rest(1) by (auto split: if_splits)
  moreover have "collected_ok m'"
    using ok unfolding callbacks_ok_def collected_ok_def rest by simp
  moreover have "known m s \<and> (s \<in> set (draining (st_phase st')) \<or> readers m s = 0)" if "s \<in> set (st_active st)" for s
    using act [OF that] bspec [OF dr, of s] by (cases "readers m s = 0") simp_all
  then have "active_ok m'"
    by (simp add: active_ok_def st' rest(1))
  ultimately show ?thesis
    by (simp add: callbacks_ok_def)
qed

lemma callbacks_newLease:
  assumes "conn_inv m" and "callbacks_ok m" and "tracked m s" and "newLease s m = (l, m')"
  shows "callbacks_ok m'"
  by (rule callbacks_frame [OF assms(1,2)]) (use assms(3,4) in \<open>auto simp: newLease_def nth_update_if\<close>)

lemma callbacks_expiry: "callbacks_ok (m\<lparr>tc_expiry := e\<rparr>) = callbacks_ok m"
  by (simp add: callbacks_ok_def called_ok_def collected_ok_def active_ok_def shut_def cong: option.case_cong)

lemma callbacks_schedule:
  assumes "conn_inv m" and "callbacks_ok m"
  shows "callbacks_ok (scheduleExpiryLocked t m)"
  by (rule callbacks_frame [OF assms]) (auto simp: scheduleExpiryLocked_def Let_def split: option.split)

lemma schedule_rest [simp]:
  "tc_heap (scheduleExpiryLocked t m) = tc_heap m" "tc_callbacks (scheduleExpiryLocked t m) = tc_callbacks m"
  "tc_stopState (scheduleExpiryLocked t m) = tc_stopState m" "tc_leases (scheduleExpiryLocked t m) = tc_leases m"
  "tc_sessions (scheduleExpiryLocked t m) = tc_sessions m" "tc_removals (scheduleExpiryLocked t m) = tc_removals m"
  by (auto simp: scheduleExpiryLocked_def Let_def split: option.split)

lemma callbacks_track:
  assumes inv: "conn_inv m" and rem: "removals_ok m" and ok: "callbacks_ok m" and s: "s < length (tc_heap m)"
  shows "callbacks_ok (snd (Track s conn now m))"
proof -
  obtain d w m1 where B: "beginDisableLocked (ts_ID (sess m s)) m = (d, w, m1)"
    by (cases "beginDisableLocked (ts_ID (sess m s)) m") auto
  have "callbacks_ok (snd (Track s conn now m))" if "fst (Track s conn now m)"
    by (rule callbacks_frame [OF inv ok]) (use that in \<open>auto simp: Track_def Let_def nth_update_if split: if_splits\<close>)
  then show ?thesis
    using ok callbacks_beginDisable [OF inv rem ok B] by (cases "fst (Track s conn now m)") (auto simp: Track_def Let_def B split: if_splits)
qed

lemma callbacks_acquire:
  assumes inv: "conn_inv m" and rem: "removals_ok m" and ok: "callbacks_ok m"
  shows "callbacks_ok (snd (Acquire s now m))"
proof -
  obtain d w m1 where B: "beginDisableLocked (ts_ID (sess m s)) m = (d, w, m1)"
    by (cases "beginDisableLocked (ts_ID (sess m s)) m") auto
  obtain l m2 where N: "newLease s m = (l, m2)"
    by fastforce
  show ?thesis
    using ok callbacks_newLease [OF inv ok _ N] callbacks_beginDisable [OF inv rem ok B]
    by (auto simp: Acquire_def Let_def B N callbacks_expiry)
qed

lemma callbacks_fork:
  assumes inv: "conn_inv m" and rem: "removals_ok m" and ok: "callbacks_ok m"
  shows "callbacks_ok (snd (Fork l m))"
proof -
  obtain l' m2 where N: "newLease (tl_session (tc_leases m ! l)) m = (l', m2)"
    by fastforce
  show ?thesis
    using ok callbacks_newLease [OF inv ok _ N] by (auto simp: Fork_def Let_def N)
qed

lemma callbacks_expireCheck:
  assumes inv: "conn_inv m" and rem: "removals_ok m" and ok: "callbacks_ok m"
  shows "callbacks_ok (expireCheck k t g now m)"
proof -
  obtain d w m1 where B: "beginDisableLocked t m = (d, w, m1)"
    by (cases "beginDisableLocked t m") auto
  have "callbacks_ok (scheduleExpiryLocked t (m\<lparr>tc_expiryTimers := mdel t (tc_expiryTimers m)\<rparr>))"
    by (rule callbacks_frame [OF inv ok]) simp_all
  then show ?thesis
    using ok callbacks_beginDisable [OF inv rem ok B]
    by (auto simp: expireCheck_def B expirer_gone_def callbacks_expiry split: option.split)
qed

lemma callbacks_step:
  assumes step: "token_conn_step m m'" and inv: "conn_inv m" and rem: "removals_ok m" and ok: "callbacks_ok m"
  shows "callbacks_ok m'"
  using step
proof cases
  case (new t x)
  show ?thesis
    by (rule callbacks_frame [OF inv ok]) (simp_all add: new nth_append)
next
  case (release l)
  show ?thesis
    by (rule callbacks_frame [OF inv ok]) (simp_all add: release Release_def Let_def nth_update_if)
next
  case (remove s)
  obtain r c m2 where R: "registerRemoveLocked s (detachSessionLocked s m) = (r, c, m2)"
    by (cases "registerRemoveLocked s (detachSessionLocked s m)") auto
  have "tc_heap m2 = tc_heap m" "tc_callbacks m2 = tc_callbacks m" "tc_disableStates m2 = tc_disableStates m" "tc_disables m2 = tc_disables m"
    "tc_stopState m2 = tc_stopState m"
    using register_registers [OF R] by (simp_all add: same_rest_def detachSessionLocked_def)
  then show ?thesis
    by (intro callbacks_frame [OF inv ok]) (auto simp: remove Remove_def R)
next
  case (complete_remove s)
  show ?thesis
    by (rule callbacks_frame [OF inv ok]) (simp_all add: complete_remove CompleteRemove_def completeTokenRemove_def split: option.split)
next
  case (disable t)
  obtain d w m1 where B: "beginDisableLocked t m = (d, w, m1)"
    by (cases "beginDisableLocked t m") auto
  show ?thesis
    using ok callbacks_beginDisable [OF inv rem ok B] by (simp add: disable Disable_def B)
next
  case (remove_goroutine r)
  then show ?thesis
    by (intro callbacks_frame [OF inv ok]) (auto simp: finishRemove_def Let_def split: if_splits)
next
  case (expire_enter t g)
  show ?thesis
    using ok by (simp add: expire_enter expireEnter_def callbacks_expiry)
next
  case (expire_done k d)
  show ?thesis
    using ok by (simp add: expire_done expirer_gone_def callbacks_expiry)
qed (use callbacks_track [OF inv rem ok] callbacks_acquire [OF inv rem ok] callbacks_fork [OF inv rem ok] callbacks_beginStop [OF inv rem ok]
    callbacks_completeDisable [OF inv ok] callbacks_completeStop [OF inv ok] callbacks_expireCheck [OF inv rem ok] in simp_all)

section \<open>Runs\<close>

definition drain_inv :: "tokenConnections \<Rightarrow> bool" where
  "drain_inv m \<longleftrightarrow> conn_inv m \<and> removals_ok m \<and> callbacks_ok m"

lemma drain_invD:
  assumes "drain_inv m"
  shows "conn_inv m" "removals_ok m" "callbacks_ok m"
  using assms by (simp_all add: drain_inv_def)

lemma drain_inv_new: "drain_inv newTokenConnections"
  using inv_newTokenConnections
  by (simp add: drain_inv_def removals_ok_def callbacks_ok_def called_ok_def collected_ok_def active_ok_def newTokenConnections_def)

lemma drain_inv_step: "once_step m m' \<Longrightarrow> drain_inv m \<Longrightarrow> drain_inv m'"
  by (simp add: drain_inv_def removals_step callbacks_step [of m m'] inv_token_conn_step [of m m'] once_step_def)

text \<open>After the wait for the drain of a removed session, and when a callback was given a session, nobody holds a lease on it.\<close>

lemma drained_idle:
  assumes "drain_inv m" and "s < length (tc_heap m)" and "\<not> tracked m s" and "removeDrained s m"
  shows "open_leases m s = 0"
proof -
  have "\<not> undrained m s"
    using assms(4) by (auto simp: removeDrained_def undrained_def)
  then have "readers m s = 0"
    using removals_okD [OF drain_invD(2) [OF assms(1)] assms(2)] assms(3) unfolding removal_ok_def by blast
  then show ?thesis
    using gates_okD(2) [OF conn_invD(2) [OF drain_invD(1) [OF assms(1)]] assms(2)] by simp
qed

lemma called_idle:
  assumes "drain_inv m" and "s \<in> set (tc_callbacks m)"
  shows "known m s \<and> \<not> tracked m s \<and> open_leases m s = 0"
proof -
  have "s < length (tc_heap m)" "ts_conn (sess m s) \<noteq> None" "shut m s" "readers m s = 0"
    using drain_invD(3) [OF assms(1)] assms(2) unfolding callbacks_ok_def called_ok_def by blast+
  then show ?thesis
    using shut_untracked [OF drain_invD(1) [OF assms(1)]] gates_okD(2) [OF conn_invD(2) [OF drain_invD(1) [OF assms(1)]]] by simp
qed

section \<open>Calm steps\<close>

text \<open>
  Most steps neither track a session nor release somebody's lease: an old lease stays as it is, sessions are
  only removed, and an untracked session gets no lease.
\<close>

definition calm_fields :: "tokenConnections \<Rightarrow> tokenConnections \<Rightarrow> bool" where
  "calm_fields m m' \<longleftrightarrow>
    length (tc_heap m') = length (tc_heap m) \<and> (\<forall>s. ts_conn (sess m' s) = ts_conn (sess m s))
    \<and> (\<forall>s. tracked m' s \<longrightarrow> tracked m s)
    \<and> (\<forall>s. \<not> tracked m s \<longrightarrow> open_leases m' s \<le> open_leases m s)
    \<and> length (tc_leases m) \<le> length (tc_leases m') \<and> (\<forall>l < length (tc_leases m). tc_leases m' ! l = tc_leases m ! l)"

definition calm :: "tokenConnections \<Rightarrow> tokenConnections \<Rightarrow> bool" where
  "calm m m' \<longleftrightarrow> once_step\<^sup>*\<^sup>* m m' \<and> calm_fields m m'"

lemma calm_fieldsD:
  assumes "calm_fields m m'"
  shows "length (tc_heap m') = length (tc_heap m)" "ts_conn (sess m' s) = ts_conn (sess m s)" "tracked m' s \<Longrightarrow> tracked m s"
    "\<not> tracked m s \<Longrightarrow> open_leases m' s \<le> open_leases m s" "length (tc_leases m) \<le> length (tc_leases m')"
    "l < length (tc_leases m) \<Longrightarrow> tc_leases m' ! l = tc_leases m ! l"
  using assms unfolding calm_fields_def by blast+

lemma calm_refl [simp]: "calm m m"
  by (simp add: calm_def calm_fields_def)

lemma calm_fields_trans: "calm_fields a b \<Longrightarrow> calm_fields b c \<Longrightarrow> calm_fields a c"
  unfolding calm_fields_def by (metis le_trans order_less_le_trans)

lemma calm_trans: "calm a b \<Longrightarrow> calm b c \<Longrightarrow> calm a c"
  using calm_fields_trans [of a b c] by (auto simp: calm_def)

lemma calm_once: "token_conn_step m m' \<Longrightarrow> calm_fields m m' \<Longrightarrow> once_step m m'"
  unfolding once_step_def tracks_once_def calm_fields_def by blast

lemma calm_step: "token_conn_step m m' \<Longrightarrow> calm_fields m m' \<Longrightarrow> calm m m'"
  using calm_once [of m m'] by (simp add: calm_def r_into_rtranclp)

lemma drain_inv_run: "once_step\<^sup>*\<^sup>* m m' \<Longrightarrow> drain_inv m \<Longrightarrow> drain_inv m'"
  by (induction rule: rtranclp_induct) (auto intro: drain_inv_step)

lemma drain_inv_calm: "calm m m' \<Longrightarrow> drain_inv m \<Longrightarrow> drain_inv m'"
  unfolding calm_def by (blast intro: drain_inv_run)

lemma calm_same:
  assumes "tc_heap m' = tc_heap m" and "\<And>s. tracked m' s \<Longrightarrow> tracked m s" and "tc_leases m' = tc_leases m"
  shows "calm_fields m m'"
  unfolding calm_fields_def open_leases_def assms(1,3) using assms(2) by blast

lemma calm_beginDisable:
  assumes inv: "conn_inv m" and B: "beginDisableLocked t m = (d, w, m')"
  shows "tc_heap m' = tc_heap m" "tc_leases m' = tc_leases m" "tracked m' s \<Longrightarrow> tracked m s"
proof -
  have "tc_heap m' = tc_heap m \<and> tc_leases m' = tc_leases m \<and> (tracked m' s \<longrightarrow> tracked m s)"
  proof (cases "mget (tc_disableStates m) t")
    case (Some d')
    then show ?thesis
      using B by (simp add: beginDisableLocked_def)
  next
    case None
    have "tc_heap m' = tc_heap m" "tc_leases m' = tc_leases m"
      "mget (tc_sessions m') s = (if ts_ID (sess m s) = t then None else mget (tc_sessions m) s)"
      using beginDisable_new [OF conn_invD(1) [OF inv] None B] by blast+
    then show ?thesis
      by simp
  qed
  then show "tc_heap m' = tc_heap m" "tc_leases m' = tc_leases m" "tracked m' s \<Longrightarrow> tracked m s"
    by simp_all
qed

lemma calm_newLease: "tracked m s \<Longrightarrow> newLease s m = (l, m') \<Longrightarrow> calm_fields m m'"
  by (auto simp: newLease_def calm_fields_def nth_update_if open_leases_def nth_append)

lemma calm_acquire:
  assumes inv: "conn_inv m" and s: "s < length (tc_heap m)"
  shows "calm m (snd (Acquire s now m))"
proof (rule calm_step [OF token_conn_step.acquire [OF s]])
  obtain d w m1 where B: "beginDisableLocked (ts_ID (sess m s)) m = (d, w, m1)"
    by (cases "beginDisableLocked (ts_ID (sess m s)) m") auto
  obtain l m2 where N: "newLease s m = (l, m2)"
    by fastforce
  have "calm_fields m m1" "calm_fields m (m1\<lparr>tc_expiry := tc_expiry m1 @ [AwaitDisable d]\<rparr>)"
    by (rule calm_same; use calm_beginDisable [OF inv B] in simp)+
  then show "calm_fields m (snd (Acquire s now m))"
    using calm_newLease [OF _ N] calm_same [of m m] by (auto simp: Acquire_def Let_def B N)
qed

lemma calm_fork:
  assumes "l < length (tc_leases m)"
  shows "calm m (snd (Fork l m))"
proof (rule calm_step [OF token_conn_step.fork [OF assms]])
  obtain l' m2 where N: "newLease (tl_session (tc_leases m ! l)) m = (l', m2)"
    by fastforce
  show "calm_fields m (snd (Fork l m))"
    using calm_newLease [OF _ N] calm_same [of m m] by (auto simp: Fork_def Let_def N)
qed

lemma remove_rest: "tc_heap (Remove s m) = tc_heap m" "tc_leases (Remove s m) = tc_leases m"
  "tc_sessions (Remove s m) = (if mget (tc_removals m) s = None \<and> \<not> tc_stopped m \<and> tracked m s then mdel s (tc_sessions m) else tc_sessions m)"
proof -
  obtain r c m2 where R: "registerRemoveLocked s (detachSessionLocked s m) = (r, c, m2)"
    by (cases "registerRemoveLocked s (detachSessionLocked s m)") auto
  have "tc_heap m2 = tc_heap m" "tc_leases m2 = tc_leases m" "tc_sessions m2 = mdel s (tc_sessions m)"
    using register_registers [OF R] by (simp_all add: same_rest_def detachSessionLocked_def)
  then show "tc_heap (Remove s m) = tc_heap m" "tc_leases (Remove s m) = tc_leases m"
    "tc_sessions (Remove s m) = (if mget (tc_removals m) s = None \<and> \<not> tc_stopped m \<and> tracked m s then mdel s (tc_sessions m) else tc_sessions m)"
    by (auto simp: Remove_def R)
qed

lemma calm_remove:
  assumes "s < length (tc_heap m)"
  shows "calm m (Remove s m)"
  by (rule calm_step [OF token_conn_step.remove [OF assms]], rule calm_same) (simp_all add: remove_rest map_simps split: if_splits)

text \<open>A removed session is not tracked.\<close>

lemma remove_untracked:
  assumes "drain_inv m" and "s < length (tc_heap m)"
  shows "\<not> tracked (Remove s m) s"
proof -
  have "mget (tc_removals m) s \<noteq> None \<Longrightarrow> \<not> tracked m s" "tc_stopped m \<Longrightarrow> \<not> tracked m s"
    using removals_okD [OF drain_invD(2) [OF assms(1)] assms(2)] shut_untracked [OF drain_invD(1) [OF assms(1)], of s]
    by (simp_all add: removal_ok_def shut_def)
  then show ?thesis
    unfolding remove_rest by (auto simp: map_simps)
qed

text \<open>The release of a lease that was taken during the calm steps themselves.\<close>

lemma calm_release:
  assumes c: "calm m0 m" and l: "length (tc_leases m0) \<le> l" "l < length (tc_leases m)"
  shows "calm m0 (Release l m)"
proof -
  let ?m = "Release l m"
  have f: "tc_sessions ?m = tc_sessions m" "length (tc_heap ?m) = length (tc_heap m)" "\<And>s. ts_conn (sess ?m s) = ts_conn (sess m s)"
    "length (tc_leases ?m) = length (tc_leases m)" "\<And>i. i < length (tc_leases m0) \<Longrightarrow> tc_leases ?m ! i = tc_leases m ! i"
    using l by (auto simp: Release_def Let_def nth_update_if)
  have cf: "calm_fields m0 m"
    using c by (simp add: calm_def)
  have "open_leases ?m s \<le> open_leases m s" for s
    using length_filter_update [OF l(2), of "\<lambda>k. tl_session k = s \<and> \<not> tl_released k" "(tc_leases m ! l)\<lparr>tl_released := True\<rparr>"]
    by (auto simp: open_leases_def Release_def Let_def split: if_splits)
  then have "open_leases ?m s \<le> open_leases m0 s" if "\<not> tracked m0 s" for s
    using le_trans calm_fieldsD(4) [OF cf that] by blast
  then have "calm_fields m0 ?m"
    using cf unfolding calm_fields_def f by (simp add: f)
  moreover have "once_step m ?m"
    using token_conn_step.release [OF l(2)] by (simp add: once_step_def tracks_once_def f)
  ultimately show ?thesis
    using c by (auto simp: calm_def)
qed

text \<open>
  The steps of the manager that no handler of a connection takes: disablings by an administrator, the stop, the
  goroutines, the expiry, and the end of a cleanup.
\<close>

inductive background_step :: "tokenConnections \<Rightarrow> tokenConnections \<Rightarrow> bool" where
  "background_step m (snd (Disable t m))"
| "background_step m (tokens_beginStop m)"
| "d < length (tc_disables m) \<Longrightarrow> completeDisable d m = Some m' \<Longrightarrow> background_step m m'"
| "r < length (tc_removes m) \<Longrightarrow> finishRemove r m = Some m' \<Longrightarrow> background_step m m'"
| "completeStop m = Some m' \<Longrightarrow> background_step m m'"
| "background_step m (expireEnter t g m)"
| "k < length (tc_expiry m) \<Longrightarrow> tc_expiry m ! k = Checking t g \<Longrightarrow> background_step m (expireCheck k t g now m)"
| "k < length (tc_expiry m) \<Longrightarrow> tc_expiry m ! k = AwaitDisable d \<Longrightarrow> ds_phase (tc_disables m ! d) = Finished
    \<Longrightarrow> background_step m (expirer_gone k m)"
| "background_step m (CompleteRemove s m)"

lemma background_token_step: "background_step m m' \<Longrightarrow> token_conn_step m m'"
  by (induction rule: background_step.induct)
     (rule token_conn_step.disable token_conn_step.stop token_conn_step.disable_goroutine token_conn_step.remove_goroutine
       token_conn_step.stop_goroutine token_conn_step.expire_enter token_conn_step.expire_check token_conn_step.expire_done
       token_conn_step.complete_remove; assumption)+

lemma calm_stop: "calm_fields m (tokens_beginStop m)"
proof (cases "tc_stopState m")
  case None
  obtain m1 os where L: "stopLoop (mkeys (tc_sessions m)) (m, []) = (m1, os)"
    by (cases "stopLoop (mkeys (tc_sessions m)) (m, [])") auto
  have "tc_heap m1 = tc_heap m" "tc_leases m1 = tc_leases m"
    using stopLoop_registers [OF L] by (simp_all add: same_rest_def)
  then show ?thesis
    using None by (intro calm_same) (simp_all add: tokens_beginStop_def L map_simps)
qed (simp add: tokens_beginStop_def calm_same)

lemma background_calm:
  assumes "background_step m m'" and inv: "conn_inv m"
  shows "calm m m'"
proof (rule calm_step [OF background_token_step [OF assms(1)]])
  have dis: "calm_fields m m1" if "beginDisableLocked t m = (d, w, m1)" for t d w m1
    by (rule calm_same) (rule calm_beginDisable [OF inv that]; assumption?)+
  have exp: "calm_fields m (expireCheck k t g now m)" for k t g now
  proof -
    obtain d w m1 where B: "beginDisableLocked t m = (d, w, m1)"
      by (cases "beginDisableLocked t m") auto
    show ?thesis
      by (rule calm_same) (use calm_beginDisable [OF inv B] in \<open>auto simp: expireCheck_def expirer_gone_def B split: option.splits if_splits\<close>)
  qed
  show "calm_fields m m'"
    using assms(1)
  proof cases
    case (1 t)
    then show ?thesis
      using dis [of t] calm_same [of m m] by (cases "beginDisableLocked t m") (auto simp: Disable_def)
  next
    case 2
    then show ?thesis
      using calm_stop by simp
  next
    case (3 d)
    show ?thesis
      by (rule calm_same) (simp_all add: completeDisable_rest [OF 3(2)])
  next
    case (4 r)
    then show ?thesis
      by (intro calm_same) (auto simp: finishRemove_def Let_def split: if_splits)
  next
    case 5
    show ?thesis
      by (rule calm_same) (simp_all add: completeStop_rest [OF 5])
  next
    case (7 k t g now)
    then show ?thesis
      using exp by simp
  qed (auto intro!: calm_same simp: expireEnter_def expirer_gone_def CompleteRemove_def completeTokenRemove_def split: option.split)
qed

end
