(* ===== verification/Alert_Engine.thy ===== *)
theory Alert_Engine
  imports Store_Calls Config_History Semver Go_Crypto Go_Time
begin

text \<open>
  The alert engine (\<open>internal/alerts/engine.go\<close>) and the alert table (\<open>internal/store/alerts.go\<close>). A
  pass of the engine walks over the workloads that are not archived, page by page, and opens or resolves
  an alert for each of three rules. The fate of every database call, the random bytes of the
  identifiers and the clock of the store are arguments. Log lines are not modelled.
\<close>

section \<open>The table\<close>

definition CreateAlert :: "Alert \<Rightarrow> store_db \<Rightarrow> db_error + store_db" where
  "CreateAlert a d =
    (if al_ID a \<in> al_ID ` set (sd_alerts d) \<or> \<not> has_workload d (al_WorkloadID a)
        \<or> al_Severity a \<notin> {''warning'', ''critical''} then Inl ConstraintViolated
     else Inr (d\<lparr>sd_alerts := sd_alerts d @ [a\<lparr>al_ResolvedAt := None\<rparr>]\<rparr>))"

definition ResolveAlert :: "gotime \<Rightarrow> string \<Rightarrow> store_db \<Rightarrow> db_error + store_db" where
  "ResolveAlert clock ident d =
    (if ident \<notin> al_ID ` set (sd_alerts d) then Inl NoRows
     else Inr (d\<lparr>sd_alerts := row_mod (\<lambda>a. al_ID a = ident) (\<lambda>a. a\<lparr>al_ResolvedAt := Some clock\<rparr>) (sd_alerts d)\<rparr>))"

definition ListAlerts :: "bool \<Rightarrow> store_db \<Rightarrow> Alert list" where
  "ListAlerts includeResolved d =
    sort_key (\<lambda>a. - al_FiredAt a) (filter (\<lambda>a. includeResolved \<or> al_ResolvedAt a = None) (sd_alerts d))"

definition open_alert :: "string \<Rightarrow> string \<Rightarrow> Alert \<Rightarrow> bool" where
  "open_alert workloadID rule a \<longleftrightarrow> al_WorkloadID a = workloadID \<and> al_Rule a = rule \<and> al_ResolvedAt a = None"

definition GetUnresolvedAlertByWorkloadAndRule :: "store_db \<Rightarrow> string \<Rightarrow> string \<Rightarrow> Alert option" where
  "GetUnresolvedAlertByWorkloadAndRule d workloadID rule = find (open_alert workloadID rule) (sd_alerts d)"

section \<open>The engine\<close>

definition defaultWorkloadPageSize :: int where "defaultWorkloadPageSize = 500"

text \<open>\<open>en_hub\<close> tells whether a broadcaster is set; notifiers are known by their position.\<close>

record Engine =
  en_hub :: bool
  en_downTimeout :: duration
  en_minVersion :: string
  en_notifiers :: nat
  en_pageSize :: int

definition New_Engine :: "bool \<Rightarrow> duration \<Rightarrow> string \<Rightarrow> nat \<Rightarrow> Engine" where
  "New_Engine hub downTimeout minVersion notifiers =
    \<lparr>en_hub = hub, en_downTimeout = downTimeout, en_minVersion = minVersion, en_notifiers = notifiers,
     en_pageSize = defaultWorkloadPageSize\<rparr>"

text \<open>The calls of a pass. Each of them is made at most once in a pass over distinct workloads.\<close>

datatype alert_call = CallPage string | CallPending string | CallLookup string string
  | CallCreate string string | CallResolve string string

record alert_env =
  av_fate :: "alert_call \<Rightarrow> call_fate"
  av_clock :: "alert_call \<Rightarrow> gotime"
  av_random :: "string \<Rightarrow> string \<Rightarrow> nat list"

text \<open>The database and what was sent to the frontends and to the notifiers.\<close>

record engine_state =
  es_db :: store_db
  es_broadcast :: "Alert list"
  es_notified :: "(nat \<times> Alert) list"

datatype outcome = Finished engine_state | Panicked engine_state

primrec final_state :: "outcome \<Rightarrow> engine_state" where
  "final_state (Finished s) = s"
| "final_state (Panicked s) = s"

definition generateID :: "alert_env \<Rightarrow> string \<Rightarrow> string \<Rightarrow> string" where
  "generateID env w rule = hex_EncodeToString (av_random env w rule)"

definition fire :: "alert_env \<Rightarrow> Engine \<Rightarrow> Alert \<Rightarrow> engine_state \<Rightarrow> engine_state" where
  "fire env e alert s =
    (case exec_call (av_fate env (CallCreate (al_WorkloadID alert) (al_Rule alert))) (CreateAlert alert) (es_db s) of
       (False, d) \<Rightarrow> s\<lparr>es_db := d\<rparr>
     | (True, d) \<Rightarrow>
         s\<lparr>es_db := d, es_broadcast := es_broadcast s @ (if en_hub e then [alert] else []),
           es_notified := es_notified s @ map (\<lambda>n. (n, alert)) [0 ..< en_notifiers e]\<rparr>)"

definition resolve :: "alert_env \<Rightarrow> Alert \<Rightarrow> engine_state \<Rightarrow> engine_state" where
  "resolve env existing s =
    (let call = CallResolve (al_WorkloadID existing) (al_Rule existing)
     in s\<lparr>es_db := snd (exec_call (av_fate env call) (ResolveAlert (av_clock env call) (al_ID existing)) (es_db s))\<rparr>)"

text \<open>
  The end of each rule: fire when the condition holds and nothing is open, resolve when it does not hold and an
  alert is open. The three rules repeat this code with their own alert.
\<close>

definition settle_rule :: "alert_env \<Rightarrow> Engine \<Rightarrow> bool \<Rightarrow> Alert option \<Rightarrow> Alert \<Rightarrow> engine_state \<Rightarrow> engine_state" where
  "settle_rule env e holds existing alert s =
    (case existing of
       None \<Rightarrow> if holds then fire env e alert s else s
     | Some a \<Rightarrow> if \<not> holds then resolve env a s else s)"

definition evaluateWorkloadDown :: "alert_env \<Rightarrow> Engine \<Rightarrow> Workload \<Rightarrow> gotime \<Rightarrow> engine_state \<Rightarrow> engine_state" where
  "evaluateWorkloadDown env e w now s =
    (let isDown = timeSub now (wl_LastSeenAt w) > en_downTimeout e in
     case read_call (av_fate env (CallLookup (wl_ID w) ''workload_down''))
            (GetUnresolvedAlertByWorkloadAndRule (es_db s) (wl_ID w) ''workload_down'') of
       None \<Rightarrow> s
     | Some existing \<Rightarrow>
         settle_rule env e isDown existing
           \<lparr>al_ID = generateID env (wl_ID w) ''workload_down'', al_WorkloadID = wl_ID w, al_Rule = ''workload_down'',
            al_Severity = ''critical'',
            al_Message = ''Workload '' @ wl_ID w @ '' not seen for '' @ durationString (en_downTimeout e),
            al_FiredAt = now, al_ResolvedAt = None\<rparr> s)"

text \<open>The error of a lookup is dropped here, so a failed lookup reads as no open alert.\<close>

definition lookup_open :: "alert_env \<Rightarrow> string \<Rightarrow> string \<Rightarrow> store_db \<Rightarrow> Alert option" where
  "lookup_open env w rule d =
    (case read_call (av_fate env (CallLookup w rule)) (GetUnresolvedAlertByWorkloadAndRule d w rule) of
       None \<Rightarrow> None | Some existing \<Rightarrow> existing)"

text \<open>Slicing a configuration identifier of fewer than 12 bytes panics.\<close>

definition evaluateConfigDrift :: "alert_env \<Rightarrow> Engine \<Rightarrow> Workload \<Rightarrow> gotime \<Rightarrow> engine_state \<Rightarrow> outcome" where
  "evaluateConfigDrift env e w now s =
    (case read_call (av_fate env (CallPending (wl_ID w)))
            (GetLatestPendingWorkloadConfig (av_clock env (CallPending (wl_ID w))) (es_db s) (wl_ID w)) of
       None \<Rightarrow> Finished s
     | Some pending \<Rightarrow>
         (let existing = lookup_open env (wl_ID w) ''config_drift'' (es_db s) in
          case pending of
            Some p \<Rightarrow>
              (let isDrifted = timeSub now (wc_AppliedAt p) > en_downTimeout e in
               if isDrifted \<and> existing = None \<and> length (wc_ConfigID p) < 12 then Panicked s
               else Finished (settle_rule env e isDrifted existing
                 \<lparr>al_ID = generateID env (wl_ID w) ''config_drift'', al_WorkloadID = wl_ID w, al_Rule = ''config_drift'',
                  al_Severity = ''warning'',
                  al_Message = ''Workload '' @ wl_ID w @ '' has not applied config '' @ take 12 (wc_ConfigID p) @ '' after ''
                    @ durationString (en_downTimeout e),
                  al_FiredAt = now, al_ResolvedAt = None\<rparr> s))
          | None \<Rightarrow> Finished (case existing of None \<Rightarrow> s | Some a \<Rightarrow> resolve env a s)))"

definition evaluateVersionOutdated :: "alert_env \<Rightarrow> Engine \<Rightarrow> Workload \<Rightarrow> gotime \<Rightarrow> engine_state \<Rightarrow> engine_state" where
  "evaluateVersionOutdated env e w now s =
    (if en_minVersion e = [] \<or> wl_Version w = [] then s
     else case Compare (wl_Version w) (en_minVersion e) of (cmp, ok) \<Rightarrow>
       if \<not> ok then s
       else settle_rule env e (cmp < 0) (lookup_open env (wl_ID w) ''version_outdated'' (es_db s))
         \<lparr>al_ID = generateID env (wl_ID w) ''version_outdated'', al_WorkloadID = wl_ID w, al_Rule = ''version_outdated'',
          al_Severity = ''warning'',
          al_Message = ''Workload '' @ wl_ID w @ '' version '' @ wl_Version w @ '' is below minimum '' @ en_minVersion e,
          al_FiredAt = now, al_ResolvedAt = None\<rparr> s)"

definition evaluate_workload :: "alert_env \<Rightarrow> Engine \<Rightarrow> gotime \<Rightarrow> Workload \<Rightarrow> engine_state \<Rightarrow> outcome" where
  "evaluate_workload env e now w s =
    (case evaluateConfigDrift env e w now (evaluateWorkloadDown env e w now s) of
       Panicked s \<Rightarrow> Panicked s
     | Finished s \<Rightarrow> Finished (evaluateVersionOutdated env e w now s))"

primrec evaluate_list :: "alert_env \<Rightarrow> Engine \<Rightarrow> gotime \<Rightarrow> Workload list \<Rightarrow> engine_state \<Rightarrow> outcome" where
  "evaluate_list env e now [] s = Finished s"
| "evaluate_list env e now (w # ws) s =
    (case evaluate_workload env e now w s of Panicked s \<Rightarrow> Panicked s | Finished s \<Rightarrow> evaluate_list env e now ws s)"

text \<open>The loop over the pages; \<open>None\<close> would be a pass that never ends.\<close>

partial_function (option) evaluate_from ::
  "(string \<Rightarrow> 'o :: linorder) \<Rightarrow> alert_env \<Rightarrow> Engine \<Rightarrow> gotime \<Rightarrow> int \<Rightarrow> string \<Rightarrow> engine_state \<Rightarrow> outcome option" where
  "evaluate_from coll env e now pageSize afterID s =
    (case read_call (av_fate env (CallPage afterID)) (ListWorkloadsPage coll False afterID pageSize (es_db s)) of
       None \<Rightarrow> Some (Finished s)
     | Some workloads \<Rightarrow>
         if workloads = [] then Some (Finished s)
         else case evaluate_list env e now workloads s of
           Panicked s \<Rightarrow> Some (Panicked s)
         | Finished s \<Rightarrow>
             if int (length workloads) < pageSize then Some (Finished s)
             else evaluate_from coll env e now pageSize (wl_ID (last workloads)) s)"

definition evaluatePages :: "(string \<Rightarrow> 'o :: linorder) \<Rightarrow> alert_env \<Rightarrow> Engine \<Rightarrow> gotime \<Rightarrow> engine_state \<Rightarrow> outcome option" where
  "evaluatePages coll env e now s =
    evaluate_from coll env e now (if en_pageSize e \<le> 0 then defaultWorkloadPageSize else en_pageSize e) [] s"

text \<open>\<open>paged\<close> tells whether the store offers pages; otherwise the call \<open>CallPage []\<close> lists everything.\<close>

definition Evaluate ::
  "bool \<Rightarrow> (string \<Rightarrow> 'o :: linorder) \<Rightarrow> alert_env \<Rightarrow> Engine \<Rightarrow> gotime \<Rightarrow> engine_state \<Rightarrow> outcome option" where
  "Evaluate paged coll env e now s =
    (if paged then evaluatePages coll env e now s
     else case read_call (av_fate env (CallPage [])) (ListWorkloads coll False (es_db s)) of
       None \<Rightarrow> Some (Finished s)
     | Some workloads \<Rightarrow> Some (evaluate_list env e now workloads s))"

section \<open>What a rule touches\<close>

definition open_alerts :: "store_db \<Rightarrow> string \<Rightarrow> string \<Rightarrow> Alert list" where
  "open_alerts d w r = filter (open_alert w r) (sd_alerts d)"

lemma lookup_None: "GetUnresolvedAlertByWorkloadAndRule d w r = None \<longleftrightarrow> open_alerts d w r = []"
  by (auto simp: GetUnresolvedAlertByWorkloadAndRule_def open_alerts_def find_None_iff filter_empty_conv)

lemma lookup_Some:
  "GetUnresolvedAlertByWorkloadAndRule d w r = Some a \<Longrightarrow> a \<in> set (open_alerts d w r) \<and> al_WorkloadID a = w \<and> al_Rule a = r"
  by (auto simp: GetUnresolvedAlertByWorkloadAndRule_def open_alerts_def open_alert_def find_Some_iff)

lemma alerts_inv:
  assumes "store_inv d" and "keyed al_ID xs" and "\<forall>a \<in> set xs. has_workload d (al_WorkloadID a)"
  shows "store_inv (d\<lparr>sd_alerts := xs\<rparr>)"
  using assms by (simp add: store_inv_def keys_ok_def workloads_ok_def refs_ok_def attributes_ok_def)

lemma CreateAlert_inv: "store_inv d \<Longrightarrow> CreateAlert a d = Inr d' \<Longrightarrow> store_inv d'"
  by (auto simp: CreateAlert_def split: if_splits intro!: alerts_inv simp: keyed_snoc)
    (auto simp: store_inv_def keys_ok_def refs_ok_def)

lemma ResolveAlert_inv: "store_inv d \<Longrightarrow> ResolveAlert c i d = Inr d' \<Longrightarrow> store_inv d'"
  by (auto simp: ResolveAlert_def split: if_splits intro!: alerts_inv keyed_row_mod simp: set_row_mod)
    (auto simp: store_inv_def keys_ok_def refs_ok_def)

lemma open_alerts_Create:
  "CreateAlert a d = Inr d' \<Longrightarrow>
    open_alerts d' w r = open_alerts d w r @ (if al_WorkloadID a = w \<and> al_Rule a = r then [a\<lparr>al_ResolvedAt := None\<rparr>] else [])"
  by (auto simp: CreateAlert_def open_alerts_def open_alert_def split: if_splits)

lemma open_alerts_Resolve:
  "ResolveAlert c i d = Inr d' \<Longrightarrow> open_alerts d' w r = filter (\<lambda>a. al_ID a \<noteq> i) (open_alerts d w r)"
proof -
  have "filter (open_alert w r) (row_mod (\<lambda>a. al_ID a = i) (\<lambda>a. a\<lparr>al_ResolvedAt := Some c\<rparr>) as) =
      filter (\<lambda>a. al_ID a \<noteq> i) (filter (open_alert w r) as)" for as
    by (induction as) (auto simp: row_mod_def open_alert_def)
  then show "ResolveAlert c i d = Inr d' \<Longrightarrow> open_alerts d' w r = filter (\<lambda>a. al_ID a \<noteq> i) (open_alerts d w r)"
    by (auto simp: ResolveAlert_def open_alerts_def split: if_splits)
qed

lemma open_alerts_other:
  assumes "store_inv d" and "a \<in> set (open_alerts d w r)" and "(v, q) \<noteq> (w, r)"
  shows "filter (\<lambda>x. al_ID x \<noteq> al_ID a) (open_alerts d v q) = open_alerts d v q"
proof -
  have "inj_on al_ID (set (sd_alerts d))"
    using assms(1) by (simp add: store_inv_def keys_ok_def keyed_def distinct_map)
  then have "al_ID x \<noteq> al_ID a" if "x \<in> set (open_alerts d v q)" for x
    using that assms(2,3) by (auto simp: open_alerts_def open_alert_def dest: inj_onD)
  then show ?thesis
    by (simp add: filter_id_conv)
qed

text \<open>
  \<open>touches K s s'\<close>: from \<open>s\<close> to \<open>s'\<close> only the alert table changed, it stayed consistent, and outside
  the pairs \<open>K\<close> of workload and rule the same alerts are open.
\<close>

definition touches :: "(string \<times> string) set \<Rightarrow> engine_state \<Rightarrow> engine_state \<Rightarrow> bool" where
  "touches K s s' \<longleftrightarrow>
    es_db s' = (es_db s)\<lparr>sd_alerts := sd_alerts (es_db s')\<rparr>
    \<and> (store_inv (es_db s) \<longrightarrow> store_inv (es_db s')
        \<and> (\<forall>v q. (v, q) \<notin> K \<longrightarrow> open_alerts (es_db s') v q = open_alerts (es_db s) v q))"

lemma touches_refl [simp, intro]: "touches K s s"
  by (simp add: touches_def)

lemma alerts_update_trans:
  "d1 = d0\<lparr>sd_alerts := A\<rparr> \<Longrightarrow> d2 = d1\<lparr>sd_alerts := B\<rparr> \<Longrightarrow> d2 = d0\<lparr>sd_alerts := B\<rparr>"
  by simp

lemma touches_trans [trans]: "touches K s t \<Longrightarrow> touches L t u \<Longrightarrow> touches (K \<union> L) s u"
  unfolding touches_def by (intro conjI; (rule alerts_update_trans; blast)?) (metis UnI1 UnI2)

lemma touches_mono: "touches K s t \<Longrightarrow> K \<subseteq> L \<Longrightarrow> touches L s t"
  by (auto simp: touches_def)

lemma fire_touches: "touches {(al_WorkloadID a, al_Rule a)} s (fire env e a s)"
proof (cases rule: exec_call_cases [of "av_fate env (CallCreate (al_WorkloadID a) (al_Rule a))" "CreateAlert a" "es_db s"])
  case (2 d')
  then show ?thesis
    using CreateAlert_inv [of "es_db s" a d']
    by (auto simp: fire_def touches_def open_alerts_Create CreateAlert_def split: bool.splits if_splits)
qed (simp add: fire_def touches_def)

lemma resolve_touches:
  assumes "GetUnresolvedAlertByWorkloadAndRule (es_db s) w r = Some a"
  shows "touches {(w, r)} s (resolve env a s)"
proof (cases rule: exec_call_cases [of "av_fate env (CallResolve (al_WorkloadID a) (al_Rule a))"
      "ResolveAlert (av_clock env (CallResolve (al_WorkloadID a) (al_Rule a))) (al_ID a)" "es_db s"])
  case (2 d')
  then show ?thesis
    using ResolveAlert_inv [of "es_db s" _ "al_ID a" d'] lookup_Some [OF assms] open_alerts_other [of "es_db s" a w r]
    by (auto simp: resolve_def touches_def Let_def open_alerts_Resolve) (auto simp: ResolveAlert_def split: if_splits)
qed (simp add: resolve_def touches_def Let_def)

lemma settle_rule_touches:
  assumes "existing = None \<or> existing = GetUnresolvedAlertByWorkloadAndRule (es_db s) w r"
    and "al_WorkloadID a = w" and "al_Rule a = r"
  shows "touches {(w, r)} s (settle_rule env e holds existing a s)"
  using assms fire_touches [of a s env e] resolve_touches [of s w r]
  by (auto simp: settle_rule_def split: option.splits)

lemma lookup_open_cases:
  "lookup_open env w r d = None \<or> lookup_open env w r d = GetUnresolvedAlertByWorkloadAndRule d w r"
  by (simp add: lookup_open_def read_call_def)

lemma evaluateWorkloadDown_touches: "touches {(wl_ID w, ''workload_down'')} s (evaluateWorkloadDown env e w now s)"
  by (auto simp: evaluateWorkloadDown_def Let_def read_call_Some split: option.split intro!: settle_rule_touches)

lemma evaluateVersionOutdated_touches:
  "touches {(wl_ID w, ''version_outdated'')} s (evaluateVersionOutdated env e w now s)"
  by (auto simp: evaluateVersionOutdated_def split: prod.split intro!: settle_rule_touches lookup_open_cases)

lemma evaluateConfigDrift_touches:
  "touches {(wl_ID w, ''config_drift'')} s (final_state (evaluateConfigDrift env e w now s))"
proof -
  define ex where "ex = lookup_open env (wl_ID w) ''config_drift'' (es_db s)"
  have ex: "ex = None \<or> ex = GetUnresolvedAlertByWorkloadAndRule (es_db s) (wl_ID w) ''config_drift''"
    unfolding ex_def by (rule lookup_open_cases)
  have *: "touches {(wl_ID w, ''config_drift'')} s (case ex of None \<Rightarrow> s | Some a \<Rightarrow> resolve env a s)"
  proof (cases ex)
    case (Some a)
    with ex have "GetUnresolvedAlertByWorkloadAndRule (es_db s) (wl_ID w) ''config_drift'' = Some a"
      by simp
    with Some show ?thesis
      by (simp add: resolve_touches)
  qed simp
  have **: "touches {(wl_ID w, ''config_drift'')} s (settle_rule env e holds ex a s)"
    if "al_WorkloadID a = wl_ID w" "al_Rule a = ''config_drift''" for holds a
    using that by (intro settle_rule_touches ex) auto
  define rc where "rc = read_call (av_fate env (CallPending (wl_ID w)))
    (GetLatestPendingWorkloadConfig (av_clock env (CallPending (wl_ID w))) (es_db s) (wl_ID w))"
  show ?thesis
  proof (cases rc)
    case (Some pending)
    then show ?thesis
      unfolding evaluateConfigDrift_def Let_def ex_def [symmetric] rc_def [symmetric] by (cases pending) (simp_all add: * **)
  qed (simp add: evaluateConfigDrift_def rc_def [symmetric])
qed

definition rules :: "string set" where
  "rules = {''workload_down'', ''config_drift'', ''version_outdated''}"

lemma evaluate_workload_touches: "touches ({wl_ID w} \<times> rules) s (final_state (evaluate_workload env e now w s))"
proof -
  define t where "t = evaluateWorkloadDown env e w now s"
  define u where "u = final_state (evaluateConfigDrift env e w now t)"
  have *: "touches ({(wl_ID w, ''workload_down'')} \<union> {(wl_ID w, ''config_drift'')}) s u"
    unfolding u_def by (rule touches_trans [OF _ evaluateConfigDrift_touches]) (simp add: t_def evaluateWorkloadDown_touches)
  moreover have "touches ({(wl_ID w, ''workload_down'')} \<union> {(wl_ID w, ''config_drift'')} \<union> {(wl_ID w, ''version_outdated'')}) s
      (evaluateVersionOutdated env e w now u)"
    by (rule touches_trans [OF * evaluateVersionOutdated_touches])
  ultimately show ?thesis
    by (auto simp: evaluate_workload_def t_def u_def rules_def split: outcome.split elim: touches_mono)
qed

lemma evaluate_list_touches: "touches (wl_ID ` set ws \<times> rules) s (final_state (evaluate_list env e now ws s))"
proof (induction ws arbitrary: s)
  case (Cons w ws)
  show ?case
  proof (cases "evaluate_workload env e now w s")
    case (Finished t)
    then have "touches ({wl_ID w} \<times> rules) s t"
      using evaluate_workload_touches [of w s env e now] by simp
    then have "touches ({wl_ID w} \<times> rules \<union> wl_ID ` set ws \<times> rules) s (final_state (evaluate_list env e now ws t))"
      using Cons.IH by (rule touches_trans)
    moreover have "{wl_ID w} \<times> rules \<union> wl_ID ` set ws \<times> rules = wl_ID ` set (w # ws) \<times> rules"
      by auto
    ultimately show ?thesis
      using Finished by simp
  next
    case (Panicked t)
    then show ?thesis
      using evaluate_workload_touches [of w s env e now] by (auto elim: touches_mono)
  qed
qed simp

section \<open>The pages end\<close>

text \<open>The workloads of a pass, in the order of the pages.\<close>

definition live_workloads :: "(string \<Rightarrow> 'o :: linorder) \<Rightarrow> store_db \<Rightarrow> Workload list" where
  "live_workloads coll d =
    map scan_workload (sort_key (\<lambda>w. coll (wl_ID w)) (filter (\<lambda>w. wl_ArchivedAt w = None) (sd_workloads d)))"

lemma live_workloads_sorted:
  assumes "inj coll" and "keyed wl_ID (sd_workloads d)"
  shows "sorted_wrt (\<lambda>v w. coll (wl_ID v) < coll (wl_ID w)) (live_workloads coll d)"
proof -
  let ?L = "sort_key (\<lambda>w. coll (wl_ID w)) (filter (\<lambda>w. wl_ArchivedAt w = None) (sd_workloads d))"
  have "distinct (map (\<lambda>w. coll (wl_ID w)) ?L)"
    using assms by (simp add: keyed_def distinct_map inj_on_def)
  then have "sorted_wrt (<) (map (\<lambda>w. coll (wl_ID w)) ?L)"
    by (simp add: strict_sorted_iff)
  then show ?thesis
    by (simp add: live_workloads_def sorted_wrt_map)
qed

lemma page_of_live:
  assumes "0 < n"
  shows "ListWorkloadsPage coll False after n d =
    take (nat n) (filter (\<lambda>w. after = [] \<or> coll after < coll (wl_ID w)) (live_workloads coll d))"
proof -
  have "filter (\<lambda>w. after = [] \<or> coll after < coll (wl_ID w)) (live_workloads coll d) =
      map scan_workload (filter (\<lambda>w. after = [] \<or> coll after < coll (wl_ID w))
        (sort_key (\<lambda>w. coll (wl_ID w)) (filter (\<lambda>w. wl_ArchivedAt w = None) (sd_workloads d))))"
    by (simp add: live_workloads_def filter_map o_def)
  also have "\<dots> = map scan_workload (sort_key (\<lambda>w. coll (wl_ID w))
      (filter (\<lambda>w. wl_ArchivedAt w = None \<and> (after = [] \<or> coll after < coll (wl_ID w))) (sd_workloads d)))"
    by (simp add: filter_sort conj_commute)
  finally show ?thesis
    using assms by (simp add: ListWorkloadsPage_def take_map)
qed

lemma next_page:
  assumes "sorted_wrt (\<lambda>v w. coll (wl_ID v) < coll (wl_ID w)) (A @ B)" and "live_workloads coll d = A @ B"
    and "\<forall>w \<in> set (A @ B). wl_ID w \<noteq> []" and "0 < n"
  shows "ListWorkloadsPage coll False (if A = [] then [] else wl_ID (last A)) n d = take (nat n) B"
proof (cases A rule: rev_cases)
  case (snoc A' a)
  have "filter (\<lambda>w. coll (wl_ID a) < coll (wl_ID w)) A = []"
    using assms(1) snoc by (auto simp: sorted_wrt_append filter_empty_conv)
  moreover have "filter (\<lambda>w. coll (wl_ID a) < coll (wl_ID w)) B = B"
    using assms(1) snoc by (auto simp: sorted_wrt_append filter_id_conv)
  ultimately show ?thesis
    using assms(2-4) snoc by (simp add: page_of_live del: filter_append) (simp add: snoc)
qed (use assms in \<open>simp add: page_of_live\<close>)

lemma evaluate_list_append:
  "evaluate_list env e now (xs @ ys) s =
    (case evaluate_list env e now xs s of Panicked t \<Rightarrow> Panicked t | Finished t \<Rightarrow> evaluate_list env e now ys t)"
  by (induction xs arbitrary: s) (auto split: outcome.split)

lemma live_workloads_touches: "touches K s t \<Longrightarrow> live_workloads coll (es_db t) = live_workloads coll (es_db s)"
  unfolding touches_def live_workloads_def by (metis store_db.select_convs(2) store_db.surjective store_db.update_convs(10))

lemma evaluate_from_ends:
  assumes "live_workloads coll (es_db s) = A @ B" and "0 < n"
    and "sorted_wrt (\<lambda>v w. coll (wl_ID v) < coll (wl_ID w)) (A @ B)" and "\<forall>w \<in> set (A @ B). wl_ID w \<noteq> []"
  shows "\<exists>ws rest. B = ws @ rest \<and> ((\<forall>a. av_fate env (CallPage a) = Works) \<longrightarrow> rest = [])
    \<and> evaluate_from coll env e now n (if A = [] then [] else wl_ID (last A)) s = Some (evaluate_list env e now ws s)"
  using assms
proof (induction "length B" arbitrary: A B s rule: less_induct)
  case less
  let ?after = "if A = [] then [] else wl_ID (last A)"
  note page = next_page [OF less.prems(3) less.prems(1) less.prems(4) less.prems(2)]
  show ?case
  proof (cases "av_fate env (CallPage ?after) = Works \<and> B \<noteq> []")
    case False
    then have "evaluate_from coll env e now n ?after s = Some (Finished s)"
      by (subst evaluate_from.simps) (auto simp: page read_call_def)
    with False show ?thesis
      by (intro exI [of _ "[]"] exI [of _ B]) auto
  next
    case True
    let ?P = "take (nat n) B" and ?R = "drop (nat n) B"
    have ne: "?P \<noteq> []"
      using True less.prems(2) by simp
    have unfold: "evaluate_from coll env e now n ?after s =
        (case evaluate_list env e now ?P s of Panicked t \<Rightarrow> Some (Panicked t)
         | Finished t \<Rightarrow> if int (length ?P) < n then Some (Finished t)
             else evaluate_from coll env e now n (wl_ID (last ?P)) t)"
      using True ne by (subst evaluate_from.simps) (simp only: page read_call_Works option.case if_False)
    show ?thesis
    proof (cases "evaluate_list env e now ?P s")
      case (Panicked t)
      then have "evaluate_list env e now B s = Panicked t"
        using evaluate_list_append [of env e now ?P ?R s] by simp
      with Panicked unfold show ?thesis
        by (intro exI [of _ B] exI [of _ "[]"]) simp
    next
      case fin: (Finished t)
      have live: "live_workloads coll (es_db t) = (A @ ?P) @ ?R"
        using live_workloads_touches [OF evaluate_list_touches, of coll env e now ?P s] fin less.prems(1) by simp
      show ?thesis
      proof (cases "int (length ?P) < n")
        case True
        then have "?P = B"
          using less.prems(2) by simp
        with True fin unfold show ?thesis
          by (intro exI [of _ B] exI [of _ "[]"]) simp
      next
        case False
        have "length ?R < length B"
          using True less.prems(2) by simp
        from less.hyps [OF this live less.prems(2)] less.prems(3,4)
        obtain ws rest where ws: "?R = ws @ rest" "(\<forall>a. av_fate env (CallPage a) = Works) \<longrightarrow> rest = []"
          "evaluate_from coll env e now n (if A @ ?P = [] then [] else wl_ID (last (A @ ?P))) t = Some (evaluate_list env e now ws t)"
          by (metis append.assoc append_take_drop_id)
        have "evaluate_from coll env e now n ?after s = Some (evaluate_list env e now (?P @ ws) s)"
          using unfold fin False ws(3) ne by (simp only: evaluate_list_append outcome.case if_False append_is_Nil_conv last_append) simp
        with ws(1,2) show ?thesis
          by (metis append.assoc append_take_drop_id)
      qed
    qed
  qed
qed

section \<open>A pass without faults\<close>



text \<open>What each rule decides about a workload; \<open>None\<close> when it decides nothing.\<close>

definition verdict :: "alert_env \<Rightarrow> Engine \<Rightarrow> gotime \<Rightarrow> store_db \<Rightarrow> Workload \<Rightarrow> string \<Rightarrow> bool option" where
  "verdict env e now d w r =
    (if r = ''workload_down'' then Some (timeSub now (wl_LastSeenAt w) > en_downTimeout e)
     else if r = ''config_drift'' then
       Some (case GetLatestPendingWorkloadConfig (av_clock env (CallPending (wl_ID w))) d (wl_ID w) of
               None \<Rightarrow> False | Some p \<Rightarrow> timeSub now (wc_AppliedAt p) > en_downTimeout e)
     else if r = ''version_outdated'' \<and> en_minVersion e \<noteq> [] \<and> wl_Version w \<noteq> []
         \<and> snd (Compare (wl_Version w) (en_minVersion e)) then
       Some (fst (Compare (wl_Version w) (en_minVersion e)) < 0)
     else None)"








text \<open>What the rules read of the database does not change in a pass.\<close>

lemma touches_frame:
  assumes "touches K s t"
  shows "verdict env e now (es_db t) w r = verdict env e now (es_db s) w r"
    and "GetLatestPendingWorkloadConfig c (es_db t) i = GetLatestPendingWorkloadConfig c (es_db s) i"
    and "has_workload (es_db t) i \<longleftrightarrow> has_workload (es_db s) i"
    and "store_inv (es_db s) \<Longrightarrow> store_inv (es_db t)"
    and "store_inv (es_db s) \<Longrightarrow> (v, q) \<notin> K \<Longrightarrow> open_alerts (es_db t) v q = open_alerts (es_db s) v q"
proof -
  obtain A where t: "es_db t = (es_db s)\<lparr>sd_alerts := A\<rparr>"
    using assms unfolding touches_def by blast
  show pending: "GetLatestPendingWorkloadConfig c (es_db t) i = GetLatestPendingWorkloadConfig c (es_db s) i" for c i
    by (simp add: t GetLatestPendingWorkloadConfig_def getOneWorkloadConfig_def scanWorkloadConfig_def scan_columns_def
        config_content_def cong: option.map_cong)
  show "verdict env e now (es_db t) w r = verdict env e now (es_db s) w r"
    by (simp add: verdict_def pending)
  show "has_workload (es_db t) i \<longleftrightarrow> has_workload (es_db s) i"
    by (simp add: t)
  show "store_inv (es_db s) \<Longrightarrow> store_inv (es_db t)"
    and "store_inv (es_db s) \<Longrightarrow> (v, q) \<notin> K \<Longrightarrow> open_alerts (es_db t) v q = open_alerts (es_db s) v q"
    using assms unfolding touches_def by blast+
qed











section \<open>A pass with faults\<close>

lemma settle_rule_one:
  assumes "existing = GetUnresolvedAlertByWorkloadAndRule (es_db s) w r" and "al_WorkloadID a = w" and "al_Rule a = r"
    and "length (open_alerts (es_db s) w r) \<le> 1"
  shows "length (open_alerts (es_db (settle_rule env e holds existing a s)) w r) \<le> 1"
proof (cases existing)
  case None
  then have "open_alerts (es_db s) w r = []"
    using assms(1) by (simp add: lookup_None [symmetric])
  then show ?thesis
    using None assms(2,3)
    by (cases rule: exec_call_cases [of "av_fate env (CallCreate w r)" "CreateAlert a" "es_db s"])
      (auto simp: settle_rule_def fire_def open_alerts_Create split: bool.splits)
next
  case (Some x)
  then show ?thesis
    using assms(4)
    by (cases rule: exec_call_cases [of "av_fate env (CallResolve (al_WorkloadID x) (al_Rule x))"
          "ResolveAlert (av_clock env (CallResolve (al_WorkloadID x) (al_Rule x))) (al_ID x)" "es_db s"])
      (auto simp: settle_rule_def resolve_def Let_def open_alerts_Resolve intro: order_trans [OF length_filter_le])
qed

lemma down_one:
  "length (open_alerts (es_db s) (wl_ID w) ''workload_down'') \<le> 1 \<Longrightarrow>
    length (open_alerts (es_db (evaluateWorkloadDown env e w now s)) (wl_ID w) ''workload_down'') \<le> 1"
  unfolding evaluateWorkloadDown_def Let_def by (simp add: settle_rule_one read_call_def del: One_nat_def)

lemma version_one:
  assumes "av_fate env (CallLookup (wl_ID w) ''version_outdated'') = Works"
    and "length (open_alerts (es_db s) (wl_ID w) ''version_outdated'') \<le> 1"
  shows "length (open_alerts (es_db (evaluateVersionOutdated env e w now s)) (wl_ID w) ''version_outdated'') \<le> 1"
  unfolding evaluateVersionOutdated_def using assms by (simp add: settle_rule_one lookup_open_def split: prod.split del: One_nat_def)

lemma drift_one:
  assumes "av_fate env (CallLookup (wl_ID w) ''config_drift'') = Works"
    and "length (open_alerts (es_db s) (wl_ID w) ''config_drift'') \<le> 1"
  shows "length (open_alerts (es_db (final_state (evaluateConfigDrift env e w now s))) (wl_ID w) ''config_drift'') \<le> 1"
proof -
  define ex where "ex = lookup_open env (wl_ID w) ''config_drift'' (es_db s)"
  have ex: "ex = GetUnresolvedAlertByWorkloadAndRule (es_db s) (wl_ID w) ''config_drift''"
    using assms(1) by (simp add: ex_def lookup_open_def)
  define a where "a = \<lparr>al_ID = [], al_WorkloadID = wl_ID w, al_Rule = ''config_drift'',
    al_Severity = [], al_Message = [], al_FiredAt = now, al_ResolvedAt = None\<rparr>"
  have "(case ex of None \<Rightarrow> s | Some a \<Rightarrow> resolve env a s) = settle_rule env e False ex a s"
    by (simp add: settle_rule_def split: option.split)
  then have none: "length (open_alerts (es_db (case ex of None \<Rightarrow> s | Some a \<Rightarrow> resolve env a s)) (wl_ID w) ''config_drift'') \<le> 1"
    using settle_rule_one [OF ex, of a env e False] assms(2) by (simp add: a_def)
  define rc where "rc = read_call (av_fate env (CallPending (wl_ID w)))
    (GetLatestPendingWorkloadConfig (av_clock env (CallPending (wl_ID w))) (es_db s) (wl_ID w))"
  show ?thesis
  proof (cases rc)
    case (Some pending)
    then show ?thesis
      unfolding evaluateConfigDrift_def Let_def ex_def [symmetric] rc_def [symmetric]
      using none assms(2) by (cases pending) (simp_all add: settle_rule_one [OF ex] del: One_nat_def)
  qed (use assms(2) in \<open>simp add: evaluateConfigDrift_def rc_def [symmetric]\<close>)
qed

lemma evaluate_workload_one:
  assumes inv: "store_inv (es_db s)" and one: "\<forall>v. length (open_alerts (es_db s) v r) \<le> 1"
    and answered: "r = ''workload_down'' \<or> (\<forall>i. av_fate env (CallLookup i r) = Works)"
  shows "length (open_alerts (es_db (final_state (evaluate_workload env e now w s))) v r) \<le> 1"
proof -
  let ?i = "wl_ID w"
  define t where "t = evaluateWorkloadDown env e w now s"
  define u where "u = final_state (evaluateConfigDrift env e w now t)"
  note tt = touches_frame [OF evaluateWorkloadDown_touches [of w s env e now, folded t_def]]
  note tu = touches_frame [OF evaluateConfigDrift_touches [of w t env e now, folded u_def]]
  have t1: "length (open_alerts (es_db t) v r) \<le> 1" for v
    using one down_one [of s w env e now] tt(5) [OF inv, of v r] unfolding t_def
    by (cases "(v, r) = (?i, ''workload_down'')") (simp_all del: One_nat_def)
  have u1: "length (open_alerts (es_db u) v r) \<le> 1" for v
    using t1 [of v] drift_one [of env w t e now] tu(5) [OF tt(4) [OF inv], of v r] answered unfolding u_def
    by (cases "(v, r) = (?i, ''config_drift'')") (simp_all del: One_nat_def)
  have "length (open_alerts (es_db (evaluateVersionOutdated env e w now u)) v r) \<le> 1" for v
    using u1 [of v] version_one [of env w u e now] touches_frame(5) [OF evaluateVersionOutdated_touches tu(4) [OF tt(4) [OF inv]], of v r w env e now] answered
    by (cases "(v, r) = (?i, ''version_outdated'')") (simp_all del: One_nat_def)
  then show ?thesis
    using u1 by (cases "evaluateConfigDrift env e w now t") (simp_all add: evaluate_workload_def t_def [symmetric] u_def)
qed

lemma evaluate_list_one:
  assumes "store_inv (es_db s)" and "\<forall>v. length (open_alerts (es_db s) v r) \<le> 1"
    and "r = ''workload_down'' \<or> (\<forall>i. av_fate env (CallLookup i r) = Works)"
  shows "store_inv (es_db (final_state (evaluate_list env e now ws s)))
    \<and> (\<forall>v. length (open_alerts (es_db (final_state (evaluate_list env e now ws s))) v r) \<le> 1)"
  using assms(1,2)
proof (induction ws arbitrary: s)
  case (Cons w ws)
  have "store_inv (es_db (final_state (evaluate_workload env e now w s)))"
    by (rule touches_frame(4) [OF evaluate_workload_touches Cons.prems(1)])
  then show ?case
    using Cons evaluate_workload_one [OF Cons.prems assms(3), of e now w]
    by (cases "evaluate_workload env e now w s") simp_all
qed simp

section \<open>A small pass\<close>

definition demo_env :: "call_fate \<Rightarrow> alert_env" where
  "demo_env f = \<lparr>av_fate = \<lambda>c. f, av_clock = \<lambda>c. 0,
     av_random = \<lambda>w r. if r = ''workload_down'' then [1] else if r = ''config_drift'' then [2] else [3]\<rparr>"

definition demo_engine :: Engine where
  "demo_engine = New_Engine True (5 * minute) ''0.100.0'' 1"

definition demo_state :: engine_state where
  "demo_state = \<lparr>es_db = demo_history, es_broadcast = [], es_notified = []\<rparr>"

lemma demo_state_simps:
  "es_db demo_state = demo_history" "sd_workloads demo_history = [demo_workload ''w1'']" "sd_alerts demo_history = []"
  "open_alerts demo_history v r = []" "wl_ID (demo_workload i) = i" "wl_ArchivedAt (demo_workload i) = None"
  "av_fate (demo_env f) c = f"
  by (simp_all add: demo_env_def demo_state_def demo_history_def demo_store_def empty_store_def open_alerts_def demo_workload_def)



section \<open>Properties of a pass\<close>

lemma evaluation_ends:
  assumes inv: "store_inv (es_db s)" and "inj coll" and ids: "\<forall>w \<in> set (sd_workloads (es_db s)). wl_ID w \<noteq> []"
  shows "\<exists>ws rest. live_workloads coll (es_db s) = ws @ rest \<and> ((\<forall>a. av_fate env (CallPage a) = Works) \<longrightarrow> rest = [])
    \<and> Evaluate True coll env e now s = Some (evaluate_list env e now ws s)"
proof -
  have "keyed wl_ID (sd_workloads (es_db s))"
    using inv by (simp add: store_inv_def keys_ok_def)
  then have "sorted_wrt (\<lambda>v w. coll (wl_ID v) < coll (wl_ID w)) (live_workloads coll (es_db s))"
    by (rule live_workloads_sorted [OF \<open>inj coll\<close>])
  moreover have "\<forall>w \<in> set (live_workloads coll (es_db s)). wl_ID w \<noteq> []"
    using ids by (auto simp: live_workloads_def)
  ultimately show ?thesis
    using evaluate_from_ends [of coll s "[]" "live_workloads coll (es_db s)"
        "if en_pageSize e \<le> 0 then defaultWorkloadPageSize else en_pageSize e" env e now]
    by (simp add: Evaluate_def evaluatePages_def defaultWorkloadPageSize_def)
qed

lemma live_workloads_ids:
  assumes "store_inv d"
  shows "distinct (map wl_ID (live_workloads coll d))"
    and "set (live_workloads coll d) = scan_workload ` {w \<in> set (sd_workloads d). wl_ArchivedAt w = None}"
proof -
  have "distinct (map wl_ID (filter (\<lambda>w. wl_ArchivedAt w = None) (sd_workloads d)))"
    using assms by (simp add: store_inv_def keys_ok_def keyed_def distinct_map_filter)
  then show "distinct (map wl_ID (live_workloads coll d))"
    by (simp add: live_workloads_def o_def distinct_map)
qed (simp add: live_workloads_def)

text \<open>
  C33: A pass of the alert engine over the pages of the workload table ends, whatever calls of the database
  fail, provided the collation tells the identifiers apart and no identifier is empty. It evaluates the
  workloads that are not archived in the order of the collation, each of them once, up to the first page that could not be
  read; when every page is read it leaves none out. So the pages, with their keyset cursor and the short last page, are equivalent to
  one list of the workloads.
\<close>

theorem evaluation_visits_every_workload:
  assumes "store_inv (es_db s)" and "inj coll" and "\<forall>w \<in> set (sd_workloads (es_db s)). wl_ID w \<noteq> []"
  shows "\<exists>ws rest.
    set (ws @ rest) = scan_workload ` {w \<in> set (sd_workloads (es_db s)). wl_ArchivedAt w = None}
    \<and> distinct (map wl_ID (ws @ rest)) \<and> sorted (map (\<lambda>w. coll (wl_ID w)) (ws @ rest))
    \<and> ((\<forall>a. av_fate env (CallPage a) = Works) \<longrightarrow> rest = [])
    \<and> Evaluate True coll env e now s = Some (evaluate_list env e now ws s)"
proof -
  have "sorted (map (\<lambda>w. coll (wl_ID w)) (live_workloads coll (es_db s)))"
    by (simp add: live_workloads_def o_def)
  with evaluation_ends [OF assms, of env e now] live_workloads_ids [OF assms(1), of coll] show ?thesis
    by metis
qed

lemma evaluation_visits_every_workload_witness:
  "Evaluate True (\<lambda>i. i) (demo_env Works) demo_engine 0 demo_state =
    Some (evaluate_list (demo_env Works) demo_engine 0 [scan_workload (demo_workload ''w1'')] demo_state)"
proof -
  obtain ws rest where ws: "set (ws @ rest) = {scan_workload (demo_workload ''w1'')}" "distinct (map wl_ID (ws @ rest))" "rest = []"
    "Evaluate True (\<lambda>i. i) (demo_env Works) demo_engine 0 demo_state = Some (evaluate_list (demo_env Works) demo_engine 0 ws demo_state)"
    using evaluation_visits_every_workload [of demo_state "\<lambda>i. i" "demo_env Works" demo_engine 0] demo_history_inv
    by (auto simp: demo_state_simps Collect_conv_if)
  moreover from ws have "ws = [scan_workload (demo_workload ''w1'')]"
    by (intro distinct_singleton) (auto simp: distinct_map)
  ultimately show ?thesis
    by simp
qed



text \<open>
  C35: Whatever calls fail, a pass keeps the tables consistent and never leaves a workload with two open
  \<open>workload_down\<close> alerts. The same holds for the other two rules when their lookups are answered, whose errors
  the engine ignores; creating an alert and losing the answer is harmless in each case.
\<close>

theorem one_open_alert:
  assumes "store_inv (es_db s)" and "inj coll" and "\<forall>w \<in> set (sd_workloads (es_db s)). wl_ID w \<noteq> []"
    and "r = ''workload_down'' \<or> (\<forall>i. av_fate env (CallLookup i r) = Works)"
    and "\<forall>v. length (open_alerts (es_db s) v r) \<le> 1"
  shows "\<exists>out. Evaluate paged coll env e now s = Some out \<and> store_inv (es_db (final_state out))
    \<and> (\<forall>v. length (open_alerts (es_db (final_state out)) v r) \<le> 1)"
proof (cases paged)
  case True
  then show ?thesis
    using evaluation_ends [OF assms(1-3), of env e now] evaluate_list_one [OF assms(1,5,4)] by metis
next
  case False
  then show ?thesis
    using evaluate_list_one [OF assms(1,5,4), of e now "ListWorkloads coll False (es_db s)"] assms(1,5)
    by (auto simp: Evaluate_def read_call_def simp del: One_nat_def)
qed

lemma one_open_alert_witness:
  "\<exists>out. Evaluate True (\<lambda>i. i) (demo_env Unacked) demo_engine (1000 * minute) demo_state = Some out
    \<and> store_inv (es_db (final_state out))"
  using one_open_alert [of demo_state "\<lambda>i. i" "''workload_down''" "demo_env Unacked" True demo_engine "1000 * minute"] demo_history_inv
  by (auto simp: demo_state_simps)

end
