(* ===== verification/Store_Writes.thy ===== *)
theory Store_Writes
  imports Alert_Engine
begin

text \<open>
  The statements with which the REST handlers, the janitor and the alert engine change the tables. Each is one
  transaction, so that a run of the whole program interleaves them with those of the OpAMP server. All of
  them keep the tables consistent.
\<close>

inductive store_write :: "store_db \<Rightarrow> store_db \<Rightarrow> bool" where
  create_config: "CreateConfig c d = Inr d' \<Longrightarrow> store_write d d'"
| archive_workload: "ArchiveWorkload i t d = Inr d' \<Longrightarrow> store_write d d'"
| delete_workload: "store_write d (DeleteWorkload i d)"
| janitor: "store_write d (RunOnce archiveOK purgeOK opts now d)"
| record_push: "RecordWorkloadConfig clock wc d = Inr d' \<Longrightarrow> store_write d d'"
| mark_sent: "store_write d (MarkWorkloadConfigSent w c t d)"
| set_status: "UpdateWorkloadConfigStatus w c st msg d = Inr d' \<Longrightarrow> store_write d d'"
| set_instance_status: "UpdateWorkloadConfigInstanceStatus clock w c uid st msg at d = Inr d' \<Longrightarrow> store_write d d'"
| set_label: "SetWorkloadConfigLabel w c l d = Inr d' \<Longrightarrow> store_write d d'"
| set_known_good: "SetWorkloadKnownGoodWithPrecondition clock w c m rr ifc force d0 d = (res, d') \<Longrightarrow> store_write d d'"
| clear_known_good: "store_write d (snd (ClearWorkloadKnownGood w d))"
| create_canary: "CreateCanaryStatus clock cs d = Inr d' \<Longrightarrow> store_write d d'"
| update_canary: "store_write d (updateCanaryStatus clock cs d)"
| create_alert: "CreateAlert a d = Inr d' \<Longrightarrow> store_write d d'"
| resolve_alert: "ResolveAlert clock i d = Inr d' \<Longrightarrow> store_write d d'"

inductive_cases store_writeE: "store_write d d'"

lemma store_write_inv: "store_write d d' \<Longrightarrow> store_inv d \<Longrightarrow> store_inv d'"
  by (induction rule: store_write.induct) (auto intro: inv_intros CreateAlert_inv ResolveAlert_inv)

end
