(* ===== verification/Opamp_Sessions.thy ===== *)
theory Opamp_Sessions
  imports Server_Effects Session_Drain Store_Writes
begin

text \<open>
  The life of a connection, \<open>internal/opamp/server.go\<close>: the request is authenticated, the connection
  is tracked, its messages claim an instance and are handled, and it is closed. This theory composes the
  authentication (\<open>Opamp_Tokens\<close>), the token connections (\<open>Token_Sessions\<close>, \<open>Session_Drain\<close>), the message
  handler (\<open>Opamp_Server\<close>) and the registry of live instances (\<open>Instance_Registry\<close>). Every critical
  section is one step; a run is an interleaving of the steps of all connections, of the goroutines of the token
  connections, of administrators and of the grace timers. The handler of an admitted message is one step.
\<close>

section \<open>Messages in flight\<close>

text \<open>
  Where a call of \<open>onSessionMessage\<close> is once it holds its lease: waiting for the message gate, inside
  it, owner of the instance while the use of the token is recorded, about to be admitted, about to be
  handled, or answering after it left the gate.
\<close>

datatype message_phase = Arrived | Entered | Claimed | Used | Cleared | Answering ServerToAgent

record inflight =
  if_session :: nat
  if_conn :: nat
  if_msg :: "AgentToServer option"
  if_lease :: nat
  if_phase :: message_phase

record session_system =
  sy_server :: Server
  sy_tokens :: token_db
  sy_inflight :: "inflight list"

definition holds_gate :: "nat \<Rightarrow> inflight \<Rightarrow> bool" where
  "holds_gate k i \<longleftrightarrow> if_session i = k \<and> (case if_phase i of Arrived \<Rightarrow> False | Answering _ \<Rightarrow> False | _ \<Rightarrow> True)"

abbreviation sfields :: "Server \<Rightarrow> nat \<Rightarrow> session_fields" where
  "sfields s k \<equiv> sv_fields s ! k"

section \<open>Connecting\<close>

definition new_fields :: session_fields where
  "new_fields = \<lparr>sf_uid = [], sf_admitted = False, sf_terminal = False, sf_released = False\<rparr>"

text \<open>The session that an accepted request allocates.\<close>

definition new_session :: "OpAMPTokenPrincipal \<Rightarrow> Server \<Rightarrow> Server" where
  "new_session p s =
    s\<lparr>sv_tokens := (sv_tokens s)\<lparr>tc_heap := tc_heap (sv_tokens s) @
         [\<lparr>ts_ID = pr_ID p, ts_ExpiresAt = pr_ExpiresAt p, ts_conn = None, ts_readers = 0\<rparr>]\<rparr>,
       sv_fields := sv_fields s @ [new_fields]\<rparr>"

definition onConnecting :: "uuid_parser \<Rightarrow> bool \<Rightarrow> gotime \<Rightarrow> string list \<Rightarrow> session_system \<Rightarrow> connection_response \<times> session_system" where
  "onConnecting parseId queryOK now authorization sy =
    (case authenticateRequest parseId queryOK now (sy_tokens sy) (sv_stopping (sy_server sy)) authorization of
       Accepted p \<Rightarrow> (Accepted p, sy\<lparr>sy_server := new_session p (sy_server sy)\<rparr>)
     | r \<Rightarrow> (r, sy))"

text \<open>The connected callback; a connection that is not tracked is disconnected.\<close>

definition onConnected :: "nat \<Rightarrow> nat \<Rightarrow> gotime \<Rightarrow> session_system \<Rightarrow> bool \<times> session_system" where
  "onConnected session conn now sy =
    (case Track session (Some conn) now (sv_tokens (sy_server sy)) of
       (ok, m) \<Rightarrow> (ok, sy\<lparr>sy_server := (sy_server sy)\<lparr>sv_tokens := m\<rparr>\<rparr>))"

section \<open>A message\<close>

definition onSessionMessage :: "nat \<Rightarrow> nat \<Rightarrow> AgentToServer option \<Rightarrow> gotime \<Rightarrow> session_system \<Rightarrow> session_system" where
  "onSessionMessage session conn msg now sy =
    (case Acquire session now (sv_tokens (sy_server sy)) of
       (None, m) \<Rightarrow> sy\<lparr>sy_server := (sy_server sy)\<lparr>sv_tokens := m\<rparr>\<rparr>
     | (Some lease, m) \<Rightarrow>
         sy\<lparr>sy_server := (sy_server sy)\<lparr>sv_tokens := m\<rparr>,
            sy_inflight := sy_inflight sy @ [\<lparr>if_session = session, if_conn = conn, if_msg = msg, if_lease = lease, if_phase = Arrived\<rparr>]\<rparr>)"

definition advance :: "nat \<Rightarrow> message_phase \<Rightarrow> session_system \<Rightarrow> session_system" where
  "advance n p sy = sy\<lparr>sy_inflight := (sy_inflight sy)[n := (sy_inflight sy ! n)\<lparr>if_phase := p\<rparr>]\<rparr>"

text \<open>The call returns and gives its lease back.\<close>

definition leave :: "nat \<Rightarrow> session_system \<Rightarrow> session_system" where
  "leave n sy =
    sy\<lparr>sy_server := (sy_server sy)\<lparr>sv_tokens := Release (if_lease (sy_inflight sy ! n)) (sv_tokens (sy_server sy))\<rparr>,
       sy_inflight := take n (sy_inflight sy) @ drop (Suc n) (sy_inflight sy)\<rparr>"

text \<open>A refused message makes the session terminal; it is then disconnected.\<close>

definition set_terminal :: "nat \<Rightarrow> Server \<Rightarrow> Server" where
  "set_terminal k s = s\<lparr>sv_fields := (sv_fields s)[k := (sfields s k)\<lparr>sf_terminal := True\<rparr>]\<rparr>"

definition refuse :: "nat \<Rightarrow> session_system \<Rightarrow> session_system" where
  "refuse n sy = leave n (sy\<lparr>sy_server := set_terminal (if_session (sy_inflight sy ! n)) (sy_server sy)\<rparr>)"

text \<open>Entering the message gate.\<close>

definition enter_gate :: "nat \<Rightarrow> session_system \<Rightarrow> session_system" where
  "enter_gate n sy =
    (if sf_terminal (sfields (sy_server sy) (if_session (sy_inflight sy ! n))) then leave n sy else advance n Entered sy)"

text \<open>The three parts of \<open>processSessionMessage\<close> before the message is handled.\<close>

definition claim_message :: "nat \<Rightarrow> session_system \<Rightarrow> session_system" where
  "claim_message n sy =
    (let i = sy_inflight sy ! n in
     case claim_instance (if_session i) (if_conn i) (if_msg i) (sy_server sy) of
       (Refused, s) \<Rightarrow> refuse n (sy\<lparr>sy_server := s\<rparr>)
     | (AlreadyAdmitted, s) \<Rightarrow> advance n Cleared (sy\<lparr>sy_server := s\<rparr>)
     | (MustAdmit, s) \<Rightarrow> advance n Claimed (sy\<lparr>sy_server := s\<rparr>))"

definition record_use :: "uuid_parser \<Rightarrow> commit \<Rightarrow> gotime \<Rightarrow> nat \<Rightarrow> session_system \<Rightarrow> session_system" where
  "record_use parseId cm now n sy =
    (let i = sy_inflight sy ! n in
     case MarkOpAMPTokenUsed parseId cm (ts_ID (sess (sv_tokens (sy_server sy)) (if_session i))) now (sy_tokens sy) of
       (None, db) \<Rightarrow> advance n Used (sy\<lparr>sy_tokens := db\<rparr>)
     | (Some _, db) \<Rightarrow> refuse n (sy\<lparr>sy_tokens := db\<rparr>))"

definition message_uid :: "inflight \<Rightarrow> string" where
  "message_uid i = (case if_msg i of None \<Rightarrow> [] | Some msg \<Rightarrow> hex_EncodeToString (as_InstanceUid msg))"

definition admit_message :: "nat \<Rightarrow> session_system \<Rightarrow> session_system" where
  "admit_message n sy =
    (let i = sy_inflight sy ! n in
     case admit_session (if_session i) (message_uid i) (sy_server sy) of
       (False, s) \<Rightarrow> refuse n (sy\<lparr>sy_server := s\<rparr>)
     | (True, s) \<Rightarrow> advance n Cleared (sy\<lparr>sy_server := s\<rparr>))"

definition handle_message :: "server_env \<Rightarrow> nat \<Rightarrow> session_system \<Rightarrow> session_system" where
  "handle_message env n sy =
    (let i = sy_inflight sy ! n in
     case if_msg i of
       None \<Rightarrow> sy
     | Some msg \<Rightarrow>
         (case handleAcceptedMessageWithLease env msg (Some (if_lease i)) (sy_server sy) of
            (reply, s) \<Rightarrow> advance n (Answering reply) (sy\<lparr>sy_server := s\<rparr>)))"

text \<open>
  The answer is sent, or fails to be; a plain HTTP answer is sent by the transport and the lease is given back
  when the connection closes.
\<close>

definition answer :: "bool \<Rightarrow> nat \<Rightarrow> session_system \<Rightarrow> session_system" where
  "answer sent n sy =
    (let i = sy_inflight sy ! n; s = sy_server sy in
     case if_phase i of
       Answering reply \<Rightarrow> leave n (if sent then sy\<lparr>sy_server := s\<lparr>sv_sent := sv_sent s @ [(if_session i, reply)]\<rparr>\<rparr> else sy)
     | _ \<Rightarrow> sy)"

section \<open>Closing\<close>

text \<open>
  The first part of \<open>onSessionConnectionClose\<close> and of \<open>disconnectSession\<close>; the goroutine then waits for the
  drain and releases the session.
\<close>

definition start_close :: "nat \<Rightarrow> Server \<Rightarrow> Server" where
  "start_close session s = s\<lparr>sv_tokens := Remove session (sv_tokens s), sv_closing := sv_closing s @ [session]\<rparr>"

text \<open>
  Who may release a session: a closing goroutine after the drain, or the callback of a disabling or a stop, to
  which the session was given.
\<close>

definition may_release :: "nat \<Rightarrow> Server \<Rightarrow> bool" where
  "may_release session s \<longleftrightarrow>
    session \<in> set (sv_closing s) \<and> removeDrained session (sv_tokens s) \<or> session \<in> set (tc_callbacks (sv_tokens s))"

definition server_beginStop :: "Server \<Rightarrow> Server" where
  "server_beginStop s =
    (if sv_stopping s then s
     else s\<lparr>sv_stopping := True, sv_grace := beginStop (sv_grace s), sv_tokens := tokens_beginStop (sv_tokens s)\<rparr>)"

section \<open>Runs\<close>

text \<open>The goroutine of an auto-push pushes and gives its lease back.\<close>

definition auto_push :: "server_env \<Rightarrow> string \<times> string \<times> string \<times> nat option \<Rightarrow> Server \<Rightarrow> Server" where
  "auto_push env p s =
    (case p of (configID, workloadID, uid, lease) \<Rightarrow>
      (let s = triggerAutoPush env configID workloadID uid s in
       case lease of None \<Rightarrow> s | Some l \<Rightarrow> s\<lparr>sv_tokens := Release l (sv_tokens s)\<rparr>))"

text \<open>
  The steps. The REST handlers, the janitor and the alert engine write to the tables (\<open>other_writes\<close>), and the handlers to the token table. A session is
  tracked by the first callback of its connection; what closes it may happen at any time after that.
\<close>

inductive session_step :: "uuid_parser \<Rightarrow> session_system \<Rightarrow> session_system \<Rightarrow> bool" for parseId where
  connecting: "session_step parseId sy (snd (onConnecting parseId queryOK now authorization sy))"
| connected: "k < length (sv_fields (sy_server sy)) \<Longrightarrow> ts_conn (sess (sv_tokens (sy_server sy)) k) = None
    \<Longrightarrow> session_step parseId sy (snd (onConnected k conn now sy))"
| message: "k < length (sv_fields (sy_server sy)) \<Longrightarrow> session_step parseId sy (onSessionMessage k conn msg now sy)"
| enter: "n < length (sy_inflight sy) \<Longrightarrow> if_phase (sy_inflight sy ! n) = Arrived
    \<Longrightarrow> \<not> list_ex (holds_gate (if_session (sy_inflight sy ! n))) (sy_inflight sy) \<Longrightarrow> session_step parseId sy (enter_gate n sy)"
| claim: "n < length (sy_inflight sy) \<Longrightarrow> if_phase (sy_inflight sy ! n) = Entered \<Longrightarrow> session_step parseId sy (claim_message n sy)"
| mark_use: "n < length (sy_inflight sy) \<Longrightarrow> if_phase (sy_inflight sy ! n) = Claimed \<Longrightarrow> session_step parseId sy (record_use parseId cm now n sy)"
| admit: "n < length (sy_inflight sy) \<Longrightarrow> if_phase (sy_inflight sy ! n) = Used \<Longrightarrow> session_step parseId sy (admit_message n sy)"
| handle: "n < length (sy_inflight sy) \<Longrightarrow> if_phase (sy_inflight sy ! n) = Cleared \<Longrightarrow> session_step parseId sy (handle_message env n sy)"
| answered: "n < length (sy_inflight sy) \<Longrightarrow> if_phase (sy_inflight sy ! n) = Answering reply \<Longrightarrow> session_step parseId sy (answer sent n sy)"
| close: "k < length (sv_fields (sy_server sy)) \<Longrightarrow> ts_conn (sess (sv_tokens (sy_server sy)) k) \<noteq> None
    \<Longrightarrow> session_step parseId sy (sy\<lparr>sy_server := start_close k (sy_server sy)\<rparr>)"
| release: "may_release k (sy_server sy) \<Longrightarrow> session_step parseId sy (sy\<lparr>sy_server := releaseSessionOnce env k (sy_server sy)\<rparr>)"
| push: "session_step parseId sy (sy\<lparr>sy_server := snd (PushConfig env workloadID yamlContent target (sy_server sy))\<rparr>)"
| auto_pushes: "p \<in> set (sv_autopush (sy_server sy)) \<Longrightarrow> session_step parseId sy (sy\<lparr>sy_server := auto_push env p (sy_server sy)\<rparr>)"
| background: "background_step (sv_tokens (sy_server sy)) m \<Longrightarrow> session_step parseId sy (sy\<lparr>sy_server := (sy_server sy)\<lparr>sv_tokens := m\<rparr>\<rparr>)"
| stopping: "session_step parseId sy (sy\<lparr>sy_server := server_beginStop (sy_server sy)\<rparr>)"
| timers: "grace_step (sv_grace (sy_server sy)) g \<Longrightarrow> session_step parseId sy (sy\<lparr>sy_server := (sy_server sy)\<lparr>sv_grace := g\<rparr>\<rparr>)"
| expiry: "p < length (gc_heap (sv_grace (sy_server sy))) \<Longrightarrow> gt_phase (timer_at (sv_grace (sy_server sy)) p) = Running
    \<Longrightarrow> session_step parseId sy (sy\<lparr>sy_server := graceExpired env (gt_key (timer_at (sv_grace (sy_server sy)) p)) (sy_server sy)\<rparr>)"
| other_writes: "store_write (sv_db (sy_server sy)) d \<Longrightarrow> session_step parseId sy (sy\<lparr>sy_server := (sy_server sy)\<lparr>sv_db := d\<rparr>\<rparr>)"
| token_writes: "token_step parseId (sy_tokens sy) db \<Longrightarrow> session_step parseId sy (sy\<lparr>sy_tokens := db\<rparr>)"

abbreviation session_run :: "uuid_parser \<Rightarrow> session_system \<Rightarrow> session_system \<Rightarrow> bool" where
  "session_run parseId \<equiv> (session_step parseId)\<^sup>*\<^sup>*"

definition start_system :: "bool \<Rightarrow> duration \<Rightarrow> store_db \<Rightarrow> token_db \<Rightarrow> session_system" where
  "start_system notifier retention d tokens = \<lparr>sy_server = NewServer notifier retention d, sy_tokens = tokens, sy_inflight = []\<rparr>"

section \<open>What a handler leaves alone\<close>

text \<open>The connections belong to sessions that were tracked, and the waits of the token connections can be relied on.\<close>

definition sound_conns :: "Server \<Rightarrow> bool" where
  "sound_conns s \<longleftrightarrow> drain_inv (sv_tokens s) \<and> (\<forall>u k. mget (sv_conns s) u = Some k \<longrightarrow> known (sv_tokens s) k)"

definition new_pushes :: "Server \<Rightarrow> Server \<Rightarrow> bool" where
  "new_pushes s s' \<longleftrightarrow>
    (\<forall>c w u l. (c, w, u, Some l) \<in> set (sv_autopush s') \<longrightarrow> (c, w, u, Some l) \<in> set (sv_autopush s)
       \<or> length (tc_leases (sv_tokens s)) \<le> l \<and> l < length (tc_leases (sv_tokens s')))"

text \<open>
  A handler takes only calm steps, closes only sessions it has removed, and binds at most the instances
  in \<open>U\<close>, to workloads with an identifier.
\<close>

definition quietly :: "string set \<Rightarrow> Server \<Rightarrow> Server \<Rightarrow> bool" where
  "quietly U s s' \<longleftrightarrow>
    sv_conns s' = sv_conns s \<and> sv_fields s' = sv_fields s \<and> calm (sv_tokens s) (sv_tokens s')
    \<and> (\<forall>k \<in> set (sv_closing s'). k \<in> set (sv_closing s) \<or> known (sv_tokens s') k \<and> \<not> tracked (sv_tokens s') k)
    \<and> new_pushes s s'
    \<and> (\<forall>u. LookupWorkload (sv_registry s') u = LookupWorkload (sv_registry s) u \<or> u \<in> U \<and> LookupWorkload (sv_registry s') u \<noteq> Some [])"

lemma quietlyD:
  assumes "quietly U s s'"
  shows "sv_conns s' = sv_conns s" "sv_fields s' = sv_fields s" "calm (sv_tokens s) (sv_tokens s')"
    "k \<in> set (sv_closing s') \<Longrightarrow> k \<in> set (sv_closing s) \<or> known (sv_tokens s') k \<and> \<not> tracked (sv_tokens s') k"
    "new_pushes s s'"
    "LookupWorkload (sv_registry s') u = LookupWorkload (sv_registry s) u \<or> u \<in> U \<and> LookupWorkload (sv_registry s') u \<noteq> Some []"
  using assms unfolding quietly_def by blast+

lemma calm_len:
  assumes "calm m m'"
  shows "length (tc_heap m') = length (tc_heap m)" "length (tc_leases m) \<le> length (tc_leases m')"
  using assms unfolding calm_def calm_fields_def by blast+

lemma calm_known: "calm m m' \<Longrightarrow> known m' k \<longleftrightarrow> known m k"
  unfolding calm_def calm_fields_def by simp

lemma calm_untracked: "calm m m' \<Longrightarrow> \<not> tracked m k \<Longrightarrow> \<not> tracked m' k"
  unfolding calm_def calm_fields_def by blast

lemma quietly_refl [simp]: "quietly U s s"
  by (simp add: quietly_def new_pushes_def)

lemma new_pushes_trans:
  assumes "new_pushes a b" and "new_pushes b c" and "length (tc_leases (sv_tokens a)) \<le> length (tc_leases (sv_tokens b))"
    and "length (tc_leases (sv_tokens b)) \<le> length (tc_leases (sv_tokens c))"
  shows "new_pushes a c"
  using assms unfolding new_pushes_def by (meson le_trans order_less_le_trans)

lemma quietly_trans:
  assumes "quietly U a b" and "quietly U b c"
  shows "quietly U a c"
proof -
  note A = quietlyD [OF assms(1)] and B = quietlyD [OF assms(2)]
  have "k \<in> set (sv_closing a) \<or> known (sv_tokens c) k \<and> \<not> tracked (sv_tokens c) k" if "k \<in> set (sv_closing c)" for k
    using B(4) [OF that] A(4) [of k] calm_known [OF B(3)] calm_untracked [OF B(3), of k] by blast
  moreover have "new_pushes a c"
    using new_pushes_trans [OF A(5) B(5) calm_len(2) [OF A(3)] calm_len(2) [OF B(3)]] .
  moreover have "LookupWorkload (sv_registry c) u = LookupWorkload (sv_registry a) u \<or> u \<in> U \<and> LookupWorkload (sv_registry c) u \<noteq> Some []" for u
    using B(6) [of u] A(6) [of u] by presburger
  ultimately show ?thesis
    using calm_trans [OF A(3) B(3)] A(1,2) B(1,2) unfolding quietly_def by simp
qed

lemma sound_quietly:
  assumes "quietly U s s'" and "sound_conns s"
  shows "sound_conns s'"
proof -
  note q = quietlyD [OF assms(1)]
  have "drain_inv (sv_tokens s')"
    using drain_inv_calm [OF q(3)] assms(2) by (simp add: sound_conns_def)
  then show ?thesis
    using assms(2) unfolding sound_conns_def q(1) calm_known [OF q(3)] by blast
qed

text \<open>Most steps of a handler only write to the database and broadcast.\<close>

definition writes :: "Server \<Rightarrow> Server \<Rightarrow> bool" where
  "writes s s' \<longleftrightarrow> (\<exists>d b. s' = s\<lparr>sv_db := d, sv_broadcasts := b\<rparr>)"

lemma writes_fields:
  assumes "writes s s'"
  shows "sv_conns s' = sv_conns s" "sv_fields s' = sv_fields s" "sv_tokens s' = sv_tokens s" "sv_closing s' = sv_closing s"
    "sv_autopush s' = sv_autopush s" "sv_registry s' = sv_registry s"
  using assms by (auto simp: writes_def)

lemma writes_quietly: "writes s s' \<Longrightarrow> quietly U s s'"
  by (simp add: quietly_def new_pushes_def writes_fields)

lemma writes_refl [simp]: "writes s s"
  unfolding writes_def by (rule exI [of _ "sv_db s"], rule exI [of _ "sv_broadcasts s"]) simp

lemma writes_trans: "writes a b \<Longrightarrow> writes b c \<Longrightarrow> writes a c"
  unfolding writes_def by (elim exE, simp) (rule exI, rule exI, rule refl)

lemma writes_db [simp]: "writes s (s\<lparr>sv_db := d\<rparr>)"
  unfolding writes_def by (rule exI [of _ d], rule exI [of _ "sv_broadcasts s"]) simp

lemma writes_exec_at [simp]: "writes s (snd (exec_at env c op s))"
  by (simp add: exec_at_def split: prod.split)

lemma writes_exec: "exec_at env c op s = (ok, s') \<Longrightarrow> writes s s'"
  using writes_exec_at [of s env c op] by (simp del: writes_exec_at)

lemma writes_broadcast [simp]: "writes s (broadcast_to b s)"
  unfolding writes_def broadcast_to_def
  by (rule exI [of _ "sv_db s"], rule exI [of _ "sv_broadcasts (broadcast_to b s)"]) (simp add: broadcast_to_def)

lemma writes_emit [simp]: "writes s (emitEvent env c e s)"
proof -
  have "writes s (broadcast_to b (s\<lparr>sv_db := d\<rparr>))" for b d
    by (rule writes_trans [OF writes_db writes_broadcast])
  then show ?thesis
    by (simp add: emitEvent_def split: sum.split)
qed

lemma writes_emitBindEvent: "writes s (emitBindEvent env w u ins fresh pv v s)"
  by (simp add: emitBindEvent_def)

lemma writes_persist: "writes s (snd (persistEffectiveConfig env w n eff s))"
  by (auto simp: persistEffectiveConfig_def Let_def dest: writes_exec split: option.split prod.split bool.split)

lemma writes_upsert: "writes s (upsertWorkloadFromDescription env w fp attrs msg s)"
proof -
  have p: "writes s s'" if "persistEffectiveConfig env w n f s = (c, s')" for n f c s'
    using that writes_persist [of s env w n f] by simp
  have "writes s s2" if "writes s a" "exec_at env UpsertDescribed op a = (ok, s2)" for a op ok s2
    using that writes_trans writes_exec by blast
  then show ?thesis
    by (auto simp: upsertWorkloadFromDescription_def Let_def dest!: p intro: writes_trans [OF _ writes_exec_at] split: prod.split bool.split)
qed

section \<open>The handlers take calm steps\<close>

lemma sound_owner: "sound_conns s \<Longrightarrow> mget (sv_conns s) u = Some k \<Longrightarrow> known (sv_tokens s) k \<and> drain_inv (sv_tokens s)"
  unfolding sound_conns_def by blast

lemma quietly_tokens:
  assumes "calm (sv_tokens s) m"
  shows "quietly U s (s\<lparr>sv_tokens := m\<rparr>)"
  using assms by (simp add: quietly_def new_pushes_def)

lemma acquire_Some:
  assumes "Acquire k now m = (Some l, m')"
  shows "tracked m k" "l = length (tc_leases m)" "tc_leases m' = tc_leases m @ [\<lparr>tl_session = k, tl_released = False\<rparr>]"
  using assms by (auto simp: Acquire_def newLease_def Let_def split: if_splits prod.splits)

lemma quietly_close:
  assumes "sound_conns s" and "known (sv_tokens s) k"
  shows "quietly U s (s\<lparr>sv_tokens := Remove k (sv_tokens s), sv_closing := sv_closing s @ [k]\<rparr>)"
proof -
  have c: "calm (sv_tokens s) (Remove k (sv_tokens s))"
    using calm_remove assms(2) by simp
  moreover have "\<not> tracked (Remove k (sv_tokens s)) k"
    using remove_untracked assms by (simp add: sound_conns_def)
  ultimately show ?thesis
    using assms(2) calm_known [OF c, of k] unfolding quietly_def new_pushes_def by auto
qed

lemma quietly_send:
  assumes "sound_conns s"
  shows "quietly U s (snd (sendToInstance env u msg s))"
proof (cases "mget (sv_conns s) u")
  case None
  then show ?thesis
    by (simp add: sendToInstance_def)
next
  case (Some k)
  note k = sound_owner [OF assms Some]
  obtain l m where A: "Acquire k (se_now env) (sv_tokens s) = (l, m)"
    by fastforce
  have c: "calm (sv_tokens s) m"
    using calm_acquire [OF drain_invD(1), of "sv_tokens s" k "se_now env"] k A by simp
  show ?thesis
  proof (cases l)
    case None
    then show ?thesis
      using Some A quietly_tokens [OF c] by (simp add: sendToInstance_def)
  next
    case (Some l')
    have r: "calm (sv_tokens s) (Release l' m)"
      using acquire_Some [of k "se_now env" "sv_tokens s" l' m] A Some by (intro calm_release [OF c]) simp_all
    define s1 where "s1 = s\<lparr>sv_tokens := Release l' m\<rparr>"
    have q: "quietly U s s1"
      unfolding s1_def by (rule quietly_tokens [OF r])
    have "quietly U s1 (disconnectSessionAfterSendError k s1)"
      unfolding disconnectSessionAfterSendError_def
      by (rule quietly_close [OF sound_quietly [OF q assms]]) (use k calm_known [OF r] in \<open>simp add: s1_def\<close>)
    then have "quietly U s (disconnectSessionAfterSendError k s1)"
      by (rule quietly_trans [OF q])
    moreover have "quietly U s (s1\<lparr>sv_sent := x\<rparr>)" for x
      using q by (simp add: quietly_def new_pushes_def)
    ultimately show ?thesis
      using \<open>mget (sv_conns s) u = Some k\<close> A Some by (simp add: sendToInstance_def s1_def split: option.split)
  qed
qed

lemma quietly_push_one: "sound_conns s \<Longrightarrow> quietly U s (snd (push_one env y u s))"
  by (simp add: push_one_def quietly_send split: sum.split)

lemma quietly_push_all: "sound_conns s \<Longrightarrow> quietly U s (snd (push_all env y is (e, s)))"
proof (induction "is" arbitrary: e s)
  case (Cons i "is")
  obtain err s' where P: "push_one env y (in_InstanceUID i) s = (err, s')"
    by fastforce
  then have q: "quietly U s s'"
    using quietly_push_one [OF Cons.prems, of U env y "in_InstanceUID i"] by simp
  show ?case
    using quietly_trans [OF q Cons.IH [OF sound_quietly [OF q Cons.prems]]] P by simp
qed simp

lemma quietly_PushConfig: "sound_conns s \<Longrightarrow> quietly U s (snd (PushConfig env w y u s))"
  by (simp add: PushConfig_def Let_def quietly_push_one quietly_push_all split: option.split)

lemma quietly_auto: "sound_conns s \<Longrightarrow> quietly U s (triggerAutoPush env c w u s)"
  by (simp add: triggerAutoPush_def quietly_PushConfig split: option.split sum.split)

text \<open>A launched auto-push holds a lease of its own.\<close>

lemma fork_Some:
  assumes "Fork l m = (Some l', m')"
  shows "l' = length (tc_leases m)" "length (tc_leases m') = Suc (length (tc_leases m))"
  using assms by (auto simp: Fork_def newLease_def Let_def split: if_splits)

lemma quietly_launch:
  assumes "\<And>l. parent = Some l \<Longrightarrow> l < length (tc_leases (sv_tokens s))"
  shows "quietly U s (launchAutoPush c w u parent s)"
proof (cases parent)
  case None
  then show ?thesis
    by (simp add: launchAutoPush_def quietly_def new_pushes_def)
next
  case (Some l)
  obtain l' m where F: "Fork l (sv_tokens s) = (l', m)"
    by fastforce
  have c: "calm (sv_tokens s) m"
    using calm_fork [OF assms [OF Some]] F by simp
  show ?thesis
  proof (cases l')
    case None
    then show ?thesis
      using \<open>parent = Some l\<close> F quietly_tokens [OF c] by (simp add: launchAutoPush_def)
  next
    case (Some n)
    then show ?thesis
      using \<open>parent = Some l\<close> F c fork_Some [of l "sv_tokens s" n m]
      by (auto simp: launchAutoPush_def quietly_def new_pushes_def)
  qed
qed

lemma quietly_maybe:
  assumes "\<And>l. parent = Some l \<Longrightarrow> l < length (tc_leases (sv_tokens s))"
  shows "quietly U s (maybeTriggerAutoPush w u wl parent s)"
proof -
  define P where "P s' \<longleftrightarrow> quietly U s s'" for s'
  have step: "P (launchAutoPush c w u parent s')" if "P s'" for c s'
  proof -
    have q: "quietly U s s'"
      using that by (simp add: P_def)
    have "quietly U s' (launchAutoPush c w u parent s')"
      using order_less_le_trans [OF assms calm_len(2) [OF quietlyD(3) [OF q]]] by (intro quietly_launch)
    then show ?thesis
      using quietly_trans [OF q] by (simp add: P_def)
  qed
  have "P (maybeTriggerAutoPush w u wl parent s)"
    unfolding maybeTriggerAutoPush_def
    by (cases "wl_ActiveConfigID wl") (auto simp: step P_def [of s] intro!: foldl_inv [of P])
  then show ?thesis
    by (simp add: P_def)
qed

lemma quietly_refresh:
  assumes "\<And>l. parent = Some l \<Longrightarrow> l < length (tc_leases (sv_tokens s))"
  shows "quietly U s (refreshWorkloadState env w u parent s)"
proof (cases "fetch_workload env GetRefresh w s")
  case (Some wl)
  define wl' where "wl' = wl\<lparr>wl_Status := AggregatedStatus (sv_registry s) w, wl_LastSeenAt := se_clock env UpsertRefresh\<rparr>"
  define s1 where "s1 = snd (exec_at env UpsertRefresh (UpsertWorkload wl') s)"
  define s2 where "s2 = broadcast_to (WorkloadUpdate wl' (registry_Count (sv_registry s1) w) (countDrift (sv_registry s1) w (wl_ActiveConfigHash wl'))) s1"
  have "writes s s2"
    unfolding s2_def s1_def by (rule writes_trans [OF writes_exec_at writes_broadcast])
  then have "quietly U s s2" "sv_tokens s2 = sv_tokens s"
    by (simp_all add: writes_quietly writes_fields)
  moreover have "quietly U s2 (maybeTriggerAutoPush w u wl' parent s2)"
    by (rule quietly_maybe) (simp add: assms \<open>sv_tokens s2 = sv_tokens s\<close>)
  ultimately show ?thesis
    using Some by (simp add: refreshWorkloadState_def Let_def wl'_def s1_def s2_def quietly_trans)
qed (simp add: refreshWorkloadState_def)

lemma quietly_rollback:
  assumes "sound_conns s"
  shows "quietly U s (attemptAutoRollback env w h r s)"
proof -
  have push: "quietly U s s'" if "PushConfig env w y [] s = (e, s')" for y e s'
    using quietly_PushConfig [OF assms, of U env w y "[]"] that by simp
  have after: "quietly U s (broadcast_to b (snd (exec_at env MarkRollbackSent op' (snd (exec_at env RecordRollback op s')))))"
    if "PushConfig env w y [] s = (e, s')" for y e s' b op op'
    using quietly_trans [OF push [OF that] writes_quietly [OF writes_trans [OF writes_trans [OF writes_exec_at writes_exec_at] writes_broadcast]]] .
  show ?thesis
    unfolding attemptAutoRollback_def Let_def by (auto dest: push intro!: after split: option.split prod.split)
qed

lemma lookup_update [simp]: "LookupWorkload (snd (UpdateInstance now u f r)) = LookupWorkload r"
  by (rule ext) (auto simp: UpdateInstance_def LookupWorkload_def split: option.split)

lemma quietly_registry:
  assumes "\<And>u. LookupWorkload r u = LookupWorkload (sv_registry s) u \<or> u \<in> U \<and> LookupWorkload r u \<noteq> Some []"
  shows "quietly U s (s\<lparr>sv_registry := r, sv_grace := g\<rparr>)"
  using assms by (simp add: quietly_def new_pushes_def)

lemma quietly_report:
  assumes "sound_conns s"
  shows "quietly U s (handleRemoteConfigStatus env w u rcs s)"
proof -
  define st where "st = remoteConfigStatusString (rr_Status rcs)"
  define em where "em = SanitizeRemoteConfigErrorMessage (rr_ErrorMessage rcs)"
  define h where "h = hex_EncodeToString (rr_LastRemoteConfigHash rcs)"
  define snap where "snap = \<lparr>rs_Status = st, rs_ConfigHash = h, rs_ErrorMessage = em, rs_UpdatedAt = se_clock env ReportTime, rs_PushStatus = None\<rparr>"
  define s1 where "s1 = s\<lparr>sv_registry := snd (UpdateInstance (se_clock env ReportUpdateTime) u
                   (\<lambda>i. i\<lparr>in_EffectiveConfigHash := h, in_RemoteConfigStatus := Some snap\<rparr>) (sv_registry s))\<rparr>"
  define s2 where "s2 = snd (exec_at env UpdateStatus (UpdateWorkloadConfigStatus w h st em) s1)"
  define s3 where "s3 = snd (exec_at env UpdateInstanceStatus
                 (UpdateWorkloadConfigInstanceStatus (se_clock env UpdateInstanceStatus) w h u st em (rs_UpdatedAt snap)) s2)"
  define snap' where "snap' = (case read_call (se_fate env GetLatestPush) (GetLatestWorkloadConfig (se_clock env GetLatestPush) (sv_db s3) w) of
                     None \<Rightarrow> snap | Some push \<Rightarrow> snap\<lparr>rs_PushStatus := push\<rparr>)"
  define s4 where "s4 = (case fetch_workload env GetForStatus w s3 of
                  None \<Rightarrow> s3
                | Some wl \<Rightarrow> snd (exec_at env UpsertStatus (UpsertWorkload (wl\<lparr>wl_RemoteConfigStatus := Some snap'\<rparr>)) s3))"
  define s5 where "s5 = broadcast_to (ConfigStatus w snap') s4"
  have eq: "handleRemoteConfigStatus env w u rcs s =
      (if st = [] then s else if st = ''failed'' then attemptAutoRollback env w h em s5 else s5)"
    unfolding handleRemoteConfigStatus_def Let_def st_def [symmetric] em_def [symmetric] h_def [symmetric] snap_def [symmetric]
      s1_def [symmetric] s2_def [symmetric] s3_def [symmetric] snap'_def [symmetric] s4_def [symmetric] s5_def [symmetric] ..
  have "quietly U s s1"
    using quietly_registry [of "sv_registry s1" s U "sv_grace s"] by (simp add: s1_def)
  moreover have "writes s1 s3"
    unfolding s3_def s2_def by (rule writes_trans [OF writes_exec_at writes_exec_at])
  moreover have "writes s3 s4"
    by (simp add: s4_def split: option.split)
  ultimately have q: "quietly U s s5"
    unfolding s5_def by (metis quietly_trans writes_quietly writes_trans writes_broadcast)
  show ?thesis
    unfolding eq using q quietly_trans [OF q quietly_rollback [OF sound_quietly [OF q assms]]] by simp
qed

lemma quietly_record: "sound_conns s \<Longrightarrow> quietly U s (recordRemoteConfigStatus env w u st s)"
  by (simp add: recordRemoteConfigStatus_def quietly_report split: option.split)

lemma lookup_bind: "LookupWorkload (snd (BindInstance now u wl ins r)) v = (if v = u then Some wl else LookupWorkload r v)"
  by (simp add: BindInstance_def LookupWorkload_def Let_def map_simps)

lemma quietly_description:
  assumes "handleAgentDescription env uid desc msg s = (w, req, s')"
  shows "quietly {uid} s s'" and "LookupWorkload (sv_registry s') uid = Some w"
proof -
  define attrs where "attrs = flattenAttrs (ad_IdentifyingAttributes desc) (ad_NonIdentifyingAttributes desc)"
  define fp where "fp = Fingerprint attrs uid"
  define ins where "ins = described_instance attrs msg"
  obtain fresh reg where B: "BindInstance (se_clock env BindTime) uid (fp_ID fp) ins (sv_registry s) = (fresh, reg)"
    by fastforce
  define s1 where "s1 = s\<lparr>sv_registry := reg, sv_grace := Cancel (fp_ID fp) (sv_grace s)\<rparr>"
  define s2 where "s2 = upsertWorkloadFromDescription env (fp_ID fp) fp attrs msg s1"
  have "quietly {uid} s s1"
    unfolding s1_def
    by (rule quietly_registry) (use lookup_bind [of "se_clock env BindTime" uid "fp_ID fp" ins "sv_registry s"] B fingerprint_nonempty [of attrs uid]
      in \<open>auto simp: fp_def split: if_splits\<close>)
  moreover have "writes s1 s2"
    unfolding s2_def by (rule writes_upsert)
  moreover have "writes s2 s'"
    using assms writes_emitBindEvent
    by (auto simp: handleAgentDescription_def Let_def attrs_def [symmetric] fp_def [symmetric] ins_def [symmetric] B s1_def [symmetric] s2_def [symmetric])
  ultimately show "quietly {uid} s s'"
    by (metis quietly_trans writes_quietly)
  have "w = fp_ID fp"
    using assms
    by (auto simp: handleAgentDescription_def Let_def attrs_def [symmetric] fp_def [symmetric] ins_def [symmetric] B)
  moreover have "sv_registry s' = reg"
    using writes_fields(6) [OF \<open>writes s1 s2\<close>] writes_fields(6) [OF \<open>writes s2 s'\<close>] by (simp add: s1_def)
  ultimately show "LookupWorkload (sv_registry s') uid = Some w"
    using lookup_bind [of "se_clock env BindTime" uid "fp_ID fp" ins "sv_registry s" uid] B by simp
qed

lemma quietly_known:
  assumes "handleKnownInstanceUpdate env uid msg s = (w, s')"
  shows "quietly {uid} s s'"
  using assms quietly_registry [of "sv_registry s'" s "{uid}" "sv_grace s"]
  by (auto simp: handleKnownInstanceUpdate_def split: option.splits)

lemma quietly_rest:
  assumes sound: "sound_conns s" and l: "l < length (tc_leases (sv_tokens s))"
  shows "quietly U s (recordRemoteConfigStatus env w u st (refreshWorkloadState env w u (Some l) s))"
proof -
  have q: "quietly U s (refreshWorkloadState env w u (Some l) s)"
    by (rule quietly_refresh) (simp add: l)
  then show ?thesis
    using quietly_trans [OF q quietly_record [OF sound_quietly [OF q sound]]] by simp
qed

lemma quietly_handler:
  assumes sound: "sound_conns s" and l: "l < length (tc_leases (sv_tokens s))"
  shows "quietly {hex_EncodeToString (as_InstanceUid msg)} s (snd (handleAcceptedMessageWithLease env msg (Some l) s))"
proof -
  let ?u = "hex_EncodeToString (as_InstanceUid msg)"
  have continue: "quietly {?u} s (recordRemoteConfigStatus env w ?u st (refreshWorkloadState env w ?u (Some l) s'))"
    if q: "quietly {?u} s s'" for w st s'
    using l calm_len(2) [OF quietlyD(3) [OF q]] by (intro quietly_trans [OF q] quietly_rest sound_quietly [OF q sound]) simp
  show ?thesis
  proof (cases "as_AgentDescription msg")
    case None
    obtain w s' where K: "handleKnownInstanceUpdate env ?u msg s = (w, s')"
      by fastforce
    show ?thesis
      using None K quietly_known [OF K] continue by (cases w) (simp_all add: handleAcceptedMessageWithLease_def Let_def)
  next
    case (Some desc)
    obtain w r s' where D: "handleAgentDescription env ?u desc msg s = (w, r, s')"
      by (cases "handleAgentDescription env ?u desc msg s") auto
    show ?thesis
      using Some D quietly_description(1) [OF D] continue by (simp add: handleAcceptedMessageWithLease_def Let_def)
  qed
qed

text \<open>A described instance is bound when the handler returns.\<close>

lemma handler_binds:
  assumes sound: "sound_conns s" and l: "l < length (tc_leases (sv_tokens s))" and desc: "as_AgentDescription msg = Some desc"
  shows "LookupWorkload (sv_registry (snd (handleAcceptedMessageWithLease env msg (Some l) s))) (hex_EncodeToString (as_InstanceUid msg)) \<noteq> None"
proof -
  let ?u = "hex_EncodeToString (as_InstanceUid msg)"
  obtain w r s' where D: "handleAgentDescription env ?u desc msg s = (w, r, s')"
    by (cases "handleAgentDescription env ?u desc msg s") auto
  note q = quietly_description [OF D]
  have "l < length (tc_leases (sv_tokens s'))"
    using l calm_len(2) [OF quietlyD(3) [OF q(1)]] by simp
  from quietlyD(6) [OF quietly_rest [OF sound_quietly [OF q(1) sound] this, of "{}" env w ?u "as_RemoteConfigStatus msg"], of ?u]
  show ?thesis
    using desc D q(2) by (simp add: handleAcceptedMessageWithLease_def Let_def)
qed

section \<open>The invariant\<close>

text \<open>The map of connections and the sessions agree on who owns which instance.\<close>

definition owners_ok :: "Server \<Rightarrow> bool" where
  "owners_ok s \<longleftrightarrow>
    length (sv_fields s) = length (tc_heap (sv_tokens s))
    \<and> (\<forall>u k. mget (sv_conns s) u = Some k \<longrightarrow> u \<noteq> [] \<and> known (sv_tokens s) k \<and> sf_uid (sfields s k) = u)
    \<and> (\<forall>k < length (sv_fields s). sf_uid (sfields s k) \<noteq> [] \<longrightarrow> mget (sv_conns s) (sf_uid (sfields s k)) = Some k)"

text \<open>A session that is being closed is not tracked; a released one has no lease and no instance.\<close>

definition gone :: "Server \<Rightarrow> nat \<Rightarrow> bool" where
  "gone s k \<longleftrightarrow> known (sv_tokens s) k \<and> \<not> tracked (sv_tokens s) k \<and> open_leases (sv_tokens s) k = 0 \<and> sf_uid (sfields s k) = []"

definition closing_ok :: "Server \<Rightarrow> bool" where
  "closing_ok s \<longleftrightarrow>
    (\<forall>k \<in> set (sv_closing s). known (sv_tokens s) k \<and> \<not> tracked (sv_tokens s) k)
    \<and> (\<forall>k < length (sv_fields s). sf_released (sfields s k) \<longrightarrow> gone s k)"

definition registry_owned :: "Server \<Rightarrow> bool" where
  "registry_owned s \<longleftrightarrow>
    (\<forall>u wl. LookupWorkload (sv_registry s) u = Some wl \<longrightarrow> wl \<noteq> [] \<and> mget (sv_conns s) u \<noteq> None)"

definition pushes_ok :: "Server \<Rightarrow> bool" where
  "pushes_ok s \<longleftrightarrow> (\<forall>c w u l. (c, w, u, Some l) \<in> set (sv_autopush s) \<longrightarrow> l < length (tc_leases (sv_tokens s)))"

definition server_inv :: "Server \<Rightarrow> bool" where
  "server_inv s \<longleftrightarrow> drain_inv (sv_tokens s) \<and> owners_ok s \<and> closing_ok s \<and> registry_owned s \<and> pushes_ok s"

lemma server_invD:
  assumes "server_inv s"
  shows "drain_inv (sv_tokens s)" "owners_ok s" "closing_ok s" "registry_owned s" "pushes_ok s"
  using assms by (simp_all add: server_inv_def)

text \<open>A message in flight holds an open lease that is nobody else's; from its claim on its session owns its instance.\<close>

definition owns_instance :: "Server \<Rightarrow> inflight \<Rightarrow> bool" where
  "owns_instance s i \<longleftrightarrow> if_msg i \<noteq> None \<and> message_uid i \<noteq> [] \<and> sf_uid (sfields s (if_session i)) = message_uid i"

definition message_ok :: "Server \<Rightarrow> inflight \<Rightarrow> bool" where
  "message_ok s i \<longleftrightarrow>
    if_session i < length (sv_fields s) \<and> if_lease i < length (tc_leases (sv_tokens s))
    \<and> tc_leases (sv_tokens s) ! if_lease i = \<lparr>tl_session = if_session i, tl_released = False\<rparr>
    \<and> (\<forall>c w u. (c, w, u, Some (if_lease i)) \<notin> set (sv_autopush s))
    \<and> (if_phase i \<in> {Claimed, Used, Cleared} \<longrightarrow> owns_instance s i)"

definition system_inv :: "session_system \<Rightarrow> bool" where
  "system_inv sy \<longleftrightarrow>
    server_inv (sy_server sy) \<and> distinct (map if_lease (sy_inflight sy)) \<and> (\<forall>i \<in> set (sy_inflight sy). message_ok (sy_server sy) i)"

lemma system_invD:
  assumes "system_inv sy"
  shows "server_inv (sy_server sy)" "distinct (map if_lease (sy_inflight sy))" "i \<in> set (sy_inflight sy) \<Longrightarrow> message_ok (sy_server sy) i"
  using assms by (simp_all add: system_inv_def)

lemma system_invI:
  assumes "server_inv (sy_server sy)" and "distinct (map if_lease (sy_inflight sy))"
    and "\<And>i. i \<in> set (sy_inflight sy) \<Longrightarrow> message_ok (sy_server sy) i"
  shows "system_inv sy"
  using assms by (simp add: system_inv_def)

lemma sound_inv: "server_inv s \<Longrightarrow> sound_conns s"
  unfolding server_inv_def owners_ok_def sound_conns_def by blast

lemma inv_start: "system_inv (start_system notifier retention d tokens)"
proof -
  have "tc_heap newTokenConnections = []"
    by (simp add: newTokenConnections_def)
  then show ?thesis
    using drain_inv_new
    by (simp add: system_inv_def server_inv_def owners_ok_def closing_ok_def registry_owned_def pushes_ok_def start_system_def NewServer_def
        LookupWorkload_def NewInstanceRegistry_def map_simps)
qed

lemma inv_quietly:
  assumes inv: "server_inv s" and q: "quietly U s s'" and U: "\<And>u. u \<in> U \<Longrightarrow> mget (sv_conns s) u \<noteq> None"
  shows "server_inv s'"
proof -
  note D = server_invD [OF inv] and Q = quietlyD [OF q]
  note c = Q(3)
  have cf: "calm_fields (sv_tokens s) (sv_tokens s')"
    using c by (simp add: calm_def)
  have "owners_ok s'"
    using D(2) unfolding owners_ok_def Q(1,2) calm_known [OF c] by (simp add: calm_len(1) [OF c])
  moreover have "closing_ok s'"
    unfolding closing_ok_def
  proof (rule conjI, rule ballI, goal_cases)
    case (1 k)
    have "known (sv_tokens s') k \<and> \<not> tracked (sv_tokens s') k" if "k \<in> set (sv_closing s)"
      using D(3) that calm_known [OF c] calm_untracked [OF c] unfolding closing_ok_def by blast
    then show ?case
      using Q(4) [OF 1] by blast
  next
    case 2
    show ?case
    proof (intro allI impI)
      fix k
      assume "k < length (sv_fields s')" "sf_released (sfields s' k)"
      then have g: "gone s k"
        using D(3) Q(2) unfolding closing_ok_def by simp
      then have "open_leases (sv_tokens s') k = 0"
        using calm_fieldsD(4) [OF cf, of k] by (simp add: gone_def)
      then show "gone s' k"
        using g calm_known [OF c] calm_untracked [OF c] unfolding gone_def Q(2) by blast
    qed
  qed
  moreover have "registry_owned s'"
    unfolding registry_owned_def Q(1)
  proof (intro allI impI, goal_cases)
    case (1 u wl)
    then show ?case
      using D(4) [unfolded registry_owned_def, rule_format, of u wl] Q(6) [of u] U [of u] by auto
  qed
  moreover have "pushes_ok s'"
    using D(5) Q(5) calm_len(2) [OF c] unfolding pushes_ok_def new_pushes_def by (meson order_less_le_trans)
  ultimately show ?thesis
    using drain_inv_calm [OF c D(1)] by (simp add: server_inv_def)
qed

lemma message_quietly:
  assumes q: "quietly U s s'" and m: "message_ok s i"
  shows "message_ok s' i"
proof -
  note Q = quietlyD [OF q]
  have cf: "calm_fields (sv_tokens s) (sv_tokens s')"
    using Q(3) by (simp add: calm_def)
  have l: "if_lease i < length (tc_leases (sv_tokens s))"
    using m by (simp add: message_ok_def)
  have "(c, w, u, Some (if_lease i)) \<notin> set (sv_autopush s')" for c w u
    using m l Q(5) unfolding message_ok_def new_pushes_def by (meson leD)
  then show ?thesis
    using m l calm_fieldsD(5) [OF cf] calm_fieldsD(6) [OF cf l]
    unfolding message_ok_def owns_instance_def Q(2) by (auto intro: order_less_le_trans)
qed

lemma inv_step_quietly:
  assumes inv: "system_inv sy" and q: "quietly U (sy_server sy) s'" and U: "\<And>u. u \<in> U \<Longrightarrow> mget (sv_conns (sy_server sy)) u \<noteq> None"
  shows "system_inv (sy\<lparr>sy_server := s'\<rparr>)"
  using inv_quietly [OF system_invD(1) [OF inv] q U] message_quietly [OF q system_invD(3) [OF inv]] system_invD(2) [OF inv]
  by (intro system_invI) simp_all

section \<open>Every step keeps it\<close>

lemma Release_frame:
  "tc_sessions (Release l m) = tc_sessions m" "length (tc_heap (Release l m)) = length (tc_heap m)"
  "ts_conn (sess (Release l m) s) = ts_conn (sess m s)" "length (tc_leases (Release l m)) = length (tc_leases m)"
  "j \<noteq> l \<Longrightarrow> tc_leases (Release l m) ! j = tc_leases m ! j"
  by (simp_all add: Release_def Let_def nth_update_if)

lemma Release_open:
  assumes "l < length (tc_leases m)"
  shows "open_leases (Release l m) s \<le> open_leases m s"
  using length_filter_update [OF assms, of "\<lambda>k. tl_session k = s \<and> \<not> tl_released k" "(tc_leases m ! l)\<lparr>tl_released := True\<rparr>"]
  by (auto simp: open_leases_def Release_def Let_def split: if_splits)

lemma inv_release_lease:
  assumes inv: "server_inv s" and l: "l < length (tc_leases (sv_tokens s))"
  shows "server_inv (s\<lparr>sv_tokens := Release l (sv_tokens s)\<rparr>)" (is "server_inv ?s")
proof -
  note D = server_invD [OF inv]
  have "once_step (sv_tokens s) (Release l (sv_tokens s))"
    using token_conn_step.release [OF l] by (simp add: once_step_def tracks_once_def Release_frame)
  then have "drain_inv (sv_tokens ?s)"
    using drain_inv_step [OF _ D(1)] by simp
  moreover have "gone ?s k" if "gone s k" for k
    using that Release_open [OF l, of k] by (simp add: gone_def Release_frame)
  then have "closing_ok ?s"
    using D(3) unfolding closing_ok_def by (simp add: Release_frame)
  moreover have "owners_ok ?s" "registry_owned ?s" "pushes_ok ?s"
    using D(2,4,5) by (simp_all add: owners_ok_def registry_owned_def pushes_ok_def Release_frame)
  ultimately show ?thesis
    by (simp add: server_inv_def)
qed

lemma message_release_lease:
  "message_ok s i \<Longrightarrow> if_lease i \<noteq> l \<Longrightarrow> message_ok (s\<lparr>sv_tokens := Release l (sv_tokens s)\<rparr>) i"
  by (simp add: message_ok_def owns_instance_def Release_frame)

lemma inv_leave:
  assumes inv: "system_inv sy" and n: "n < length (sy_inflight sy)"
  shows "system_inv (leave n sy)"
proof (rule system_invI)
  let ?i = "sy_inflight sy ! n"
  have split: "sy_inflight sy = take n (sy_inflight sy) @ ?i # drop (Suc n) (sy_inflight sy)"
    by (rule id_take_nth_drop [OF n])
  have m: "message_ok (sy_server sy) ?i"
    using system_invD(3) [OF inv] n by simp
  then show "server_inv (sy_server (leave n sy))"
    using inv_release_lease [OF system_invD(1) [OF inv]] by (simp add: leave_def message_ok_def)
  have d: "distinct (map if_lease (take n (sy_inflight sy) @ ?i # drop (Suc n) (sy_inflight sy)))"
    using system_invD(2) [OF inv] split by simp
  then show "distinct (map if_lease (sy_inflight (leave n sy)))"
    by (simp add: leave_def)
  fix j
  assume "j \<in> set (sy_inflight (leave n sy))"
  then have j: "j \<in> set (take n (sy_inflight sy)) \<union> set (drop (Suc n) (sy_inflight sy))"
    by (simp add: leave_def)
  have "if_lease ?i \<notin> if_lease ` (set (take n (sy_inflight sy)) \<union> set (drop (Suc n) (sy_inflight sy)))"
    using d by auto
  then have "if_lease j \<noteq> if_lease ?i"
    using imageI [OF j, of if_lease] by metis
  moreover have "message_ok (sy_server sy) j"
    using system_invD(3) [OF inv, of j] j by (auto dest: in_set_takeD in_set_dropD)
  ultimately show "message_ok (sy_server (leave n sy)) j"
    using message_release_lease by (simp add: leave_def)
qed

text \<open>A change of the flags of a session only.\<close>

lemma inv_flags:
  assumes inv: "server_inv s" and "sf_uid f = sf_uid (sfields s k)" and "sf_released f = sf_released (sfields s k)"
  shows "server_inv (s\<lparr>sv_fields := (sv_fields s)[k := f]\<rparr>)"
proof -
  have u: "sf_uid ((sv_fields s)[k := f] ! x) = sf_uid (sfields s x)" "sf_released ((sv_fields s)[k := f] ! x) = sf_released (sfields s x)" for x
    using assms(2,3) by (auto simp: nth_update_if)
  show ?thesis
    using inv unfolding server_inv_def owners_ok_def closing_ok_def registry_owned_def pushes_ok_def gone_def by (simp add: u)
qed

lemma message_flags:
  assumes "message_ok s i" and "sf_uid f = sf_uid (sfields s k)"
  shows "message_ok (s\<lparr>sv_fields := (sv_fields s)[k := f]\<rparr>) i"
proof -
  have "sf_uid ((sv_fields s)[k := f] ! x) = sf_uid (sfields s x)" for x
    using assms(2) by (auto simp: nth_update_if)
  then show ?thesis
    using assms(1) by (simp add: message_ok_def owns_instance_def)
qed

lemma inv_system_flags:
  assumes inv: "system_inv sy" and "sf_uid f = sf_uid (sfields (sy_server sy) k)" and "sf_released f = sf_released (sfields (sy_server sy) k)"
  shows "system_inv (sy\<lparr>sy_server := (sy_server sy)\<lparr>sv_fields := (sv_fields (sy_server sy))[k := f]\<rparr>\<rparr>)"
  using inv_flags [OF system_invD(1) [OF inv] assms(2,3)] message_flags [OF system_invD(3) [OF inv] assms(2)] system_invD(2) [OF inv]
  by (intro system_invI) simp_all

lemma inv_refuse:
  assumes "system_inv sy" and "n < length (sy_inflight sy)"
  shows "system_inv (refuse n sy)"
  unfolding refuse_def set_terminal_def using assms by (intro inv_leave inv_system_flags) simp_all

lemma inv_advance:
  assumes inv: "system_inv sy" and n: "n < length (sy_inflight sy)"
    and p: "p \<in> {Claimed, Used, Cleared} \<Longrightarrow> owns_instance (sy_server sy) (sy_inflight sy ! n)"
  shows "system_inv (advance n p sy)"
proof (rule system_invI)
  let ?i = "sy_inflight sy ! n"
  show "server_inv (sy_server (advance n p sy))"
    using system_invD(1) [OF inv] by (simp add: advance_def)
  have "map if_lease ((sy_inflight sy)[n := ?i\<lparr>if_phase := p\<rparr>]) = map if_lease (sy_inflight sy)"
    using n by (simp add: map_update list_update_same_conv)
  then show "distinct (map if_lease (sy_inflight (advance n p sy)))"
    using system_invD(2) [OF inv] by (simp add: advance_def)
  fix j
  assume "j \<in> set (sy_inflight (advance n p sy))"
  then have "j = ?i\<lparr>if_phase := p\<rparr> \<or> j \<in> set (sy_inflight sy)"
    using set_update_subset_insert [of "sy_inflight sy" n] by (auto simp: advance_def)
  moreover have "message_ok (sy_server sy) (?i\<lparr>if_phase := p\<rparr>)"
    using system_invD(3) [OF inv, of ?i] n p by (auto simp: message_ok_def owns_instance_def message_uid_def)
  ultimately show "message_ok (sy_server (advance n p sy)) j"
    using system_invD(3) [OF inv] by (auto simp: advance_def)
qed

text \<open>A session with a message in flight has an open lease.\<close>

lemma message_lease:
  assumes "message_ok s i"
  shows "open_leases (sv_tokens s) (if_session i) \<noteq> 0"
proof -
  have "tc_leases (sv_tokens s) ! if_lease i \<in> set (filter (\<lambda>l. tl_session l = if_session i \<and> \<not> tl_released l) (tc_leases (sv_tokens s)))"
    using assms nth_mem [of "if_lease i" "tc_leases (sv_tokens s)"] by (auto simp: message_ok_def)
  then show ?thesis
    unfolding open_leases_def by (metis length_0_conv empty_iff list.set(1))
qed

lemma message_not_released:
  assumes "server_inv s" and "message_ok s i"
  shows "\<not> sf_released (sfields s (if_session i))"
  using message_lease [OF assms(2)] server_invD(3) [OF assms(1)] assms(2) unfolding closing_ok_def gone_def message_ok_def by auto

lemma inv_new_session:
  assumes inv: "server_inv s"
  shows "server_inv (new_session p s)" (is "server_inv ?s")
proof -
  note D = server_invD [OF inv]
  have len: "length (sv_fields s) = length (tc_heap (sv_tokens s))"
    using D(2) by (simp add: owners_ok_def)
  have f: "sv_conns ?s = sv_conns s" "sv_closing ?s = sv_closing s" "sv_registry ?s = sv_registry s" "sv_autopush ?s = sv_autopush s"
    "tc_sessions (sv_tokens ?s) = tc_sessions (sv_tokens s)" "tc_leases (sv_tokens ?s) = tc_leases (sv_tokens s)"
    "length (sv_fields ?s) = Suc (length (sv_fields s))" "length (tc_heap (sv_tokens ?s)) = Suc (length (tc_heap (sv_tokens s)))"
    "sfields ?s (length (sv_fields s)) = new_fields"
    by (simp_all add: new_session_def)
  have old: "sfields ?s k = sfields s k" "sess (sv_tokens ?s) k = sess (sv_tokens s) k" if "k < length (sv_fields s)" for k
    using that len by (simp_all add: new_session_def nth_append)
  have kn: "known (sv_tokens ?s) k \<and> sfields ?s k = sfields s k" if "known (sv_tokens s) k" for k
    using that old [of k] len by (simp add: f)
  have "once_step (sv_tokens s) (sv_tokens ?s)"
    using token_conn_step.new by (simp add: once_step_def tracks_once_def new_session_def)
  then have "drain_inv (sv_tokens ?s)"
    by (rule drain_inv_step [OF _ D(1)])
  moreover have "owners_ok ?s"
    unfolding owners_ok_def f(1,7,8)
  proof (intro conjI allI impI)
    fix u k
    assume "mget (sv_conns s) u = Some k"
    then have "u \<noteq> []" "known (sv_tokens s) k" "sf_uid (sfields s k) = u"
      using D(2) unfolding owners_ok_def by blast+
    then show "u \<noteq> []" "k < Suc (length (tc_heap (sv_tokens s)))" "ts_conn (sess (sv_tokens ?s) k) \<noteq> None" "sf_uid (sfields ?s k) = u"
      using kn [of k] by simp_all
  next
    fix k
    assume "k < Suc (length (sv_fields s))" "sf_uid (sfields ?s k) \<noteq> []"
    then show "mget (sv_conns s) (sf_uid (sfields ?s k)) = Some k"
      using D(2) old(1) [of k] f(9) by (cases "k = length (sv_fields s)") (auto simp: owners_ok_def new_fields_def)
  qed (simp add: len)
  moreover have "closing_ok ?s"
    unfolding closing_ok_def f(2,5,7)
  proof (rule conjI, goal_cases)
    case 1
    then show ?case
      using D(3) kn unfolding closing_ok_def by blast
  next
    case 2
    have "gone ?s k" if "gone s k" for k
      using that kn [of k] by (auto simp: gone_def f(5,6) open_leases_def)
    then show ?case
      using D(3) old(1) f(9) by (auto simp: closing_ok_def less_Suc_eq new_fields_def)
  qed
  moreover have "registry_owned ?s" "pushes_ok ?s"
    using D(4,5) by (simp_all add: registry_owned_def pushes_ok_def f)
  ultimately show ?thesis
    by (simp add: server_inv_def)
qed

lemma inv_connecting:
  assumes inv: "system_inv sy"
  shows "system_inv (snd (onConnecting parseId queryOK now authorization sy))"
proof -
  have "message_ok (new_session p s) i" if "message_ok s i" for s i p
    using that by (auto simp: message_ok_def owns_instance_def new_session_def nth_append)
  then have "system_inv (sy\<lparr>sy_server := new_session p (sy_server sy)\<rparr>)" for p
    using inv inv_new_session [OF system_invD(1) [OF inv]] by (simp add: system_inv_def)
  then show ?thesis
    using inv by (simp add: onConnecting_def split: connection_response.split)
qed

text \<open>The first callback of a connection.\<close>

lemma track_effect:
  assumes inv: "conn_inv m" and s: "s < length (tc_heap m)" and fresh: "ts_conn (sess m s) = None"
    and T: "Track s (Some c) now m = (ok, m')"
  shows "once_step m m'" "length (tc_heap m') = length (tc_heap m)" "tc_leases m' = tc_leases m"
    "x \<noteq> s \<Longrightarrow> ts_conn (sess m' x) = ts_conn (sess m x)" "x \<noteq> s \<Longrightarrow> tracked m' x \<Longrightarrow> tracked m x"
proof -
  obtain d w m1 where B: "beginDisableLocked (ts_ID (sess m s)) m = (d, w, m1)"
    by (cases "beginDisableLocked (ts_ID (sess m s)) m") auto
  note b = calm_beginDisable [OF inv B]
  consider "m' = m" | "m' = m1" | "tc_heap m' = (tc_heap m)[s := (sess m s)\<lparr>ts_conn := Some c\<rparr>]" "tc_leases m' = tc_leases m"
      "tc_sessions m' = mput s () (tc_sessions m)"
    using T by (auto simp: Track_def Let_def B split: if_splits)
  then have all: "length (tc_heap m') = length (tc_heap m) \<and> tc_leases m' = tc_leases m \<and> (x \<noteq> s \<longrightarrow> ts_conn (sess m' x) = ts_conn (sess m x))
      \<and> (x \<noteq> s \<longrightarrow> tracked m' x \<longrightarrow> tracked m x)" for x
    using b by cases (auto simp: nth_update_if map_simps)
  then show "length (tc_heap m') = length (tc_heap m)" "tc_leases m' = tc_leases m"
    "x \<noteq> s \<Longrightarrow> ts_conn (sess m' x) = ts_conn (sess m x)" "x \<noteq> s \<Longrightarrow> tracked m' x \<Longrightarrow> tracked m x"
    by blast+
  have "tracked m y \<or> ts_conn (sess m y) = None" if "tracked m' y" for y
    using all [of y] fresh that by (cases "y = s") simp_all
  then have "tracks_once m m'"
    by (simp add: tracks_once_def)
  then show "once_step m m'"
    using token_conn_step.track [OF s, of "Some c" now] T by (simp add: once_step_def)
qed

lemma inv_connected:
  assumes inv: "system_inv sy" and k: "k < length (sv_fields (sy_server sy))" and fresh: "ts_conn (sess (sv_tokens (sy_server sy)) k) = None"
  shows "system_inv (snd (onConnected k c now sy))"
proof -
  let ?s = "sy_server sy" and ?m = "sv_tokens (sy_server sy)"
  note D = server_invD [OF system_invD(1) [OF inv]]
  obtain ok m' where T: "Track k (Some c) now ?m = (ok, m')"
    by fastforce
  have len: "k < length (tc_heap ?m)"
    using k D(2) by (simp add: owners_ok_def)
  note E = track_effect [OF drain_invD(1) [OF D(1)] len fresh T]
  let ?s' = "?s\<lparr>sv_tokens := m'\<rparr>"
  have kn: "known m' x" if "known ?m x" for x
    using that E(2) E(4) [of x] fresh by (cases "x = k") simp_all
  have gn: "gone ?s' x" if "gone ?s x" for x
    using that kn [of x] E(3) E(5) [of x] fresh unfolding gone_def open_leases_def by (cases "x = k") auto
  have "owners_ok ?s'"
    using D(2) kn E(2) unfolding owners_ok_def by (simp del: not_None_eq)
  moreover have "closing_ok ?s'"
    unfolding closing_ok_def
  proof (rule conjI, rule ballI, goal_cases)
    case (1 x)
    then have "known ?m x" "\<not> tracked ?m x"
      using D(3) unfolding closing_ok_def by auto
    then show ?case
      using kn [of x] E(5) [of x] fresh by (cases "x = k") auto
  next
    case 2
    then show ?case
      using D(3) gn unfolding closing_ok_def by simp
  qed
  moreover have "registry_owned ?s'" "pushes_ok ?s'"
    using D(4,5) by (simp_all add: registry_owned_def pushes_ok_def E(3))
  ultimately have "server_inv ?s'"
    using drain_inv_step [OF E(1) D(1)] by (simp add: server_inv_def)
  moreover have "message_ok ?s' i" if "message_ok ?s i" for i
    using that by (simp add: message_ok_def owns_instance_def E(3))
  ultimately show ?thesis
    using inv by (simp add: system_inv_def onConnected_def T)
qed

lemma inv_message:
  assumes inv: "system_inv sy" and k: "k < length (sv_fields (sy_server sy))"
  shows "system_inv (onSessionMessage k c msg now sy)"
proof -
  let ?s = "sy_server sy" and ?m = "sv_tokens (sy_server sy)"
  note D = server_invD [OF system_invD(1) [OF inv]]
  have len: "k < length (tc_heap ?m)"
    using k D(2) by (simp add: owners_ok_def)
  obtain l m' where A: "Acquire k now ?m = (l, m')"
    by fastforce
  have "calm ?m m'"
    using calm_acquire [OF drain_invD(1) [OF D(1)] len, of now] A by simp
  then have q: "system_inv (sy\<lparr>sy_server := ?s\<lparr>sv_tokens := m'\<rparr>\<rparr>)"
    using inv_step_quietly [OF inv quietly_tokens, of m' "{}"] by simp
  show ?thesis
  proof (cases l)
    case None
    then show ?thesis
      using q A by (simp add: onSessionMessage_def)
  next
    case (Some x)
    note a = acquire_Some [of k now ?m x m'] A [unfolded Some]
    have "if_lease i < length (tc_leases ?m)" if "i \<in> set (sy_inflight sy)" for i
      using system_invD(3) [OF inv that] by (simp add: message_ok_def)
    then have fresh: "x \<notin> if_lease ` set (sy_inflight sy)"
      using a by fastforce
    define i where "i = \<lparr>if_session = k, if_conn = c, if_msg = msg, if_lease = x, if_phase = Arrived\<rparr>"
    have "(c', w, u, Some (length (tc_leases ?m))) \<notin> set (sv_autopush ?s)" for c' w u
      using D(5) by (auto simp: pushes_ok_def)
    then have i: "message_ok (?s\<lparr>sv_tokens := m'\<rparr>) i"
      using a k by (simp add: message_ok_def i_def)
    have eq: "onSessionMessage k c msg now sy = sy\<lparr>sy_server := ?s\<lparr>sv_tokens := m'\<rparr>, sy_inflight := sy_inflight sy @ [i]\<rparr>"
      using A Some by (simp add: onSessionMessage_def i_def)
    show ?thesis
      unfolding eq using system_invD [OF q] i fresh by (intro system_invI) (auto simp: i_def)
  qed
qed

lemma hex_nonempty: "xs \<noteq> [] \<Longrightarrow> hex_EncodeToString xs \<noteq> []"
  by (cases xs) (auto simp: hex_EncodeToString_def)

lemma inv_claim:
  assumes inv: "system_inv sy" and n: "n < length (sy_inflight sy)"
  shows "system_inv (claim_message n sy)"
proof -
  let ?i = "sy_inflight sy ! n" and ?s = "sy_server sy"
  let ?k = "if_session ?i"
  obtain c s' where C: "claim_instance ?k (if_conn ?i) (if_msg ?i) ?s = (c, s')"
    by fastforce
  note D = server_invD [OF system_invD(1) [OF inv]]
  have m: "message_ok ?s ?i"
    using system_invD(3) [OF inv] n by simp
  show ?thesis
  proof (cases c)
    case Refused
    then have "s' = ?s"
      using C by (auto simp: claim_instance_def Let_def split: option.splits if_splits)
    then show ?thesis
      using C Refused inv_refuse [OF inv n] by (simp add: claim_message_def Let_def)
  next
    case AlreadyAdmitted
    then have "s' = ?s" "owns_instance ?s ?i"
      using C by (auto simp: claim_instance_def Let_def owns_instance_def message_uid_def intro!: hex_nonempty split: option.splits if_splits)
    then show ?thesis
      using C AlreadyAdmitted inv_advance [OF inv n, of Cleared] by (simp add: claim_message_def Let_def)
  next
    case MustAdmit
    define u where "u = message_uid ?i"
    have u: "u \<noteq> []" "if_msg ?i \<noteq> None" "sf_uid (sfields ?s ?k) = []" "ts_conn (sess (sv_tokens ?s) ?k) \<noteq> None"
      "mget (sv_conns ?s) u = None \<or> mget (sv_conns ?s) u = Some ?k"
      "s' = ?s\<lparr>sv_fields := (sv_fields ?s)[?k := (sfields ?s ?k)\<lparr>sf_uid := u\<rparr>], sv_conns := mput u ?k (sv_conns ?s)\<rparr>"
      using C MustAdmit
      by (auto simp: claim_instance_def Let_def u_def message_uid_def intro!: hex_nonempty split: option.splits if_splits)
    have k: "?k < length (sv_fields ?s)" "?k < length (tc_heap (sv_tokens ?s))"
      using m D(2) by (simp_all add: message_ok_def owners_ok_def)
    have nr: "\<not> sf_released (sfields ?s ?k)"
      by (rule message_not_released [OF system_invD(1) [OF inv] m])
    have f: "sv_tokens s' = sv_tokens ?s" "sv_closing s' = sv_closing ?s" "sv_autopush s' = sv_autopush ?s" "sv_registry s' = sv_registry ?s"
      "mget (sv_conns s') v = (if v = u then Some ?k else mget (sv_conns ?s) v)" "length (sv_fields s') = length (sv_fields ?s)"
      "sf_uid (sfields s' x) = (if x = ?k then u else sf_uid (sfields ?s x))" "sf_released (sfields s' x) = sf_released (sfields ?s x)" for v x
      using k(1) by (simp_all add: u(6) map_simps nth_update_if)
    have own: "x \<noteq> ?k" "v \<noteq> []" "known (sv_tokens ?s) x" "sf_uid (sfields ?s x) = v" if "v \<noteq> u" "mget (sv_conns ?s) v = Some x" for v x
      using that D(2) u(3) unfolding owners_ok_def by blast+
    have own': "mget (sv_conns ?s) (sf_uid (sfields ?s x)) = Some x" if "x < length (sv_fields ?s)" "sf_uid (sfields ?s x) \<noteq> []" for x
      using that D(2) unfolding owners_ok_def by blast
    have "owners_ok s'"
      unfolding owners_ok_def f(1,5,6)
    proof (intro conjI allI impI, goal_cases)
      case 1
      then show ?case
        using D(2) by (simp add: owners_ok_def)
    next
      case (6 x)
      then show ?case
        using own' [of x] u(1,5) f(7) [of x] by (auto split: if_splits)
    qed (use own u(1,4) k f(7) in \<open>auto split: if_splits\<close>)
    moreover have "gone s' x" if "gone ?s x" "x \<noteq> ?k" for x
      using that by (simp add: gone_def f)
    then have "closing_ok s'"
      using D(3) nr unfolding closing_ok_def f(1,2,6,8) by blast
    moreover have "registry_owned s'" "pushes_ok s'"
      using D(4,5) by (auto simp: registry_owned_def pushes_ok_def f)
    ultimately have "server_inv s'"
      using D(1) by (simp add: server_inv_def f)
    moreover have "message_ok s' j" if j: "j \<in> set (sy_inflight sy)" for j
    proof -
      have "message_ok ?s j"
        by (rule system_invD(3) [OF inv j])
      moreover have "if_session j \<noteq> ?k" if "owns_instance ?s j"
        using that u(3) by (auto simp: owns_instance_def)
      ultimately show ?thesis
        unfolding message_ok_def owns_instance_def f by auto
    qed
    ultimately have inv': "system_inv (sy\<lparr>sy_server := s'\<rparr>)"
      using system_invD(2) [OF inv] by (simp add: system_inv_def)
    have "owns_instance s' ?i"
      using u(1,2) f(7) [of ?k] by (simp add: owns_instance_def u_def)
    then show ?thesis
      using C MustAdmit inv_advance [OF inv', of n Claimed] n by (simp add: claim_message_def Let_def)
  qed
qed

lemma message_at: "system_inv sy \<Longrightarrow> n < length (sy_inflight sy) \<Longrightarrow> message_ok (sy_server sy) (sy_inflight sy ! n)"
  by (simp add: system_inv_def)

lemma inv_tokens_db: "system_inv (sy\<lparr>sy_tokens := db\<rparr>) = system_inv sy"
  by (simp add: system_inv_def)

lemma inv_use:
  assumes inv: "system_inv sy" and n: "n < length (sy_inflight sy)" and p: "if_phase (sy_inflight sy ! n) = Claimed"
  shows "system_inv (record_use parseId cm now n sy)"
proof -
  have o: "owns_instance (sy_server sy) (sy_inflight sy ! n)"
    using message_at [OF inv n] p by (simp add: message_ok_def)
  have "system_inv (advance n Used (sy\<lparr>sy_tokens := db\<rparr>))" "system_inv (refuse n (sy\<lparr>sy_tokens := db\<rparr>))" for db
    using inv_advance [of "sy\<lparr>sy_tokens := db\<rparr>" n Used] inv_refuse [of "sy\<lparr>sy_tokens := db\<rparr>" n] inv n o by (simp_all add: inv_tokens_db)
  then show ?thesis
    by (auto simp: record_use_def Let_def split: prod.split option.split)
qed

lemma inv_admit:
  assumes inv: "system_inv sy" and n: "n < length (sy_inflight sy)" and p: "if_phase (sy_inflight sy ! n) = Used"
  shows "system_inv (admit_message n sy)"
proof -
  let ?i = "sy_inflight sy ! n" and ?s = "sy_server sy"
  let ?s' = "?s\<lparr>sv_fields := (sv_fields ?s)[if_session ?i := (sfields ?s (if_session ?i))\<lparr>sf_admitted := True\<rparr>]\<rparr>"
  have m: "message_ok ?s ?i" "owns_instance ?s ?i"
    using message_at [OF inv n] p by (simp_all add: message_ok_def)
  have inv': "system_inv (sy\<lparr>sy_server := ?s'\<rparr>)"
    by (rule inv_system_flags [OF inv]) simp_all
  have "owns_instance ?s' ?i"
    using m by (simp add: owns_instance_def message_ok_def)
  then have "system_inv (advance n Cleared (sy\<lparr>sy_server := ?s'\<rparr>))"
    using inv_advance [OF inv', of n Cleared] n by simp
  then show ?thesis
    using inv_refuse [OF inv n] by (simp add: admit_message_def Let_def admit_session_def)
qed

lemma inv_handle:
  assumes inv: "system_inv sy" and n: "n < length (sy_inflight sy)" and p: "if_phase (sy_inflight sy ! n) = Cleared"
  shows "system_inv (handle_message env n sy)"
proof -
  let ?i = "sy_inflight sy ! n" and ?s = "sy_server sy"
  have m: "message_ok ?s ?i" "owns_instance ?s ?i"
    using message_at [OF inv n] p by (simp_all add: message_ok_def)
  obtain msg where msg: "if_msg ?i = Some msg"
    using m(2) by (auto simp: owns_instance_def)
  obtain reply s' where H: "handleAcceptedMessageWithLease env msg (Some (if_lease ?i)) ?s = (reply, s')"
    by fastforce
  have q: "quietly {message_uid ?i} ?s s'"
    using quietly_handler [OF sound_inv [OF system_invD(1) [OF inv]], of "if_lease ?i" msg env] m(1) H msg
    by (simp add: message_ok_def message_uid_def)
  have "mget (sv_conns ?s) (message_uid ?i) = Some (if_session ?i)"
    using m server_invD(2) [OF system_invD(1) [OF inv]] unfolding message_ok_def owns_instance_def owners_ok_def by metis
  then have "system_inv (sy\<lparr>sy_server := s'\<rparr>)"
    using inv_step_quietly [OF inv q] by simp
  then show ?thesis
    using inv_advance [of "sy\<lparr>sy_server := s'\<rparr>" n "Answering reply"] n msg H by (simp add: handle_message_def Let_def)
qed

lemma inv_answer:
  assumes inv: "system_inv sy" and n: "n < length (sy_inflight sy)"
  shows "system_inv (answer sent n sy)"
proof -
  have "quietly {} (sy_server sy) ((sy_server sy)\<lparr>sv_sent := x\<rparr>)" for x
    by (simp add: quietly_def new_pushes_def)
  then have "system_inv (sy\<lparr>sy_server := (sy_server sy)\<lparr>sv_sent := x\<rparr>\<rparr>)" for x
    using inv_step_quietly [OF inv, of "{}"] by simp
  then show ?thesis
    using inv n inv_leave [OF inv n] by (auto simp: answer_def Let_def intro!: inv_leave split: message_phase.split)
qed

lemma quietly_release_effects: "quietly U s (release_effects env r s)"
proof -
  have "quietly U s (s1\<lparr>sv_grace := g\<rparr>)" if "writes s s1" for s1 g
    using writes_quietly [OF that, of U] by (simp add: quietly_def new_pushes_def)
  then show ?thesis
    using writes_quietly [OF writes_emit, of U s] by (cases r) (simp add: release_effects_def Let_def)
qed

text \<open>Whoever may release a session finds it without leases.\<close>

lemma may_release_idle:
  assumes inv: "server_inv s" and may: "may_release k s"
  shows "known (sv_tokens s) k \<and> \<not> tracked (sv_tokens s) k \<and> open_leases (sv_tokens s) k = 0"
proof (cases "k \<in> set (tc_callbacks (sv_tokens s))")
  case True
  then show ?thesis
    using called_idle [OF server_invD(1) [OF inv]] by blast
next
  case False
  then have "known (sv_tokens s) k" "\<not> tracked (sv_tokens s) k" "removeDrained k (sv_tokens s)"
    using may server_invD(3) [OF inv] unfolding may_release_def closing_ok_def by blast+
  then show ?thesis
    using drained_idle [OF server_invD(1) [OF inv], of k] by blast
qed

text \<open>The effect of the critical section of a release: the session is released and owns nothing any more.\<close>

lemma release_session_effect:
  assumes inv: "server_inv s" and k: "k < length (sv_fields s)" and R: "release_session k s = (r, s')"
  shows "sv_tokens s' = sv_tokens s" "sv_closing s' = sv_closing s" "sv_autopush s' = sv_autopush s" "length (sv_fields s') = length (sv_fields s)"
    "sf_released (sfields s' x) = (x = k \<or> sf_released (sfields s x))" "sf_uid (sfields s' x) = (if x = k then [] else sf_uid (sfields s x))"
    "mget (sv_conns s') u = (if mget (sv_conns s) u = Some k then None else mget (sv_conns s) u)"
    "LookupWorkload (sv_registry s') u = (if mget (sv_conns s) u = Some k then None else LookupWorkload (sv_registry s) u)"
proof -
  let ?f = "sfields s k"
  let ?u = "sf_uid ?f"
  have own: "mget (sv_conns s) v = Some k \<longleftrightarrow> v = ?u \<and> ?u \<noteq> []" for v
    using server_invD(2) [OF inv] k unfolding owners_ok_def by blast
  have rel: "sf_released ?f \<Longrightarrow> ?u = []"
    using server_invD(3) [OF inv] k unfolding closing_ok_def gone_def by blast
  have all: "sv_tokens s' = sv_tokens s \<and> sv_closing s' = sv_closing s \<and> sv_autopush s' = sv_autopush s \<and> length (sv_fields s') = length (sv_fields s)
    \<and> sf_released (sfields s' x) = (x = k \<or> sf_released (sfields s x)) \<and> sf_uid (sfields s' x) = (if x = k then [] else sf_uid (sfields s x))
    \<and> mget (sv_conns s') u = (if mget (sv_conns s) u = Some k then None else mget (sv_conns s) u)
    \<and> LookupWorkload (sv_registry s') u = (if mget (sv_conns s) u = Some k then None else LookupWorkload (sv_registry s) u)"
  proof (cases "?u = []")
    case True
    then have s': "s' = s\<lparr>sv_fields := (sv_fields s)[k := ?f\<lparr>sf_released := True\<rparr>]\<rparr>"
      using R by (auto simp: release_session_def Let_def split: if_splits)
    show ?thesis
      unfolding own using True k by (auto simp: s' nth_update_if)
  next
    case False
    obtain w reg where U: "UnbindInstance ?u (sv_registry s) = (w, reg)"
      by fastforce
    have s': "s' = s\<lparr>sv_conns := mdel ?u (sv_conns s), sv_registry := reg,
        sv_fields := (sv_fields s)[k := ?f\<lparr>sf_released := True, sf_uid := [], sf_admitted := False\<rparr>]\<rparr>"
    proof -
      have "sf_released ?f = False" "mget (sv_conns s) ?u = Some k"
        using False rel own [of ?u] by blast+
      with R False U show ?thesis
        unfolding release_session_def Let_def by simp
    qed
    have "LookupWorkload reg v = (if v = ?u then None else LookupWorkload (sv_registry s) v)" for v
      using U server_invD(4) [OF inv] False
      by (auto simp: UnbindInstance_def LookupWorkload_def registry_owned_def Let_def map_simps mstr_def split: if_splits option.splits)
    then show ?thesis
      unfolding own using False k by (auto simp: s' nth_update_if map_simps)
  qed
  show "sv_tokens s' = sv_tokens s" "sv_closing s' = sv_closing s" "sv_autopush s' = sv_autopush s" "length (sv_fields s') = length (sv_fields s)"
    "sf_released (sfields s' x) = (x = k \<or> sf_released (sfields s x))" "sf_uid (sfields s' x) = (if x = k then [] else sf_uid (sfields s x))"
    "mget (sv_conns s') u = (if mget (sv_conns s) u = Some k then None else mget (sv_conns s) u)"
    "LookupWorkload (sv_registry s') u = (if mget (sv_conns s) u = Some k then None else LookupWorkload (sv_registry s) u)"
    using all by blast+
qed

lemma inv_release_session:
  assumes inv: "server_inv s" and may: "may_release k s" and R: "release_session k s = (r, s')"
  shows "server_inv s'"
proof -
  note D = server_invD [OF inv] and idle = may_release_idle [OF inv may]
  have k: "k < length (sv_fields s)"
    using idle D(2) by (simp add: owners_ok_def)
  note E = release_session_effect [OF inv k R]
  have own: "u \<noteq> []" "known (sv_tokens s) x" "sf_uid (sfields s x) = u" if "mget (sv_conns s) u = Some x" for u x
    using that D(2) unfolding owners_ok_def by blast+
  have "owners_ok s'"
    unfolding owners_ok_def E(1,4,6,7)
  proof (intro conjI allI impI, goal_cases)
    case 1
    then show ?case
      using D(2) by (simp add: owners_ok_def)
  next
    case (6 x)
    then have "mget (sv_conns s) (sf_uid (sfields s x)) = Some x" "x \<noteq> k"
      using D(2) unfolding owners_ok_def by (auto split: if_splits)
    then show ?case
      by simp
  qed (use own in \<open>auto split: if_splits\<close>)
  moreover have "gone s' x" if "x = k \<or> gone s x" for x
    using that idle by (auto simp: gone_def E(1,6))
  then have "closing_ok s'"
    using D(3) unfolding closing_ok_def E(1,2,4,5) by blast
  moreover have "registry_owned s'" "pushes_ok s'"
    using D(4,5) by (auto simp: registry_owned_def pushes_ok_def E(1,3,7,8) split: if_splits)
  ultimately show ?thesis
    using D(1) by (simp add: server_inv_def E(1))
qed

lemma inv_released:
  assumes inv: "system_inv sy" and may: "may_release k (sy_server sy)"
  shows "system_inv (sy\<lparr>sy_server := releaseSessionOnce env k (sy_server sy)\<rparr>)"
proof -
  let ?s = "sy_server sy"
  obtain r s' where R: "release_session k ?s = (r, s')"
    by fastforce
  note S = system_invD [OF inv]
  note idle = may_release_idle [OF S(1) may]
  have k: "k < length (sv_fields ?s)"
    using idle server_invD(2) [OF S(1)] by (simp add: owners_ok_def)
  note E = release_session_effect [OF S(1) k R]
  have "message_ok s' i" if "i \<in> set (sy_inflight sy)" for i
  proof -
    have "if_session i \<noteq> k"
      using message_lease [OF S(3) [OF that]] idle by auto
    then show ?thesis
      using S(3) [OF that] unfolding message_ok_def owns_instance_def E by simp
  qed
  then have inv': "system_inv (sy\<lparr>sy_server := s'\<rparr>)"
    using inv_release_session [OF S(1) may R] S(2) by (simp add: system_inv_def)
  have "quietly {} s' (releaseSessionOnce env k ?s)"
    using quietly_release_effects by (cases r) (simp_all add: releaseSessionOnce_def R)
  then show ?thesis
    using inv_step_quietly [OF inv', of "{}"] by simp
qed

lemma inv_auto_push:
  assumes inv: "system_inv sy" and p: "p \<in> set (sv_autopush (sy_server sy))"
  shows "system_inv (sy\<lparr>sy_server := auto_push env p (sy_server sy)\<rparr>)"
proof -
  obtain c w u l where p': "p = (c, w, u, l)"
    by (cases p) auto
  let ?s = "triggerAutoPush env c w u (sy_server sy)"
  have q: "quietly {} (sy_server sy) ?s"
    by (rule quietly_auto [OF sound_inv [OF system_invD(1) [OF inv]]])
  have inv': "system_inv (sy\<lparr>sy_server := ?s\<rparr>)"
    using inv_step_quietly [OF inv q] by simp
  show ?thesis
  proof (cases l)
    case None
    then show ?thesis
      using inv' by (simp add: auto_push_def p' Let_def)
  next
    case (Some x)
    have "x < length (tc_leases (sv_tokens (sy_server sy)))"
      using p p' Some server_invD(5) [OF system_invD(1) [OF inv]] unfolding pushes_ok_def by blast
    then have "server_inv (?s\<lparr>sv_tokens := Release x (sv_tokens ?s)\<rparr>)"
      using calm_len(2) [OF quietlyD(3) [OF q]] system_invD(1) [OF inv'] by (intro inv_release_lease) simp_all
    moreover have "message_ok (?s\<lparr>sv_tokens := Release x (sv_tokens ?s)\<rparr>) i" if "i \<in> set (sy_inflight sy)" for i
    proof (rule message_release_lease)
      show "message_ok ?s i"
        using system_invD(3) [OF inv'] that by simp
      show "if_lease i \<noteq> x"
        using system_invD(3) [OF inv that] p p' Some by (auto simp: message_ok_def)
    qed
    ultimately show ?thesis
      using system_invD(2) [OF inv] Some by (simp add: system_inv_def auto_push_def p' Let_def)
  qed
qed

lemma writes_expired: "writes s (graceExpired env w s)"
  unfolding graceExpired_def grace_disconnect_def
  by (auto dest: writes_exec intro: writes_trans [OF _ writes_broadcast] split: prod.split bool.split option.split)

lemma inv_session_step: "session_step parseId sy sy' \<Longrightarrow> system_inv sy \<Longrightarrow> system_inv sy'"
proof (induction rule: session_step.induct)
  case (close k sy)
  have "known (sv_tokens (sy_server sy)) k"
    using close server_invD(2) [OF system_invD(1) [OF close.prems]] by (simp add: owners_ok_def)
  then show ?case
    using inv_step_quietly [OF close.prems quietly_close [OF sound_inv [OF system_invD(1) [OF close.prems]]], of k "{}"] by (simp add: start_close_def)
next
  case (push sy env w y u)
  then show ?case
    using inv_step_quietly [OF push quietly_PushConfig [OF sound_inv [OF system_invD(1) [OF push]], of "{}"]] by simp
next
  case (background sy m)
  have "conn_inv (sv_tokens (sy_server sy))"
    by (rule drain_invD(1) [OF server_invD(1) [OF system_invD(1) [OF background.prems]]])
  then show ?case
    using inv_step_quietly [OF background.prems quietly_tokens [OF background_calm [OF background.hyps]], of "{}"] by simp
next
  case (stopping sy)
  have "background_step (sv_tokens (sy_server sy)) (tokens_beginStop (sv_tokens (sy_server sy)))"
    by (rule background_step.intros)
  moreover have "conn_inv (sv_tokens (sy_server sy))"
    by (rule drain_invD(1) [OF server_invD(1) [OF system_invD(1) [OF stopping]]])
  ultimately have "calm (sv_tokens (sy_server sy)) (tokens_beginStop (sv_tokens (sy_server sy)))"
    by (rule background_calm)
  then have "quietly {} (sy_server sy) (server_beginStop (sy_server sy))"
    using quietly_tokens [of "sy_server sy" "tokens_beginStop (sv_tokens (sy_server sy))" "{}"]
    by (simp add: server_beginStop_def quietly_def new_pushes_def)
  then show ?case
    by (rule inv_step_quietly [OF stopping]) simp
next
  case (timers sy g)
  have "quietly {} (sy_server sy) ((sy_server sy)\<lparr>sv_grace := g\<rparr>)"
    by (simp add: quietly_def new_pushes_def)
  then show ?case
    by (rule inv_step_quietly [OF timers.prems]) simp
next
  case (expiry p sy env)
  then show ?case
    using inv_step_quietly [OF expiry.prems writes_quietly [OF writes_expired], of "{}"] by simp
next
  case (other_writes sy d)
  then show ?case
    using inv_step_quietly [OF other_writes.prems writes_quietly [OF writes_db], of "{}"] by simp
next
  case (token_writes sy db)
  then show ?case
    by (simp add: inv_tokens_db)
next
  case (enter n sy)
  then show ?case
    using inv_leave [of sy n] inv_advance [of sy n Entered] by (simp add: enter_gate_def)
qed (simp_all add: inv_connecting inv_connected inv_message inv_claim inv_use inv_admit inv_handle inv_answer inv_released inv_auto_push)

lemma inv_session_run: "session_run parseId sy sy' \<Longrightarrow> system_inv sy \<Longrightarrow> system_inv sy'"
  by (induction rule: rtranclp_induct) (auto intro: inv_session_step)

text \<open>A release is for ever.\<close>

definition stays_released :: "Server \<Rightarrow> Server \<Rightarrow> bool" where
  "stays_released s s' \<longleftrightarrow>
    length (sv_fields s) \<le> length (sv_fields s') \<and> (\<forall>k < length (sv_fields s). sf_released (sfields s k) \<longrightarrow> sf_released (sfields s' k))"

lemma stays_same: "sv_fields s' = sv_fields s \<Longrightarrow> stays_released s s'"
  by (simp add: stays_released_def)

lemma stays_quietly: "quietly U s s' \<Longrightarrow> stays_released s s'"
  by (rule stays_same) (rule quietlyD(2))

lemma stays_update:
  "(sf_released (sfields s k) \<Longrightarrow> sf_released f) \<Longrightarrow> sv_fields s' = (sv_fields s)[k := f] \<Longrightarrow> stays_released s s'"
  by (auto simp: stays_released_def nth_update_if)

lemma stays_leave: "sv_fields (sy_server (leave n sy)) = sv_fields (sy_server sy)"
  by (simp add: leave_def)

lemma stays_refuse: "stays_released (sy_server sy) (sy_server (refuse n sy))"
  by (rule stays_update [of _ "if_session (sy_inflight sy ! n)" "(sfields (sy_server sy) (if_session (sy_inflight sy ! n)))\<lparr>sf_terminal := True\<rparr>"])
     (simp_all add: refuse_def set_terminal_def leave_def)

lemma server_advance [simp]: "sy_server (advance n p sy) = sy_server sy"
  by (simp add: advance_def)

lemma stays_claim:
  assumes "claim_instance k c msg s = (r, s')"
  shows "if r = MustAdmit then stays_released s s' else s' = s"
  using assms
  by (auto simp: claim_instance_def Let_def stays_released_def nth_update_if split: option.splits if_splits)

lemma stays_trans: "stays_released a b \<Longrightarrow> stays_released b c \<Longrightarrow> stays_released a c"
  unfolding stays_released_def by (meson le_trans order_less_le_trans)

lemma stays_step: "session_step parseId sy sy' \<Longrightarrow> system_inv sy \<Longrightarrow> stays_released (sy_server sy) (sy_server sy')"
proof (induction rule: session_step.induct)
  case (connecting sy queryOK now authorization)
  show ?case
    by (auto simp: onConnecting_def new_session_def stays_released_def nth_append split: connection_response.split)
next
  case (connected k sy conn now)
  show ?case
    by (rule stays_same) (simp add: onConnected_def split: prod.split)
next
  case (message k sy conn msg now)
  show ?case
    by (rule stays_same) (simp add: onSessionMessage_def split: prod.split option.split)
next
  case (enter n sy)
  show ?case
    by (rule stays_same) (simp add: enter_gate_def stays_leave)
next
  case (claim n sy)
  let ?i = "sy_inflight sy ! n"
  obtain r s' where C: "claim_instance (if_session ?i) (if_conn ?i) (if_msg ?i) (sy_server sy) = (r, s')"
    by fastforce
  show ?case
    using stays_claim [OF C] stays_refuse [of sy n] stays_same
    by (cases r) (simp_all add: claim_message_def Let_def C)
next
  case (mark_use n sy cm now)
  have "stays_released (sy_server sy) (sy_server (refuse n (sy\<lparr>sy_tokens := db\<rparr>)))" for db
    using stays_refuse [of "sy\<lparr>sy_tokens := db\<rparr>" n] by simp
  then show ?case
    using stays_same [of "sy_server sy"] by (auto simp: record_use_def Let_def split: prod.split option.split)
next
  case (admit n sy)
  have "stays_released (sy_server sy) ((sy_server sy)\<lparr>sv_fields := (sv_fields (sy_server sy))[k := (sfields (sy_server sy) k)\<lparr>sf_admitted := True\<rparr>]\<rparr>)" for k
    by (simp add: stays_released_def nth_update_if)
  then show ?case
    using stays_refuse [of sy n] by (simp add: admit_message_def Let_def admit_session_def)
next
  case (handle n sy env)
  let ?i = "sy_inflight sy ! n"
  have "if_lease ?i < length (tc_leases (sv_tokens (sy_server sy)))"
    using message_at [OF handle.prems handle.hyps(1)] by (simp add: message_ok_def)
  then have "quietly {hex_EncodeToString (as_InstanceUid msg)} (sy_server sy)
      (snd (handleAcceptedMessageWithLease env msg (Some (if_lease ?i)) (sy_server sy)))" for msg
    by (rule quietly_handler [OF sound_inv [OF system_invD(1) [OF handle.prems]]])
  from stays_quietly [OF this]
  have "stays_released (sy_server sy) s'" if "handleAcceptedMessageWithLease env msg (Some (if_lease ?i)) (sy_server sy) = (r, s')" for msg r s'
    using that by (metis snd_conv)
  then show ?case
    by (auto simp: handle_message_def Let_def stays_same split: option.split prod.split)
next
  case (answered n sy reply sent)
  show ?case
    by (rule stays_same) (simp add: answer_def Let_def stays_leave split: message_phase.split)
next
  case (close k sy)
  show ?case
    by (rule stays_same) (simp add: start_close_def)
next
  case (release k sy env)
  obtain r s' where R: "release_session k (sy_server sy) = (r, s')"
    by fastforce
  have k: "k < length (sv_fields (sy_server sy))"
    using may_release_idle [OF system_invD(1) [OF release.prems] release.hyps] server_invD(2) [OF system_invD(1) [OF release.prems]]
    by (simp add: owners_ok_def)
  have "stays_released (sy_server sy) s'"
    using release_session_effect(4,5) [OF system_invD(1) [OF release.prems] k R] by (simp add: stays_released_def)
  moreover have "stays_released s' (releaseSessionOnce env k (sy_server sy))"
    using stays_quietly [OF quietly_release_effects] stays_same [of s'] by (cases r) (simp_all add: releaseSessionOnce_def R)
  ultimately show ?case
    by (simp add: stays_trans)
next
  case (push sy env w y u)
  then show ?case
    using stays_quietly [OF quietly_PushConfig [OF sound_inv [OF system_invD(1) [OF push]]]] by simp
next
  case (auto_pushes p sy env)
  have "sv_fields (triggerAutoPush env c w u (sy_server sy)) = sv_fields (sy_server sy)" for c w u
    by (rule quietlyD(2) [OF quietly_auto [OF sound_inv [OF system_invD(1) [OF auto_pushes.prems]]]])
  then show ?case
    by (intro stays_same) (simp add: auto_push_def Let_def split: prod.split option.split)
next
  case (stopping sy)
  show ?case
    by (rule stays_same) (simp add: server_beginStop_def)
next
  case (expiry p sy env)
  show ?case
    using writes_fields(2) [OF writes_expired] by (intro stays_same) simp
qed (simp_all add: stays_same)

lemma stays_run:
  assumes "session_run parseId sy sy'" and "system_inv sy"
  shows "stays_released (sy_server sy) (sy_server sy')"
proof -
  have "stays_released (sy_server sy) (sy_server sy') \<and> system_inv sy'"
    using assms
  proof (induction rule: rtranclp_induct)
    case base
    then show ?case
      by (simp add: stays_same)
  next
    case (step y z)
    then show ?case
      using stays_trans [OF _ stays_step] inv_session_step by blast
  qed
  then show ?thesis
    by blast
qed

section \<open>Properties\<close>

text \<open>
  C8: every instance the registry shows as live belongs to a live connection. At every reachable state, whatever the
  interleaving of connections, messages, closings, revocations, expiries and pushes, an instance bound to
  a workload has exactly one session that claims it; this session is the one in the map of connections, it was
  tracked, and it has not been released. So two connections never share an instance, and no instance stays bound
  after its connection is gone.
\<close>

theorem live_instance_has_session:
  assumes "session_run parseId (start_system notifier retention d tokens) sy"
    and "LookupWorkload (sv_registry (sy_server sy)) uid = Some wl"
  shows "\<exists>k. mget (sv_conns (sy_server sy)) uid = Some k \<and> \<not> sf_released (sfields (sy_server sy) k)
    \<and> ts_conn (sess (sv_tokens (sy_server sy)) k) \<noteq> None
    \<and> (\<forall>j < length (sv_fields (sy_server sy)). sf_uid (sfields (sy_server sy) j) = uid \<longleftrightarrow> j = k)"
proof -
  let ?s = "sy_server sy"
  have inv: "server_inv ?s"
    by (rule system_invD(1) [OF inv_session_run [OF assms(1) inv_start]])
  note D = server_invD [OF inv]
  obtain k where k: "mget (sv_conns ?s) uid = Some k"
    using D(4) assms(2) unfolding registry_owned_def by blast
  then have own: "uid \<noteq> []" "known (sv_tokens ?s) k" "sf_uid (sfields ?s k) = uid"
    using D(2) unfolding owners_ok_def by blast+
  moreover from this have "k < length (sv_fields ?s)"
    using D(2) by (simp add: owners_ok_def)
  then have "\<not> sf_released (sfields ?s k)"
    using D(3) own(1,3) unfolding closing_ok_def gone_def by blast
  moreover have "sf_uid (sfields ?s j) = uid \<longleftrightarrow> j = k" if "j < length (sv_fields ?s)" for j
    using D(2) that own(1,3) k unfolding owners_ok_def by (metis option.inject)
  ultimately show ?thesis
    using k by blast
qed

text \<open>
  C9: a released session is gone for good. Once the cleanup of a session has run, in every later state the
  session owns no instance, no message of it is being processed, and it can take no lease, so that it handles no
  further message and nothing is sent on it. A late close or message of an old connection therefore never
  touches an instance that a newer connection has claimed.
\<close>

theorem released_session_is_gone:
  assumes "session_run parseId (start_system notifier retention d tokens) sy"
    and "k < length (sv_fields (sy_server sy))" and "sf_released (sfields (sy_server sy) k)"
    and "session_run parseId sy sy'"
  shows "mget (sv_conns (sy_server sy')) uid \<noteq> Some k
    \<and> k \<notin> if_session ` set (sy_inflight sy') \<and> fst (Acquire k now (sv_tokens (sy_server sy'))) = None"
proof -
  let ?s = "sy_server sy'"
  have inv: "system_inv sy" "system_inv sy'"
    using inv_session_run [OF assms(1) inv_start] inv_session_run [OF assms(4)] by blast+
  have "k < length (sv_fields ?s)" "sf_released (sfields ?s k)"
    using stays_run [OF assms(4) inv(1)] assms(2,3) by (auto simp: stays_released_def)
  then have g: "gone ?s k"
    using server_invD(3) [OF system_invD(1) [OF inv(2)]] by (simp add: closing_ok_def)
  have "mget (sv_conns ?s) uid \<noteq> Some k"
    using server_invD(2) [OF system_invD(1) [OF inv(2)]] g unfolding owners_ok_def gone_def by blast
  moreover have "if_session i \<noteq> k" if "i \<in> set (sy_inflight sy')" for i
    using message_lease [OF system_invD(3) [OF inv(2) that]] g by (auto simp: gone_def)
  moreover have "fst (Acquire k now (sv_tokens ?s)) = None"
    using g by (simp add: gone_def Acquire_def Let_def)
  ultimately show ?thesis
    by blast
qed

section \<open>The tables\<close>



section \<open>Authentication\<close>

text \<open>The single header value that carries a bearer value without separators.\<close>

definition presents :: "string list \<Rightarrow> string \<Rightarrow> bool" where
  "presents authorization v \<longleftrightarrow>
    authorization = [''Bearer '' @ v] \<and> CHR '','' \<notin> set v \<and> set v \<inter> set header_separators = {}"

lemma Contains_comma: "Contains s '','' \<longleftrightarrow> CHR '','' \<in> set s"
  by (auto simp: Contains_def sublist_def in_set_conv_decomp)

lemma authenticate_presents:
  assumes "presents authorization v" and "v \<noteq> []" and "\<not> stopping"
  shows "authenticateRequest parseId queryOK now db stopping authorization =
    (case ParseAndHash parseId v of
       None \<Rightarrow> Unauthorized
     | Some (ident, hash) \<Rightarrow>
         (case ValidateOpAMPToken parseId queryOK ident hash now db of
            Inl InvalidToken \<Rightarrow> Unauthorized | Inl _ \<Rightarrow> ServiceUnavailable | Inr p \<Rightarrow> Accepted p))"
proof -
  have "\<not> Contains (''Bearer '' @ v) '',''" "\<not> list_ex (\<lambda>c. c \<in> set header_separators) v"
    using assms(1) by (auto simp: presents_def Contains_comma list_ex_iff)
  then show ?thesis
    using assms by (simp add: presents_def authenticateRequest_def HasPrefix_def TrimPrefix_def)
qed

lemma authenticate_other:
  assumes "\<nexists>v. v \<noteq> [] \<and> presents authorization v" and "\<not> stopping"
  shows "authenticateRequest parseId queryOK now db stopping authorization = Unauthorized"
proof (cases "\<exists>auth. authorization = [auth] \<and> HasPrefix auth ''Bearer ''")
  case True
  then obtain v where v: "authorization = [''Bearer '' @ v]"
    by (auto simp: HasPrefix_def prefix_def)
  then have "v = [] \<or> \<not> presents authorization v"
    using assms(1) by blast
  then show ?thesis
    using assms(2) v by (auto simp: authenticateRequest_def HasPrefix_def TrimPrefix_def presents_def Contains_comma list_ex_iff)
next
  case False
  then show ?thesis
    using assms(2) by (auto simp: authenticateRequest_def split: list.split)
qed

lemma Validate_failure: "isCanonicalUUID parseId i \<Longrightarrow> ValidateOpAMPToken parseId False i h now db = Inl TokenStoreFailure"
  by (simp add: ValidateOpAMPToken_def)

lemma parse_canonical: "ParseAndHash parseId v = Some (i, h) \<Longrightarrow> isCanonicalUUID parseId i \<and> v \<noteq> []"
  by (auto simp: ParseAndHash_iff tokenPrefix_def)

text \<open>
  C10: exactly which connection requests are accepted and which error the others get. A request is accepted if and
  only if the server is not stopping, the token table can be read, and the request has one bearer header whose
  value parses to the identifier and the digest of a row that is neither revoked nor expired; the session gets the
  identifier and the expiry of this row. It is answered with 503 if and only if the server is stopping or the table cannot be
  read although the value is well-formed. All other requests are answered alike with 401: without or with several headers, malformed,
  of an unknown, a revoked or an expired token, or with a wrong secret.
\<close>

theorem authentication_outcomes:
  assumes "token_run parseId empty_token_db db"
  shows "authenticateRequest parseId queryOK now db stopping authorization =
    (if stopping \<or> \<not> queryOK \<and> (\<exists>v i h. presents authorization v \<and> ParseAndHash parseId v = Some (i, h)) then ServiceUnavailable
     else case authorization of
       [auth] \<Rightarrow>
         (case ParseAndHash parseId (drop 7 auth) of
            Some (i, h) \<Rightarrow>
              (case find_token (db_tokens db) i of
                 Some r \<Rightarrow> if presents authorization (drop 7 auth) \<and> h = tr_secret_hash r \<and> row_live now r
                           then Accepted \<lparr>pr_ID = i, pr_ExpiresAt = tr_expires_at r\<rparr> else Unauthorized
               | None \<Rightarrow> Unauthorized)
          | None \<Rightarrow> Unauthorized)
     | _ \<Rightarrow> Unauthorized)"
proof (cases "stopping \<or> (\<nexists>v. v \<noteq> [] \<and> presents authorization v)")
  case True
  show ?thesis
  proof (cases stopping)
    case False
    then have "\<not> (presents authorization v \<and> ParseAndHash parseId v = Some (i, h))" for v i h
      using True parse_canonical by blast
    moreover have "authenticateRequest parseId queryOK now db stopping authorization = Unauthorized"
      using True False authenticate_other by blast
    ultimately show ?thesis
      using False by (auto split: list.split option.split)
  qed (simp add: authenticateRequest_def)
next
  case False
  then obtain v where v: "v \<noteq> []" "presents authorization v" and st: "\<not> stopping"
    by blast
  have auth: "authorization = [''Bearer '' @ v]" "drop 7 (''Bearer '' @ v) = v"
    using v(2) by (simp_all add: presents_def)
  have only: "presents authorization w \<longleftrightarrow> w = v" for w
    using v(2) by (auto simp: presents_def)
  note eq = authenticate_presents [OF v(2,1) st, of parseId queryOK now db]
  show ?thesis
  proof (cases "ParseAndHash parseId v")
    case None
    then show ?thesis
      unfolding eq only using st auth by simp
  next
    case (Some ih)
    obtain i h where ih: "ih = (i, h)"
      by fastforce
    note P = Some [unfolded ih]
    have can: "isCanonicalUUID parseId i"
      using parse_canonical [OF P] by blast
    have inv: "token_inv db"
      by (rule inv_run [OF assms inv_empty])
    have "length (tr_secret_hash r) = 32" if "find_token (db_tokens db) i = Some r" for r
      using checks_hash [OF find_checks [OF inv that]] .
    then have "ValidateOpAMPToken parseId True i h now db =
        (case find_token (db_tokens db) i of
           None \<Rightarrow> Inl InvalidToken
         | Some r \<Rightarrow> if h = tr_secret_hash r \<and> row_live now r then Inr \<lparr>pr_ID = i, pr_ExpiresAt = tr_expires_at r\<rparr> else Inl InvalidToken)"
      using Validate_none [of db i parseId h now] Validate_eq [of db i _ parseId h now] can by (auto split: option.split)
    then show ?thesis
      using st P Validate_failure [OF can, of h now db]
      unfolding eq only by (cases queryOK) (simp_all add: auth split: option.split)
  qed
qed

text \<open>A token and the header that presents it.\<close>

definition demo_bearer :: string where
  "demo_bearer = tokenPrefix @ demo_tid @ ''.'' @ base64_EncodeToString (replicate 32 1)"

definition demo_tokens :: token_db where
  "demo_tokens = snd (CreateOpAMPToken Some Committed (demo_cred\<lparr>cr_SecretHash := Sum256 demo_bearer\<rparr>) (demo_event ''opamp.token.create'' 10) empty_token_db)"

lemma demo_tokens_run: "token_run Some empty_token_db demo_tokens"
  unfolding demo_tokens_def by (rule r_into_rtranclp, rule token_step.create)

lemma demo_event_parts:
  "event_checks (demo_event ''opamp.token.create'' 10)" "sql_trim ''prod'' = ''prod''" "sql_trim ''admin'' = ''admin''"
  "validateTokenAuditEvent Some (demo_event ''opamp.token.create'' 10) ''opamp.token.create'' demo_tid ''admin'' 10 = None"
  by code_simp+

lemma demo_tokens_row: "find_token (db_tokens demo_tokens) demo_tid =
    Some (new_token_row (demo_cred\<lparr>cr_SecretHash := Sum256 demo_bearer\<rparr>))"
  using demo_event_parts
  by (simp add: demo_tokens_def CreateOpAMPToken_def demo_cred_def demo_tid_def Let_def
      isCanonicalUUID_def validateUTCTime_def empty_token_db_def new_token_row_def token_checks_def
      between_1_128_def insertAuditOutboxEvent_def commit_tx_def)

lemma demo_presents: "presents [''Bearer '' @ demo_bearer] demo_bearer"
proof -
  have "set demo_bearer \<inter> set (CHR '','' # header_separators) = {}"
    by code_simp
  then show ?thesis
    by (simp add: presents_def)
qed

lemma demo_parse: "ParseAndHash Some demo_bearer = Some (demo_tid, Sum256 demo_bearer)"
  unfolding ParseAndHash_iff
  by (rule exI [of _ "replicate 32 1"]) (simp add: demo_bearer_def isCanonicalUUID_def demo_tid_def)

lemma demo_accepted:
  "authenticateRequest Some True 15 demo_tokens False [''Bearer '' @ demo_bearer] = Accepted \<lparr>pr_ID = demo_tid, pr_ExpiresAt = Some 20\<rparr>"
proof -
  have "authenticateRequest Some True 15 demo_tokens False [''Bearer '' @ demo_bearer] =
      (case ParseAndHash Some demo_bearer of
         None \<Rightarrow> Unauthorized
       | Some (ident, hash) \<Rightarrow>
           (case ValidateOpAMPToken Some True ident hash 15 demo_tokens of
              Inl InvalidToken \<Rightarrow> Unauthorized | Inl _ \<Rightarrow> ServiceUnavailable | Inr p \<Rightarrow> Accepted p))"
    by (rule authenticate_presents [OF demo_presents]) (simp_all add: demo_bearer_def tokenPrefix_def)
  moreover have "ValidateOpAMPToken Some True demo_tid (Sum256 demo_bearer) 15 demo_tokens = Inr \<lparr>pr_ID = demo_tid, pr_ExpiresAt = Some 20\<rparr>"
    using Validate_eq [OF demo_tokens_row, of Some "Sum256 demo_bearer" 15]
    by (simp add: row_live_def new_token_row_def Let_def demo_cred_def isCanonicalUUID_def)
  ultimately show ?thesis
    by (simp add: demo_parse)
qed

theorem authentication_outcomes_witness:
  "authenticateRequest Some True 15 demo_tokens False [''Bearer '' @ demo_bearer] = Accepted \<lparr>pr_ID = demo_tid, pr_ExpiresAt = Some 20\<rparr>
   \<and> authenticateRequest Some True 20 demo_tokens False [''Bearer '' @ demo_bearer] = Unauthorized
   \<and> authenticateRequest Some False 15 demo_tokens False [''Bearer '' @ demo_bearer] = ServiceUnavailable"
proof -
  have row: "row_live now (new_token_row (demo_cred\<lparr>cr_SecretHash := Sum256 demo_bearer\<rparr>)) \<longleftrightarrow> now < 20"
    "tr_expires_at (new_token_row (demo_cred\<lparr>cr_SecretHash := Sum256 demo_bearer\<rparr>)) = Some 20"
    "tr_secret_hash (new_token_row (demo_cred\<lparr>cr_SecretHash := Sum256 demo_bearer\<rparr>)) = Sum256 demo_bearer" for now
    by (simp_all add: row_live_def new_token_row_def Let_def demo_cred_def)
  have drop: "drop 7 (''Bearer '' @ demo_bearer) = demo_bearer"
    by simp
  have "\<exists>v i h. presents [''Bearer '' @ demo_bearer] v \<and> ParseAndHash Some v = Some (i, h)"
    using demo_presents demo_parse by blast
  then show ?thesis
    unfolding authentication_outcomes [OF demo_tokens_run] list.case drop using demo_presents
    by (simp add: demo_parse demo_tokens_row row)
qed

text \<open>The token connections while one session is tracked and handles a message.\<close>

definition demo_t1 :: tokenConnections where
  "demo_t1 = newTokenConnections\<lparr>tc_heap := [\<lparr>ts_ID = demo_tid, ts_ExpiresAt = Some 20, ts_conn = None, ts_readers = 0\<rparr>]\<rparr>"

definition demo_t2 :: tokenConnections where "demo_t2 = snd (Track 0 (Some 7) 15 demo_t1)"
definition demo_t3 :: tokenConnections where "demo_t3 = snd (Acquire 0 16 demo_t2)"

lemma demo_t_facts:
  "ts_conn (sess demo_t1 0) = None" "ts_conn (sess demo_t3 0) = Some 7" "ts_ID (sess demo_t3 0) = demo_tid"
  "Acquire 0 16 demo_t2 = (Some 0, demo_t3)"
proof -
  show "ts_conn (sess demo_t1 0) = None" "ts_conn (sess demo_t3 0) = Some 7" "ts_ID (sess demo_t3 0) = demo_tid"
    by code_simp+
  have "fst (Acquire 0 16 demo_t2) = Some 0"
    by code_simp
  then show "Acquire 0 16 demo_t2 = (Some 0, demo_t3)"
    by (simp add: demo_t3_def prod_eq_iff)
qed

definition demo_hello :: AgentToServer where
  "demo_hello = demo_heartbeat\<lparr>as_AgentDescription := Some \<lparr>ad_IdentifyingAttributes = [], ad_NonIdentifyingAttributes = []\<rparr>\<rparr>"

definition demo_uid :: string where "demo_uid = hex_EncodeToString (replicate 16 1)"

text \<open>The system after the claim of the instance, while the use of the token is being recorded.\<close>

definition demo_claimed :: session_system where
  "demo_claimed =
    \<lparr>sy_server = (NewServer True 0 empty_store)\<lparr>sv_tokens := demo_t3, sv_fields := [new_fields\<lparr>sf_uid := demo_uid\<rparr>], sv_conns := mput demo_uid 0 []\<rparr>,
     sy_tokens = demo_tokens,
     sy_inflight = [\<lparr>if_session = 0, if_conn = 7, if_msg = Some demo_hello, if_lease = 0, if_phase = message_phase.Claimed\<rparr>]\<rparr>"

lemma demo_claimed_run: "session_run Some (start_system True 0 empty_store demo_tokens) demo_claimed"
proof -
  let ?new = "NewServer True 0 empty_store"
  define y0 where "y0 = start_system True 0 empty_store demo_tokens"
  define y1 where "y1 = y0\<lparr>sy_server := ?new\<lparr>sv_tokens := demo_t1, sv_fields := [new_fields]\<rparr>\<rparr>"
  define y2 where "y2 = y0\<lparr>sy_server := ?new\<lparr>sv_tokens := demo_t2, sv_fields := [new_fields]\<rparr>\<rparr>"
  define i where "i = \<lparr>if_session = 0, if_conn = 7, if_msg = Some demo_hello, if_lease = 0, if_phase = Arrived\<rparr>"
  define y3 where "y3 = y0\<lparr>sy_server := ?new\<lparr>sv_tokens := demo_t3, sv_fields := [new_fields]\<rparr>, sy_inflight := [i]\<rparr>"
  define y4 where "y4 = y3\<lparr>sy_inflight := [i\<lparr>if_phase := Entered\<rparr>]\<rparr>"
  have uid: "length (as_InstanceUid demo_hello) = 16" "hex_EncodeToString (as_InstanceUid demo_hello) = demo_uid"
    by (simp_all add: demo_hello_def demo_heartbeat_def demo_uid_def)
  have "snd (onConnecting Some True 15 [''Bearer '' @ demo_bearer] y0) = y1"
    using demo_accepted
    by (simp add: onConnecting_def y0_def y1_def start_system_def NewServer_def new_session_def demo_t1_def newTokenConnections_def)
  then have 1: "session_step Some y0 y1"
    using session_step.connecting [of Some y0 True 15 "[''Bearer '' @ demo_bearer]"] by simp
  have "snd (onConnected 0 7 15 y1) = y2"
    by (simp add: onConnected_def y1_def y2_def demo_t2_def split: prod.split)
  then have 2: "session_step Some y1 y2"
    using session_step.connected [of 0 y1 Some 7 15] demo_t_facts(1) by (simp add: y1_def)
  have "onSessionMessage 0 7 (Some demo_hello) 16 y2 = y3"
    by (simp add: onSessionMessage_def y2_def y3_def y0_def start_system_def demo_t_facts(4) i_def)
  then have 3: "session_step Some y2 y3"
    using session_step.message [of 0 y2 Some 7 "Some demo_hello" 16] by (simp add: y2_def)
  have "enter_gate 0 y3 = y4"
    by (simp add: enter_gate_def advance_def y3_def y4_def i_def new_fields_def)
  then have 4: "session_step Some y3 y4"
    using session_step.enter [of 0 y3 Some] by (simp add: y3_def i_def holds_gate_def)
  have "claim_message 0 y4 = demo_claimed"
    by (simp add: claim_message_def Let_def claim_instance_def advance_def y4_def y3_def y0_def start_system_def i_def uid demo_t_facts(2)
        new_fields_def demo_claimed_def NewServer_def map_simps)
  then have 5: "session_step Some y4 demo_claimed"
    using session_step.claim [of 0 y4 Some] by (simp add: y4_def i_def)
  from 1 2 3 4 5 show ?thesis
    unfolding y0_def by (meson converse_rtranclp_into_rtranclp rtranclp.rtrancl_refl)
qed

lemma demo_used: "\<exists>db. MarkOpAMPTokenUsed Some Committed demo_tid 16 demo_tokens = (None, db)"
proof -
  have "token_checks ((new_token_row (demo_cred\<lparr>cr_SecretHash := Sum256 demo_bearer\<rparr>))\<lparr>tr_last_used_at := Some 16\<rparr>)"
    using demo_event_parts(2,3) by (simp add: token_checks_def new_token_row_def Let_def demo_cred_def between_1_128_def)
  then show ?thesis
    using demo_tokens_row
    by (simp add: MarkOpAMPTokenUsed_def isCanonicalUUID_def new_token_row_def Let_def demo_cred_def mark_commit_def commit_tx_def)
qed

text \<open>The claimed instance is admitted and its description handled.\<close>

lemma demo_live: "\<exists>sy. session_run Some (start_system True 0 empty_store demo_tokens) sy \<and> LookupWorkload (sv_registry (sy_server sy)) demo_uid \<noteq> None"
proof -
  let ?i = "sy_inflight demo_claimed ! 0"
  obtain db where db: "MarkOpAMPTokenUsed Some Committed demo_tid 16 demo_tokens = (None, db)"
    using demo_used ..
  define y6 where "y6 = demo_claimed\<lparr>sy_tokens := db, sy_inflight := [?i\<lparr>if_phase := Used\<rparr>]\<rparr>"
  define s7 where "s7 = (sy_server demo_claimed)\<lparr>sv_fields := [new_fields\<lparr>sf_uid := demo_uid, sf_admitted := True\<rparr>]\<rparr>"
  define y7 where "y7 = y6\<lparr>sy_server := s7, sy_inflight := [?i\<lparr>if_phase := Cleared\<rparr>]\<rparr>"
  have "record_use Some Committed 16 0 demo_claimed = y6"
    by (simp add: record_use_def Let_def advance_def demo_claimed_def y6_def demo_t_facts(3) db)
  then have 6: "session_step Some demo_claimed y6"
    using session_step.mark_use [of 0 demo_claimed Some Committed 16] by (simp add: demo_claimed_def)
  have "admit_message 0 y6 = y7"
    by (simp add: admit_message_def Let_def admit_session_def advance_def y6_def y7_def s7_def demo_claimed_def message_uid_def map_simps
        demo_hello_def demo_heartbeat_def demo_uid_def)
  then have 7: "session_step Some y6 y7"
    using session_step.admit [of 0 y6 Some] by (simp add: y6_def)
  have run7: "session_run Some (start_system True 0 empty_store demo_tokens) y7"
    using demo_claimed_run 6 7 by (meson rtranclp.rtrancl_into_rtrancl)
  have inv: "system_inv y7"
    by (rule inv_session_run [OF run7 inv_start])
  have i: "sy_inflight y7 = [?i\<lparr>if_phase := Cleared\<rparr>]" "if_msg ?i = Some demo_hello" "if_lease ?i = 0"
    by (simp_all add: y7_def demo_claimed_def)
  have l: "0 < length (tc_leases (sv_tokens (sy_server y7)))"
    using message_at [OF inv, of 0] i by (simp add: message_ok_def)
  have 8: "session_step Some y7 (handle_message demo_senv 0 y7)"
    using session_step.handle [of 0 y7 Some demo_senv] i by simp
  have "sy_server (handle_message demo_senv 0 y7) = snd (handleAcceptedMessageWithLease demo_senv demo_hello (Some 0) (sy_server y7))"
    using i by (simp add: handle_message_def Let_def split: prod.split)
  then have "LookupWorkload (sv_registry (sy_server (handle_message demo_senv 0 y7))) demo_uid \<noteq> None"
    using handler_binds [OF sound_inv [OF system_invD(1) [OF inv]] l, of demo_hello _ demo_senv]
    by (simp add: demo_hello_def demo_heartbeat_def demo_uid_def)
  then show ?thesis
    using rtranclp.rtrancl_into_rtrancl [OF run7 8] by blast
qed

theorem live_instance_has_session_witness:
  "\<exists>sy k. session_run Some (start_system True 0 empty_store demo_tokens) sy \<and> LookupWorkload (sv_registry (sy_server sy)) demo_uid \<noteq> None
    \<and> mget (sv_conns (sy_server sy)) demo_uid = Some k"
proof -
  obtain sy wl where sy: "session_run Some (start_system True 0 empty_store demo_tokens) sy" "LookupWorkload (sv_registry (sy_server sy)) demo_uid = Some wl"
    using demo_live by blast
  with live_instance_has_session [OF sy] show ?thesis
    by blast
qed


text \<open>Instead the use of the token cannot be recorded: the session is refused, closed and released.\<close>

definition demo_t4 :: tokenConnections where "demo_t4 = Release 0 demo_t3"
definition demo_t5 :: tokenConnections where "demo_t5 = Remove 0 demo_t4"
definition demo_t6 :: tokenConnections where "demo_t6 = the (finishRemove 0 demo_t5)"

definition demo_released :: session_system where
  "demo_released =
    \<lparr>sy_server = (NewServer True 0 empty_store)\<lparr>sv_tokens := demo_t6,
        sv_fields := [\<lparr>sf_uid = [], sf_admitted = False, sf_terminal = True, sf_released = True\<rparr>], sv_conns := mdel demo_uid (mput demo_uid 0 []),
        sv_closing := [0]\<rparr>,
     sy_tokens = demo_tokens, sy_inflight = []\<rparr>"

lemma demo_released_run: "session_run Some (start_system True 0 empty_store demo_tokens) demo_released"
proof -
  let ?f = "new_fields\<lparr>sf_uid := demo_uid, sf_terminal := True\<rparr>"
  let ?s = "(sy_server demo_claimed)\<lparr>sv_fields := [?f]\<rparr>"
  define y6 where "y6 = demo_claimed\<lparr>sy_server := ?s\<lparr>sv_tokens := demo_t4\<rparr>, sy_inflight := []\<rparr>"
  define y7 where "y7 = demo_claimed\<lparr>sy_server := ?s\<lparr>sv_tokens := demo_t5, sv_closing := [0]\<rparr>, sy_inflight := []\<rparr>"
  define y8 where "y8 = demo_claimed\<lparr>sy_server := ?s\<lparr>sv_tokens := demo_t6, sv_closing := [0]\<rparr>, sy_inflight := []\<rparr>"
  have t: "ts_conn (sess demo_t4 0) \<noteq> None" "finishRemove 0 demo_t5 \<noteq> None" "length (tc_removes demo_t5) = 1" "removeDrained 0 demo_t6"
    by code_simp+
  have "record_use Some BeginFails 16 0 demo_claimed = y6"
    by (simp add: record_use_def Let_def MarkOpAMPTokenUsed_def isCanonicalUUID_def refuse_def set_terminal_def leave_def demo_claimed_def y6_def
        demo_t4_def demo_t_facts(3))
  then have 6: "session_step Some demo_claimed y6"
    using session_step.mark_use [of 0 demo_claimed Some BeginFails 16] by (simp add: demo_claimed_def)
  have "y6\<lparr>sy_server := start_close 0 (sy_server y6)\<rparr> = y7"
    by (simp add: start_close_def y6_def y7_def demo_t5_def demo_claimed_def NewServer_def)
  then have 7: "session_step Some y6 y7"
    using session_step.close [of 0 y6 Some] t(1) by (simp add: y6_def)
  have "background_step demo_t5 demo_t6"
    using background_step.intros(4) [of 0 demo_t5 demo_t6] t(2,3) by (auto simp: demo_t6_def)
  moreover have "sv_tokens (sy_server y7) = demo_t5" "y7\<lparr>sy_server := (sy_server y7)\<lparr>sv_tokens := demo_t6\<rparr>\<rparr> = y8"
    by (simp_all add: y7_def y8_def)
  ultimately have 8: "session_step Some y7 y8"
    using session_step.background [of y7 demo_t6 Some] by simp
  have "y8\<lparr>sy_server := releaseSessionOnce demo_senv 0 (sy_server y8)\<rparr> = demo_released"
    by (simp add: releaseSessionOnce_def release_session_def Let_def y8_def demo_claimed_def demo_released_def new_fields_def map_simps
        demo_uid_def hex_nonempty NewServer_def LookupWorkload_def NewInstanceRegistry_def UnbindInstance_def mstr_def)
  then have 9: "session_step Some y8 demo_released"
    using session_step.release [of 0 y8 Some demo_senv] t(4) by (simp add: may_release_def y8_def)
  from demo_claimed_run 6 7 8 9 show ?thesis
    by (meson rtranclp.rtrancl_into_rtrancl)
qed

theorem released_session_is_gone_witness:
  "mget (sv_conns (sy_server demo_claimed)) demo_uid = Some 0 \<and> mget (sv_conns (sy_server demo_released)) demo_uid \<noteq> Some 0
    \<and> fst (Acquire 0 17 (sv_tokens (sy_server demo_released))) = None"
proof -
  have "sf_released (sfields (sy_server demo_released) 0)" "0 < length (sv_fields (sy_server demo_released))"
    by (simp_all add: demo_released_def)
  then show ?thesis
    using released_session_is_gone [OF demo_released_run _ _ rtranclp.rtrancl_refl, of 0 demo_uid 17]
    by (simp add: demo_claimed_def map_simps)
qed

end
