(* ===== verification/Spec2Isabelle.thy ===== *)
theory Spec2Isabelle
  imports Semver Login_Limiter Push_Status Instance_Registry Grace_Timer Opamp_Tokens Token_Sessions
    Sql_Rebind Opamp_Sessions
begin

text \<open>
  A verification library for otel-magnify, a control plane for OpenTelemetry collectors.

  The program is a Go server. Collectors and SDK agents connect to it over OpAMP
  (\<open>internal/opamp\<close>), users over a REST API (\<open>internal/api\<close>), and both work on a SQL store
  (\<open>internal/store\<close>). The theories below model its decision logic as executable functions.

  \<^item> \<open>Go_Prelude\<close>, \<open>Go_Strings\<close>: Go maps, 64-bit integers, times, the string functions.
  \<^item> \<open>Semver\<close>: version comparison (\<open>internal/version\<close>).
  \<^item> \<open>Api_Response\<close>, \<open>Access_Control\<close>: answers, permissions, capabilities, guards, routes.
  \<^item> \<open>Sql_Rebind\<close>, \<open>Store_Tables\<close>, \<open>Workload_Store\<close>, \<open>Canary_Store\<close>, \<open>Config_History\<close>: the store.
\<close>

end
